(* ===== verification/Prelude.thy ===== *)
theory Prelude
  imports Main "HOL-Library.Word" "HOL-Library.List_Lexorder"
begin

text \<open>
  Shared vocabulary of the development: machine integers with Rust's checked and saturating
  arithmetic, \<open>Result\<close> as a sum type, UTF-8 strings as lists of code points, hash maps as
  association lists, and the interface locales that several aggregates of the code instantiate
  (revisioned aggregates, lifecycles, restorable snapshots).
\<close>

named_theorems result_simps \<open>inversion of successful results\<close>
named_theorems str_simps \<open>evaluation of string predicates\<close>

section \<open>Machine integers\<close>

type_synonym u8 = "8 word"
type_synonym u32 = "32 word"
type_synonym u64 = "64 word"

text \<open>\<open>UnixMillis\<close> of the code is an alias of \<open>u64\<close>.\<close>

type_synonym unix_millis = u64

definition checked_add :: "'a::len word \<Rightarrow> 'a word \<Rightarrow> 'a word option" where
  "checked_add a b = (if unat a + unat b < 2 ^ LENGTH('a) then Some (a + b) else None)"

definition checked_sub :: "'a::len word \<Rightarrow> 'a word \<Rightarrow> 'a word option" where
  "checked_sub a b = (if b \<le> a then Some (a - b) else None)"

definition checked_mul :: "'a::len word \<Rightarrow> 'a word \<Rightarrow> 'a word option" where
  "checked_mul a b = (if unat a * unat b < 2 ^ LENGTH('a) then Some (a * b) else None)"

definition saturating_add :: "'a::len word \<Rightarrow> 'a word \<Rightarrow> 'a word" where
  "saturating_add a b = (if unat a + unat b < 2 ^ LENGTH('a) then a + b else - 1)"

definition saturating_mul :: "'a::len word \<Rightarrow> 'a word \<Rightarrow> 'a word" where
  "saturating_mul a b = (if unat a * unat b < 2 ^ LENGTH('a) then a * b else - 1)"

definition saturating_sub :: "'a::len word \<Rightarrow> 'a word \<Rightarrow> 'a word" where
  "saturating_sub a b = (if b \<le> a then a - b else 0)"

text \<open>\<open>saturating_add(1)\<close>, the revision step of the saturating aggregates.\<close>

abbreviation sat_succ :: "u64 \<Rightarrow> u64" where
  "sat_succ r \<equiv> saturating_add r 1"

text \<open>\<open>usize\<close> values are naturals below \<open>2 ^ 64\<close>; conversions and checked sums write the bound out.\<close>

definition usize_checked_add :: "nat \<Rightarrow> nat \<Rightarrow> nat option" where
  "usize_checked_add a b = (if a + b < 2 ^ 64 then Some (a + b) else None)"

definition u64_try_from :: "nat \<Rightarrow> u64 option" where
  "u64_try_from n = (if n < 2 ^ 64 then Some (of_nat n) else None)"

lemma unat_minus_one_word_max: "unat (- 1 :: 'a::len word) = 2 ^ LENGTH('a) - 1"
  by (simp add: unsigned_minus_1_eq_mask mask_eq_exp_minus_1)

lemma unat_eq_max_iff: "unat a + 1 < 2 ^ LENGTH('a) \<longleftrightarrow> (a :: 'a::len word) \<noteq> - 1"
proof -
  have "unat a < 2 ^ LENGTH('a)" by (rule unsigned_less)
  moreover have "a = - 1 \<longleftrightarrow> unat a = 2 ^ LENGTH('a) - 1"
    using unat_minus_one_word_max [where 'a = 'a] by (metis word_unat_eq_iff)
  ultimately show ?thesis by arith
qed

lemma checked_add_one: "checked_add (a :: u64) 1 = (if a = - 1 then None else Some (a + 1))"
  using unat_eq_max_iff [of a] by (simp add: checked_add_def)

lemma checked_add_one_u32: "checked_add (a :: u32) 1 = (if a = - 1 then None else Some (a + 1))"
  using unat_eq_max_iff [of a] by (simp add: checked_add_def)

lemma sat_succ_eq: "sat_succ a = (if a = - 1 then - 1 else a + 1)"
  using unat_eq_max_iff [of a] by (simp add: saturating_add_def)

lemma checked_add_Some_unat: "checked_add a b = Some c \<Longrightarrow> unat c = unat a + unat b"
  by (auto simp: checked_add_def unat_word_ariths split: if_splits)

lemma checked_add_Some_ge: "checked_add a b = Some c \<Longrightarrow> a \<le> c"
  by (drule checked_add_Some_unat) (simp add: word_le_nat_alt)

lemma checked_sub_Some_unat: "checked_sub a b = Some c \<Longrightarrow> unat c + unat b = unat a"
  by (auto simp: checked_sub_def unat_sub word_le_nat_alt split: if_splits)

lemma unat_succ: "(a :: u64) \<noteq> - 1 \<Longrightarrow> unat (a + 1) = Suc (unat a)"
  using unat_eq_max_iff [of a] by (simp add: unat_word_ariths)

lemma unat_sat_succ: "unat (sat_succ a) = min (Suc (unat a)) (2 ^ 64 - 1)"
proof (cases "a = - 1")
  case True
  then show ?thesis using unat_minus_one_word_max [where 'a = 64] by (simp add: sat_succ_eq)
next
  case False
  with unat_eq_max_iff [of a] show ?thesis by (simp add: sat_succ_eq unat_succ)
qed

lemma sat_succ_ge: "a \<le> sat_succ a"
  using unsigned_less [of a, where 'a = nat] by (simp add: word_le_nat_alt unat_sat_succ)

lemma sat_succ_gt: "a \<noteq> - 1 \<Longrightarrow> a < sat_succ a"
  using unat_eq_max_iff [of a] by (simp add: word_less_nat_alt unat_sat_succ)

lemma sat_succ_zero [simp]: "sat_succ 0 = 1"
  by (simp add: sat_succ_eq)

lemma unat_ucast_u32: "unat (ucast (v :: u32) :: u64) = unat v"
  by (simp add: unsigned_ucast_eq take_bit_nat_eq_self_iff unsigned_less [THEN less_le_trans])

section \<open>Results\<close>

text \<open>
  \<open>Result<T, E>\<close> is \<open>'e + 'a\<close>; \<open>and_then\<close> is the \<open>?\<close> operator followed by the rest of the
  function, \<open>fail_if\<close> an early \<open>return Err(..)\<close> guarded by a condition.
\<close>

definition and_then :: "'e + 'a \<Rightarrow> ('a \<Rightarrow> 'e + 'b) \<Rightarrow> 'e + 'b" where
  "and_then m k = (case m of Inl e \<Rightarrow> Inl e | Inr x \<Rightarrow> k x)"

definition fail_if :: "bool \<Rightarrow> 'e \<Rightarrow> 'e + unit" where
  "fail_if c e = (if c then Inl e else Inr ())"

definition ok_or :: "'a option \<Rightarrow> 'e \<Rightarrow> 'e + 'a" where
  "ok_or m e = (case m of None \<Rightarrow> Inl e | Some x \<Rightarrow> Inr x)"

definition map_err :: "('e \<Rightarrow> 'f) \<Rightarrow> 'e + 'a \<Rightarrow> 'f + 'a" where
  "map_err f m = (case m of Inl e \<Rightarrow> Inl (f e) | Inr x \<Rightarrow> Inr x)"

definition map_ok :: "('a \<Rightarrow> 'b) \<Rightarrow> 'e + 'a \<Rightarrow> 'e + 'b" where
  "map_ok f m = (case m of Inl e \<Rightarrow> Inl e | Inr x \<Rightarrow> Inr (f x))"

definition is_ok :: "'e + 'a \<Rightarrow> bool" where
  "is_ok m = (case m of Inl _ \<Rightarrow> False | Inr _ \<Rightarrow> True)"

lemma and_then_simps [simp]:
  "and_then (Inl e) k = Inl e"
  "and_then (Inr x) k = k x"
  by (simp_all add: and_then_def)

lemma fail_if_simps [simp]:
  "fail_if True e = Inl e"
  "fail_if False e = Inr ()"
  by (simp_all add: fail_if_def)

lemma ok_or_simps [simp]:
  "ok_or None e = Inl e"
  "ok_or (Some x) e = Inr x"
  by (simp_all add: ok_or_def)

lemma map_err_simps [simp]:
  "map_err f (Inl e) = Inl (f e)"
  "map_err f (Inr x) = Inr x"
  by (simp_all add: map_err_def)

lemma map_ok_simps [simp]:
  "map_ok g (Inl e) = Inl e"
  "map_ok g (Inr x) = Inr (g x)"
  by (simp_all add: map_ok_def)

lemma is_ok_simps [simp]:
  "\<not> is_ok (Inl e)"
  "is_ok (Inr x)"
  by (simp_all add: is_ok_def)

lemma is_ok_iff: "is_ok m \<longleftrightarrow> (\<exists>x. m = Inr x)"
  by (cases m) simp_all

lemma is_ok_unit: "is_ok (m :: 'e + unit) \<longleftrightarrow> m = Inr ()"
  by (cases m) simp_all

lemma and_then_Inr [result_simps]:
  "and_then m k = Inr y \<longleftrightarrow> (\<exists>x. m = Inr x \<and> k x = Inr y)"
  by (cases m) simp_all

lemma fail_if_Inr [result_simps]: "fail_if c e = Inr u \<longleftrightarrow> \<not> c"
  by (cases c) simp_all

lemma ok_or_Inr [result_simps]: "ok_or m e = Inr x \<longleftrightarrow> m = Some x"
  by (cases m) simp_all

lemma map_err_Inr [result_simps]: "map_err f m = Inr x \<longleftrightarrow> m = Inr x"
  by (cases m) simp_all

lemma map_ok_Inr [result_simps]: "map_ok f m = Inr y \<longleftrightarrow> (\<exists>x. m = Inr x \<and> y = f x)"
  by (cases m) auto

lemma is_ok_and_then: "is_ok (and_then m k) \<longleftrightarrow> (\<exists>x. m = Inr x \<and> is_ok (k x))"
  by (cases m) simp_all

lemma is_ok_fail_if [simp]: "is_ok (fail_if c e) \<longleftrightarrow> \<not> c"
  by (cases c) simp_all

section \<open>Strings\<close>

text \<open>
  A Rust \<open>str\<close> is a sequence of Unicode scalar values whose length is counted in UTF-8 bytes.
  It is modelled by its list of code points; \<open>str_bytes\<close> is its UTF-8 encoding and \<open>str_len\<close>
  the byte length \<open>str::len\<close> returns. \<open>char_is_control\<close> is the general category Cc and
  \<open>char_is_whitespace\<close> the White_Space property, as \<open>char::is_control\<close> and
  \<open>char::is_whitespace\<close> define them.
\<close>

type_synonym rchar = nat
type_synonym rstr = "rchar list"

definition lit :: "string \<Rightarrow> rstr" where
  "lit s = map of_char s"

definition utf8_encode :: "rchar \<Rightarrow> u8 list" where
  "utf8_encode c =
     (if c < 128 then [of_nat c]
      else if c < 2048 then [of_nat (192 + c div 64), of_nat (128 + c mod 64)]
      else if c < 65536 then
        [of_nat (224 + c div 4096), of_nat (128 + c div 64 mod 64), of_nat (128 + c mod 64)]
      else
        [of_nat (240 + c div 262144), of_nat (128 + c div 4096 mod 64),
         of_nat (128 + c div 64 mod 64), of_nat (128 + c mod 64)])"

definition str_bytes :: "rstr \<Rightarrow> u8 list" where
  "str_bytes s = concat (map utf8_encode s)"

definition utf8_width :: "rchar \<Rightarrow> nat" where
  "utf8_width c = (if c < 128 then 1 else if c < 2048 then 2 else if c < 65536 then 3 else 4)"

definition str_len :: "rstr \<Rightarrow> nat" where
  "str_len s = sum_list (map utf8_width s)"

definition char_is_control :: "rchar \<Rightarrow> bool" where
  "char_is_control c \<longleftrightarrow> c < 32 \<or> 127 \<le> c \<and> c < 160"

definition char_is_whitespace :: "rchar \<Rightarrow> bool" where
  "char_is_whitespace c \<longleftrightarrow>
     9 \<le> c \<and> c \<le> 13 \<or> c = 32 \<or> c = 133 \<or> c = 160 \<or> c = 5760 \<or>
     8192 \<le> c \<and> c \<le> 8202 \<or> c = 8232 \<or> c = 8233 \<or> c = 8239 \<or> c = 8287 \<or> c = 12288"

definition str_trim :: "rstr \<Rightarrow> rstr" where
  "str_trim s = rev (dropWhile char_is_whitespace (rev (dropWhile char_is_whitespace s)))"

text \<open>\<open>str::starts_with\<close> with a string pattern.\<close>

definition str_starts_with :: "rstr \<Rightarrow> rstr \<Rightarrow> bool" where
  "str_starts_with s p \<longleftrightarrow> take (length p) s = p"

text \<open>\<open>u8::is_ascii_alphanumeric\<close>.\<close>

definition byte_is_ascii_alphanumeric :: "u8 \<Rightarrow> bool" where
  "byte_is_ascii_alphanumeric b \<longleftrightarrow>
     48 \<le> b \<and> b \<le> 57 \<or> 65 \<le> b \<and> b \<le> 90 \<or> 97 \<le> b \<and> b \<le> 122"

text \<open>
  The control-character rule shared by prompts, messages and text events: NUL is refused, the
  other controls are refused except line feed, carriage return and tab.
\<close>

definition is_unsupported_control :: "rchar \<Rightarrow> bool" where
  "is_unsupported_control c \<longleftrightarrow> c = 0 \<or> char_is_control c \<and> c \<noteq> 10 \<and> c \<noteq> 13 \<and> c \<noteq> 9"

lemma length_utf8_encode: "length (utf8_encode c) = utf8_width c"
  by (simp add: utf8_encode_def utf8_width_def)

lemma str_len_bytes: "str_len s = length (str_bytes s)"
  by (induction s) (simp_all add: str_len_def str_bytes_def length_utf8_encode)

lemma str_len_Nil [simp]: "str_len [] = 0"
  by (simp add: str_len_def)

lemma str_len_Cons: "str_len (c # s) = utf8_width c + str_len s"
  by (simp add: str_len_def)

lemma str_len_append [simp]: "str_len (s @ t) = str_len s + str_len t"
  by (simp add: str_len_def)

lemma utf8_width_pos: "0 < utf8_width c"
  by (simp add: utf8_width_def)

lemma str_len_eq_0 [simp]: "str_len s = 0 \<longleftrightarrow> s = []"
  using utf8_width_pos by (cases s) (auto simp: str_len_Cons dest: less_imp_neq)

lemma str_len_ge_length: "length s \<le> str_len s"
proof (induction s)
  case (Cons c s)
  then show ?case using utf8_width_pos [of c] by (simp add: str_len_Cons)
qed simp

lemma str_len_ascii: "(\<And>c. c \<in> set s \<Longrightarrow> c < 128) \<Longrightarrow> str_len s = length s"
  by (induction s) (simp_all add: str_len_Cons utf8_width_def)

lemma lit_Nil [simp]: "lit [] = []"
  by (simp add: lit_def)

lemma lit_Cons [simp]: "lit (c # s) = of_char c # lit s"
  by (simp add: lit_def)

section \<open>Hash maps\<close>

text \<open>
  \<open>HashMap<K, V>\<close> as an association list without repeated keys. \<open>hm_insert\<close> replaces the value
  of a present key; \<open>hm_values\<close> enumerates the values (in an order the code never relies on: it
  sorts whatever it enumerates).
\<close>

type_synonym ('k, 'v) hmap = "('k \<times> 'v) list"

fun hm_get :: "('k, 'v) hmap \<Rightarrow> 'k \<Rightarrow> 'v option" where
  "hm_get [] k = None"
| "hm_get ((k', v) # m) k = (if k = k' then Some v else hm_get m k)"

fun hm_insert :: "'k \<Rightarrow> 'v \<Rightarrow> ('k, 'v) hmap \<Rightarrow> ('k, 'v) hmap" where
  "hm_insert k v [] = [(k, v)]"
| "hm_insert k v ((k', v') # m) = (if k = k' then (k, v) # m else (k', v') # hm_insert k v m)"

definition hm_values :: "('k, 'v) hmap \<Rightarrow> 'v list" where
  "hm_values m = map snd m"

definition hm_wf :: "('k, 'v) hmap \<Rightarrow> bool" where
  "hm_wf m \<longleftrightarrow> distinct (map fst m)"

definition hm_contains :: "('k, 'v) hmap \<Rightarrow> 'k \<Rightarrow> bool" where
  "hm_contains m k \<longleftrightarrow> hm_get m k \<noteq> None"

lemma hm_get_insert [simp]: "hm_get (hm_insert k v m) j = (if j = k then Some v else hm_get m j)"
  by (induction k v m rule: hm_insert.induct) auto

lemma fst_hm_insert: "fst ` set (hm_insert k v m) = insert k (fst ` set m)"
  by (induction k v m rule: hm_insert.induct) auto

lemma hm_wf_Nil [simp]: "hm_wf []"
  by (simp add: hm_wf_def)

lemma hm_wf_insert [simp]: "hm_wf m \<Longrightarrow> hm_wf (hm_insert k v m)"
  by (induction k v m rule: hm_insert.induct) (auto simp: hm_wf_def fst_hm_insert)

lemma hm_values_iff: "hm_wf m \<Longrightarrow> v \<in> set (hm_values m) \<longleftrightarrow> (\<exists>k. hm_get m k = Some v)"
proof (induction m)
  case (Cons p m)
  obtain k v' where p: "p = (k, v')" by (cases p)
  from Cons.prems have wf: "hm_wf m" and k: "k \<notin> fst ` set m"
    by (auto simp: p hm_wf_def)
  have none: "hm_get m k = None"
    using k by (induction m) auto
  have "v \<in> set (hm_values (p # m)) \<longleftrightarrow> v = v' \<or> v \<in> set (hm_values m)"
    by (auto simp: p hm_values_def)
  also have "\<dots> \<longleftrightarrow> v = v' \<or> (\<exists>j. hm_get m j = Some v)"
    by (simp add: Cons.IH [OF wf])
  also have "\<dots> \<longleftrightarrow> (\<exists>j. hm_get (p # m) j = Some v)"
    using none by (auto simp: p) (metis option.distinct(1))
  finally show ?case .
qed (simp add: hm_values_def)

text \<open>The laws of a map that the stores rely on, as an interface.\<close>

locale hash_map =
  fixes get :: "'m \<Rightarrow> 'k \<Rightarrow> 'v option"
    and ins :: "'k \<Rightarrow> 'v \<Rightarrow> 'm \<Rightarrow> 'm"
    and vals :: "'m \<Rightarrow> 'v list"
    and wf :: "'m \<Rightarrow> bool"
  assumes get_ins: "get (ins k v m) j = (if j = k then Some v else get m j)"
    and wf_ins: "wf m \<Longrightarrow> wf (ins k v m)"
    and vals_get: "wf m \<Longrightarrow> v \<in> set (vals m) \<longleftrightarrow> (\<exists>k. get m k = Some v)"
begin

lemma get_ins_same: "get (ins k v m) k = Some v"
  by (simp add: get_ins)

lemma get_ins_other: "j \<noteq> k \<Longrightarrow> get (ins k v m) j = get m j"
  by (simp add: get_ins)

lemma vals_ins: "wf m \<Longrightarrow> w \<in> set (vals (ins k v m)) \<Longrightarrow> w = v \<or> w \<in> set (vals m)"
  using vals_get [OF wf_ins, of m w k v] vals_get [of m w] by (auto simp: get_ins split: if_splits)

lemma vals_all_ins:
  assumes "wf m" and "\<And>w. w \<in> set (vals m) \<Longrightarrow> P w" and "P v"
  shows "\<forall>w \<in> set (vals (ins k v m)). P w"
  using assms vals_ins [of m _ k v] by blast

end

interpretation hm: hash_map hm_get hm_insert hm_values hm_wf
  by unfold_locales (auto simp: hm_values_iff)

lemma distinct_map_filter:
  assumes "distinct (map h xs)" and "\<And>x y. x \<in> set xs \<Longrightarrow> f x = Some y \<Longrightarrow> g y = h x"
  shows "distinct (map g (List.map_filter f xs))"
proof -
  have "set (map g (List.map_filter f xs)) \<subseteq> set (map h xs) \<and> distinct (map g (List.map_filter f xs))"
    using assms
  proof (induction xs)
    case (Cons x xs)
    then have "set (map g (List.map_filter f xs)) \<subseteq> set (map h xs) \<and> distinct (map g (List.map_filter f xs))"
      by simp
    moreover have "g y = h x" if "f x = Some y" for y using Cons.prems(2) that by simp
    ultimately show ?case using Cons.prems(1) by (cases "f x") (auto simp: map_filter_simps image_subset_iff)
  qed (simp add: map_filter_simps)
  then show ?thesis ..
qed

lemma fold_keeps: "(\<And>x s. f (g x s) = f s) \<Longrightarrow> f (fold g xs s) = f s"
  by (induction xs arbitrary: s) simp_all

end
