(* ===== verification/Programs.thy ===== *)
theory Programs
  imports Prelude
begin

text \<open>
  Use cases as programs over a shared store. An asynchronous use case is a sequence of calls on
  a port; the store holds its lock for the length of one call, and calls of other requests may
  run between two calls of this one. A program is therefore a tree of atomic store calls:
  \<open>Call u k\<close> replaces the store by \<open>u s\<close> and continues with \<open>k s\<close>. \<open>exec_prog\<close> runs a
  program alone, \<open>pool_step\<close> interleaves any number of them. The locale \<open>rely_guarantee\<close> is the
  proof rule for interleavings: a program is safe when each of its calls keeps the invariant and
  evolves the store, in every store the other programs may have produced meanwhile. The locale
  \<open>ledger\<close> is the rule for one-time permissions: a program may enter an item in a log only when
  one of its own earlier calls took the item, and taken items stay taken, so no item is entered
  twice whatever is interleaved.
\<close>

datatype (dead 's, 'a) prog = Done 'a | Call "'s \<Rightarrow> 's" "'s \<Rightarrow> ('s, 'a) prog"

primrec exec_prog :: "('s, 'a) prog \<Rightarrow> 's \<Rightarrow> 's \<times> 'a" where
  "exec_prog (Done x) = (\<lambda>s. (s, x))"
| "exec_prog (Call u k) = (\<lambda>s. exec_prog (k s) (u s))"

primrec bind_prog :: "('s, 'a) prog \<Rightarrow> ('a \<Rightarrow> ('s, 'b) prog) \<Rightarrow> ('s, 'b) prog" where
  "bind_prog (Done x) f = f x"
| "bind_prog (Call u k) f = Call u (\<lambda>s. bind_prog (k s) f)"

lemma exec_bind_prog: "exec_prog (bind_prog p f) s = (case exec_prog p s of (s', x) \<Rightarrow> exec_prog (f x) s')"
  by (induction p arbitrary: s) simp_all

text \<open>The \<open>?\<close> operator on the result of an awaited call, and the loops over a list.\<close>

definition try_prog :: "('s, 'e + 'b) prog \<Rightarrow> ('b \<Rightarrow> ('s, 'e + 'a) prog) \<Rightarrow> ('s, 'e + 'a) prog" where
  "try_prog p k = bind_prog p (\<lambda>r. case r of Inl e \<Rightarrow> Done (Inl e) | Inr v \<Rightarrow> k v)"

primrec collect_prog :: "('b \<Rightarrow> ('s, 'e + 'a) prog) \<Rightarrow> 'b list \<Rightarrow> ('s, 'e + 'a list) prog" where
  "collect_prog f [] = Done (Inr [])"
| "collect_prog f (x # xs) =
     try_prog (f x) (\<lambda>y. try_prog (collect_prog f xs) (\<lambda>ys. Done (Inr (y # ys))))"

primrec fold_prog :: "('a \<Rightarrow> 'b \<Rightarrow> ('s, 'e + 'a) prog) \<Rightarrow> 'a \<Rightarrow> 'b list \<Rightarrow> ('s, 'e + 'a) prog" where
  "fold_prog f acc [] = Done (Inr acc)"
| "fold_prog f acc (x # xs) = try_prog (f acc x) (\<lambda>acc'. fold_prog f acc' xs)"

lemma try_prog_simps [simp]:
  "try_prog (Done (Inl e)) k = Done (Inl e)"
  "try_prog (Done (Inr v)) k = k v"
  "try_prog (Call u c) k = Call u (\<lambda>s. try_prog (c s) k)"
  by (simp_all add: try_prog_def)

lemma exec_try_prog:
  "exec_prog (try_prog p k) s =
     (case exec_prog p s of (s', Inl e) \<Rightarrow> (s', Inl e) | (s', Inr v) \<Rightarrow> exec_prog (k v) s')"
  by (simp add: try_prog_def exec_bind_prog split: prod.split sum.split)

lemma exec_try_prog_Inr:
  "exec_prog (try_prog p k) s = (t, Inr y) \<longleftrightarrow>
     (\<exists>s1 v. exec_prog p s = (s1, Inr v) \<and> exec_prog (k v) s1 = (t, Inr y))"
  by (auto simp: exec_try_prog split: prod.splits sum.splits)

lemma collect_Inr:
  assumes "exec_prog (collect_prog f xs) w = (w', Inr ys)"
  shows "list_all2 (\<lambda>x y. \<exists>v v'. exec_prog (f x) v = (v', Inr y)) xs ys"
  using assms
proof (induction xs arbitrary: w ys)
  case (Cons x xs)
  then show ?case by (fastforce simp: exec_try_prog split: prod.splits sum.splits)
qed simp

inductive pool_step ::
  "('r \<Rightarrow> ('s, 'a) prog) \<Rightarrow> 's \<times> ('s, 'a) prog list \<Rightarrow> 's \<times> ('s, 'a) prog list \<Rightarrow> bool"
  for serve where
  spawn: "pool_step serve (s, ps) (s, ps @ [serve req])"
| call: "i < length ps \<Longrightarrow> ps ! i = Call u k \<Longrightarrow> pool_step serve (s, ps) (u s, ps[i := k s])"

inductive safe :: "('s \<Rightarrow> bool) \<Rightarrow> ('s \<Rightarrow> 's \<Rightarrow> bool) \<Rightarrow> 's \<Rightarrow> ('s, 'a) prog \<Rightarrow> bool"
  for I evolves where
  safe_Done: "safe I evolves s (Done x)"
| safe_Call: "(\<And>s'. evolves s s' \<Longrightarrow> I s' \<Longrightarrow>
      I (u s') \<and> evolves s' (u s') \<and> safe I evolves (u s') (k s')) \<Longrightarrow>
    safe I evolves s (Call u k)"

inductive_cases safe_CallE: "safe I evolves s (Call u k)"

lemma safe_map:
  assumes "safe I evolves s p"
  shows "safe I evolves s (map_prog f p)"
  using assms
proof (induction rule: safe.induct)
  case (safe_Call s u k)
  then show ?case by (auto intro!: safe.safe_Call)
qed (simp add: safe.safe_Done)

locale rely_guarantee =
  fixes I :: "'s \<Rightarrow> bool" and evolves :: "'s \<Rightarrow> 's \<Rightarrow> bool"
  assumes evolves_refl: "evolves s s"
    and evolves_trans: "evolves s t \<Longrightarrow> evolves t u \<Longrightarrow> evolves s u"
begin

lemma safe_mono:
  assumes "safe I evolves s p" and "evolves s t"
  shows "safe I evolves t p"
  using assms
proof (cases p)
  case (Call u k)
  with assms show ?thesis
    by (auto intro!: safe_Call elim!: safe_CallE dest: evolves_trans)
qed (simp add: safe_Done)

lemma safe_exec:
  assumes "safe I evolves s p" and "I s"
  shows "I (fst (exec_prog p s)) \<and> evolves s (fst (exec_prog p s))"
  using assms
proof (induction p arbitrary: s rule: prog.induct)
  case (Call u k)
  then have "I (u s) \<and> evolves s (u s) \<and> safe I evolves (u s) (k s)"
    by (blast elim: safe_CallE intro: evolves_refl)
  with Call.IH [of "k s" "u s"] evolves_trans show ?case by auto
qed (simp add: evolves_refl)

lemma pool_step_safe:
  assumes step: "pool_step serve (s, ps) (t, qs)"
    and serve: "\<And>s req. safe I evolves s (serve req)"
    and "I s" and ps: "\<forall>p \<in> set ps. safe I evolves s p"
  shows "I t \<and> evolves s t \<and> (\<forall>p \<in> set qs. safe I evolves t p)"
  using step
proof cases
  case (spawn req)
  then show ?thesis using assms evolves_refl by auto
next
  case (call i u k)
  then have "safe I evolves s (Call u k)"
    using ps by (metis nth_mem)
  then have *: "I (u s) \<and> evolves s (u s) \<and> safe I evolves (u s) (k s)"
    using \<open>I s\<close> by (blast elim: safe_CallE intro: evolves_refl)
  moreover have "safe I evolves (u s) p" if "p \<in> set qs" for p
  proof -
    from that call have "p \<in> insert (k s) (set ps)"
      using set_update_subset_insert by fast
    with * ps safe_mono show ?thesis by blast
  qed
  ultimately show ?thesis using call by simp
qed

lemma pool_steps_safe:
  assumes "(pool_step serve)\<^sup>*\<^sup>* (s, ps) (t, qs)"
    and "\<And>s req. safe I evolves s (serve req)"
    and "I s" and "\<forall>p \<in> set ps. safe I evolves s p"
  shows "I t \<and> evolves s t \<and> (\<forall>p \<in> set qs. safe I evolves t p)"
  using assms(1)
proof (induction rule: rtranclp_induct2)
  case refl
  then show ?case using assms evolves_refl by blast
next
  case (step t qs t' qs')
  from pool_step_safe [OF step.hyps(2) assms(2)] step.IH evolves_trans show ?case by blast
qed

end

section \<open>One-time permissions\<close>

text \<open>Programs interleaved with each other and with an environment that acts on the store.\<close>

inductive open_step ::
  "('r \<Rightarrow> ('s, 'a) prog) \<Rightarrow> ('s \<Rightarrow> 's \<Rightarrow> bool) \<Rightarrow>
   's \<times> ('s, 'a) prog list \<Rightarrow> 's \<times> ('s, 'a) prog list \<Rightarrow> bool"
  for serve env where
  served: "pool_step serve c c' \<Longrightarrow> open_step serve env c c'"
| environment: "env s s' \<Longrightarrow> open_step serve env (s, ps) (s', ps)"

lemma open_exec:
  "(open_step sv env)\<^sup>*\<^sup>* (s, ps @ [p]) (fst (exec_prog p s), ps @ [Done (snd (exec_prog p s))])"
proof (induction p arbitrary: s rule: prog.induct)
  case (Call u k)
  have "open_step sv env (s, ps @ [Call u k]) (u s, (ps @ [Call u k])[length ps := k s])"
    by (rule open_step.served, rule pool_step.call) simp_all
  then have "open_step sv env (s, ps @ [Call u k]) (u s, ps @ [k s])" by simp
  from converse_rtranclp_into_rtranclp [of "open_step sv env", OF this] Call.IH [of "k s" "u s"]
  show ?case by simp
qed simp

lemma open_serve:
  "exec_prog (sv req) s = (t, x) \<Longrightarrow> (open_step sv env)\<^sup>*\<^sup>* (s, ps) (t, ps @ [Done x])"
  using converse_rtranclp_into_rtranclp [of "open_step sv env", OF open_step.served [OF pool_step.spawn]
      open_exec [of sv env s ps "sv req"]] by simp

text \<open>
  \<open>permitted S p\<close>: the program \<open>p\<close> owns the items \<open>S\<close>. A call either leaves the log alone, and then
  the program also owns what the call has taken, or enters one owned item, which it then gives up.
\<close>

inductive permitted ::
  "('s \<Rightarrow> bool) \<Rightarrow> ('s \<Rightarrow> 'p set) \<Rightarrow> ('s \<Rightarrow> 'p list) \<Rightarrow> 'p set \<Rightarrow> ('s, 'a) prog \<Rightarrow> bool"
  for I taken log where
  permitted_Done: "permitted I taken log S (Done x)"
| permitted_Call: "(\<And>s. I s \<Longrightarrow> I (u s) \<and> taken s \<subseteq> taken (u s) \<and>
      (\<exists>S'. (log (u s) = log s \<and> S' \<subseteq> S \<union> (taken (u s) - taken s) \<or>
             (\<exists>x \<in> S. log (u s) = log s @ [x] \<and> S' \<subseteq> S - {x})) \<and>
            permitted I taken log S' (k s))) \<Longrightarrow>
    permitted I taken log S (Call u k)"

inductive_cases permitted_CallE: "permitted I taken log S (Call u k)"

lemma permitted_mono:
  assumes "permitted I taken log S p" "S \<subseteq> T"
  shows "permitted I taken log T p"
  using assms
proof (induction arbitrary: T rule: permitted.induct)
  case (permitted_Call u S k)
  show ?case
  proof (rule permitted.permitted_Call)
    fix s assume s: "I s"
    from permitted_Call.IH [OF s] obtain S' where *: "I (u s)" "taken s \<subseteq> taken (u s)"
        "permitted I taken log S' (k s)"
        "log (u s) = log s \<and> S' \<subseteq> S \<union> (taken (u s) - taken s) \<or>
         (\<exists>x \<in> S. log (u s) = log s @ [x] \<and> S' \<subseteq> S - {x})" by blast
    moreover from *(4) permitted_Call.prems
    have "log (u s) = log s \<and> S' \<subseteq> T \<union> (taken (u s) - taken s) \<or>
        (\<exists>x \<in> T. log (u s) = log s @ [x] \<and> S' \<subseteq> T - {x})" by blast
    ultimately show "I (u s) \<and> taken s \<subseteq> taken (u s) \<and>
        (\<exists>S'. (log (u s) = log s \<and> S' \<subseteq> T \<union> (taken (u s) - taken s) \<or>
             (\<exists>x \<in> T. log (u s) = log s @ [x] \<and> S' \<subseteq> T - {x})) \<and> permitted I taken log S' (k s))"
      by blast
  qed
qed (simp add: permitted_Done)

lemma permitted_bind:
  assumes "permitted I taken log S p" and "\<And>x. permitted I taken log {} (f x)"
  shows "permitted I taken log S (bind_prog p f)"
  using assms(1)
proof (induction rule: permitted.induct)
  case (permitted_Call u S k)
  then show ?case unfolding bind_prog.simps by (intro permitted.permitted_Call) blast
qed (simp add: permitted_mono [OF assms(2)])

lemma permitted_map:
  assumes "permitted I taken log S p"
  shows "permitted I taken log S (map_prog f p)"
proof -
  have "map_prog f p = bind_prog p (\<lambda>x. Done (f x))" by (induction p) (simp_all add: fun_eq_iff)
  moreover have "permitted I taken log S (bind_prog p (\<lambda>x. Done (f x)))"
    by (rule permitted_bind [OF assms permitted_Done])
  ultimately show ?thesis by simp
qed

lemma permitted_try:
  assumes "permitted I taken log S p" and "\<And>v. permitted I taken log {} (k v)"
  shows "permitted I taken log S (try_prog p k)"
  unfolding try_prog_def by (rule permitted_bind [OF assms(1)]) (auto split: sum.split intro: assms(2) permitted_Done)

lemma permitted_collect:
  assumes "\<And>x. permitted I taken log {} (f x)"
  shows "permitted I taken log {} (collect_prog f xs)"
  by (induction xs) (auto intro!: permitted_Done permitted_try assms)

lemma permitted_fold:
  assumes "\<And>acc x. permitted I taken log {} (f acc x)"
  shows "permitted I taken log {} (fold_prog f acc xs)"
  by (induction xs arbitrary: acc) (auto intro!: permitted_Done permitted_try assms)

text \<open>The books of a pool: owned items are taken, not yet in the log, and owned by one program only.\<close>

definition accounted ::
  "('s \<Rightarrow> bool) \<Rightarrow> ('s \<Rightarrow> 'p set) \<Rightarrow> ('s \<Rightarrow> 'p list) \<Rightarrow> 's \<Rightarrow> ('s, 'a) prog list \<Rightarrow> 'p set list \<Rightarrow> bool" where
  "accounted I taken log s ps Ss \<longleftrightarrow> I s \<and> distinct (log s) \<and> set (log s) \<subseteq> taken s \<and> length Ss = length ps \<and>
     (\<forall>i < length ps. permitted I taken log (Ss ! i) (ps ! i) \<and> Ss ! i \<subseteq> taken s - set (log s)) \<and>
     (\<forall>i < length ps. \<forall>j < length ps. i \<noteq> j \<longrightarrow> Ss ! i \<inter> Ss ! j = {})"

lemma accounted_call:
  assumes acc: "accounted I taken log s ps Ss" and i: "i < length ps" "ps ! i = Call u k"
  shows "\<exists>Ss'. accounted I taken log (u s) (ps[i := k s]) Ss'"
proof -
  from acc have s: "I s" "distinct (log s)" "set (log s) \<subseteq> taken s" and len: "length Ss = length ps"
    and own: "\<And>j. j < length ps \<Longrightarrow> permitted I taken log (Ss ! j) (ps ! j)"
      "\<And>j. j < length ps \<Longrightarrow> Ss ! j \<subseteq> taken s - set (log s)"
    and apart: "\<And>j l. j < length ps \<Longrightarrow> l < length ps \<Longrightarrow> j \<noteq> l \<Longrightarrow> Ss ! j \<inter> Ss ! l = {}"
    unfolding accounted_def by blast+
  from own(1) [OF i(1)] i(2) s(1) obtain S' where u: "I (u s)" "taken s \<subseteq> taken (u s)"
      "permitted I taken log S' (k s)"
    and move: "log (u s) = log s \<and> S' \<subseteq> Ss ! i \<union> (taken (u s) - taken s) \<or>
      (\<exists>x \<in> Ss ! i. log (u s) = log s @ [x] \<and> S' \<subseteq> Ss ! i - {x})"
    by (auto elim!: permitted_CallE)
  have "distinct (log (u s))" using move s(2) own(2) [OF i(1)] by auto
  moreover have "set (log (u s)) \<subseteq> taken (u s)"
    using move s(3) u(2) own(2) [OF i(1)] by (elim disjE bexE conjE) (simp_all, blast+)
  moreover have "S' \<subseteq> taken (u s) - set (log (u s))"
    using move s(3) u(2) own(2) [OF i(1)] by (elim disjE bexE conjE) (simp_all, blast+)
  moreover have "Ss ! j \<subseteq> taken (u s) - set (log (u s))" "Ss ! j \<inter> S' = {}" if "j < length ps" "j \<noteq> i" for j
    using move u(2) own(2) [OF that(1)] apart [OF that(1) i(1) that(2)]
    by (elim disjE bexE conjE; simp; blast)+
  ultimately have "accounted I taken log (u s) (ps[i := k s]) (Ss[i := S'])"
    using u(1,3) len own(1) apart i(1) unfolding accounted_def
    by (intro conjI allI impI) (simp_all add: nth_list_update Int_commute)
  then show ?thesis by blast
qed

lemma accounted_spawn:
  assumes "accounted I taken log s ps Ss" "permitted I taken log {} p"
  shows "accounted I taken log s (ps @ [p]) (Ss @ [{}])"
  using assms unfolding accounted_def by (auto simp: nth_append less_Suc_eq)

locale ledger =
  fixes I :: "'s \<Rightarrow> bool" and taken :: "'s \<Rightarrow> 'p set" and log :: "'s \<Rightarrow> 'p list"
    and env :: "'s \<Rightarrow> 's \<Rightarrow> bool"
  assumes env_keeps: "env s s' \<Longrightarrow> I s \<Longrightarrow> I s' \<and> taken s \<subseteq> taken s' \<and> log s' = log s"
begin

lemma env_accounted:
  assumes "env s s'" and acc: "accounted I taken log s ps Ss"
  shows "accounted I taken log s' ps Ss"
proof -
  have s: "I s" using acc unfolding accounted_def by blast
  have *: "I s'" "taken s \<subseteq> taken s'" "log s' = log s" using env_keeps [OF assms(1) s] by blast+
  show ?thesis using acc *(1,2) unfolding accounted_def *(3) by blast
qed

lemma open_steps_accounted:
  assumes "(open_step serve env)\<^sup>*\<^sup>* (s, ps) (t, qs)"
    and serve: "\<And>req. permitted I taken log {} (serve req)"
    and start: "\<exists>Ss. accounted I taken log s ps Ss"
  shows "\<exists>Ss. accounted I taken log t qs Ss"
  using assms(1)
proof (induction rule: rtranclp_induct2)
  case (step t qs t' qs')
  then obtain Ss where acc: "accounted I taken log t qs Ss" by blast
  from step.hyps(2) show ?case
  proof cases
    case served
    then show ?thesis
    proof cases
      case (spawn req)
      with accounted_spawn [OF acc serve] show ?thesis by blast
    next
      case (call i u k)
      with accounted_call [OF acc] show ?thesis by simp
    qed
  qed (use acc env_accounted in blast)
qed (rule start)

lemma entered_once:
  assumes "(open_step serve env)\<^sup>*\<^sup>* (s, []) (t, qs)"
    and "\<And>req. permitted I taken log {} (serve req)"
    and "I s" "log s = []"
  shows "I t \<and> distinct (log t) \<and> set (log t) \<subseteq> taken t"
proof -
  have "accounted I taken log s [] []" using assms(3,4) by (simp add: accounted_def)
  with open_steps_accounted [OF assms(1,2)] show ?thesis unfolding accounted_def by blast
qed

end

end
