(* ===== verification/Encodings.thy ===== *)
theory Encodings
  imports Prelude
begin

text \<open>
  Byte and decimal encodings of the standard library that the code feeds to hashes and parsers:
  UTF-8, big-endian integers and decimal rendering, each with its injectivity. The decoder
  \<open>utf8_take\<close> is the reference the UTF-8 encoder is inverted by.
\<close>

section \<open>UTF-8\<close>

text \<open>Code points stay below \<open>0x110000\<close>.\<close>

definition str_valid :: "rstr \<Rightarrow> bool" where
  "str_valid s \<longleftrightarrow> list_all (\<lambda>c. c < 1114112) s"

definition utf8_nats :: "rchar \<Rightarrow> nat list" where
  "utf8_nats c =
     (if c < 128 then [c]
      else if c < 2048 then [192 + c div 64, 128 + c mod 64]
      else if c < 65536 then [224 + c div 4096, 128 + c div 64 mod 64, 128 + c mod 64]
      else [240 + c div 262144, 128 + c div 4096 mod 64, 128 + c div 64 mod 64, 128 + c mod 64])"

lemma unat_byte: "n < 256 \<Longrightarrow> unat (of_nat n :: u8) = n"
  by (simp add: unat_of_nat)

lemma utf8_encode_nats: "c < 1114112 \<Longrightarrow> map unat (utf8_encode c) = utf8_nats c"
proof -
  assume c: "c < 1114112"
  have "c div 64 mod 64 < 64" "c mod 64 < 64" "c div 4096 mod 64 < 64" by simp_all
  moreover have "c < 2048 \<Longrightarrow> c div 64 < 32" "c < 65536 \<Longrightarrow> c div 4096 < 16" "c div 262144 < 5"
    using c by (simp_all add: less_mult_imp_div_less)
  ultimately show ?thesis
    unfolding utf8_encode_def utf8_nats_def
    by (simp add: unat_byte del: of_nat_add)
qed

definition utf8_take :: "nat list \<Rightarrow> nat \<times> nat list" where
  "utf8_take bs =
     (if bs ! 0 < 128 then (bs ! 0, drop 1 bs)
      else if bs ! 0 < 224 then (64 * (bs ! 0 - 192) + (bs ! 1 - 128), drop 2 bs)
      else if bs ! 0 < 240 then
        (64 * (64 * (bs ! 0 - 224) + (bs ! 1 - 128)) + (bs ! 2 - 128), drop 3 bs)
      else (64 * (64 * (64 * (bs ! 0 - 240) + (bs ! 1 - 128)) + (bs ! 2 - 128)) + (bs ! 3 - 128),
            drop 4 bs))"

lemma utf8_take_nats:
  assumes "c < 1114112"
  shows "utf8_take (utf8_nats c @ xs) = (c, xs)"
proof -
  have b: "c < 2048 \<Longrightarrow> c div 64 < 32" "c < 65536 \<Longrightarrow> c div 4096 < 16" 
    by (simp_all add: less_mult_imp_div_less)
  have e: "c div 64 div 64 = c div 4096" "c div 4096 div 64 = c div 262144"
    by (simp_all flip: div_mult2_eq)
  have four: "64 * (c div 4096) + c div 64 mod 64 = c div 64"
    by (rule mult_div_mod_eq [of 64 "c div 64", unfolded e(1)])
  have six: "64 * (c div 262144) + c div 4096 mod 64 = c div 4096"
    by (rule mult_div_mod_eq [of 64 "c div 4096", unfolded e(2)])
  consider "c < 128" | "128 \<le> c" "c < 2048" | "2048 \<le> c" "c < 65536" | "65536 \<le> c"
    by linarith
  then show ?thesis
  proof cases
    case 1
    then show ?thesis by (simp add: utf8_take_def utf8_nats_def)
  next
    case 2
    with b(1) show ?thesis by (simp add: utf8_take_def utf8_nats_def)
  next
    case 3
    with b(2) show ?thesis by (simp add: utf8_take_def utf8_nats_def four)
  next
    case 4
    then show ?thesis by (simp add: utf8_take_def utf8_nats_def four six)
  qed
qed

lemma utf8_encode_prefix:
  assumes "c < 1114112" "d < 1114112" "utf8_encode c @ xs = utf8_encode d @ ys"
  shows "c = d \<and> xs = ys"
proof -
  have "utf8_take (utf8_nats c @ map unat xs) = utf8_take (utf8_nats d @ map unat ys)"
    using arg_cong [OF assms(3), of "\<lambda>bs. utf8_take (map unat bs)"]
    by (simp add: utf8_encode_nats [OF assms(1)] utf8_encode_nats [OF assms(2)])
  then have "c = d" using utf8_take_nats assms(1,2) by simp
  with assms(3) show ?thesis by simp
qed

lemma utf8_encode_neq_Nil: "utf8_encode c \<noteq> []"
  by (simp add: utf8_encode_def)

lemma str_bytes_inj:
  "str_valid s \<Longrightarrow> str_valid t \<Longrightarrow> str_bytes s = str_bytes t \<Longrightarrow> s = t"
proof (induction s arbitrary: t)
  case Nil
  then show ?case by (cases t) (simp_all add: str_bytes_def utf8_encode_neq_Nil)
next
  case (Cons c s)
  from Cons.prems(3) obtain d t' where t: "t = d # t'"
    by (cases t) (simp_all add: str_bytes_def utf8_encode_neq_Nil)
  have "c = d \<and> str_bytes s = str_bytes t'"
    using Cons.prems t by (intro utf8_encode_prefix) (simp_all add: str_bytes_def str_valid_def)
  with Cons.IH [of t'] Cons.prems t show ?case by (simp add: str_valid_def)
qed

section \<open>Integers\<close>

text \<open>\<open>u64::to_be_bytes\<close> and \<open>u64::to_string\<close>.\<close>

definition u64_to_be_bytes :: "u64 \<Rightarrow> u8 list" where
  "u64_to_be_bytes w = map (\<lambda>i. ucast (drop_bit (8 * i) w)) [7, 6, 5, 4, 3, 2, 1, 0]"

fun nat_to_dec :: "nat \<Rightarrow> rstr" where
  "nat_to_dec n = (if n < 10 then [48 + n] else nat_to_dec (n div 10) @ [48 + n mod 10])"

declare nat_to_dec.simps [simp del]

definition u64_to_string :: "u64 \<Rightarrow> rstr" where
  "u64_to_string w = nat_to_dec (unat w)"

definition u64_of_usize :: "nat \<Rightarrow> u64" where
  "u64_of_usize n = (if n < 2 ^ 64 then of_nat n else - 1)"

lemma bit_be_byte:
  "n < 64 \<Longrightarrow> bit (w :: u64) n = bit (ucast (drop_bit (8 * (n div 8)) w) :: u8) (n mod 8)"
  by (simp add: bit_ucast_iff bit_drop_bit_eq)

lemma u64_to_be_bytes_inj: "u64_to_be_bytes v = u64_to_be_bytes w \<Longrightarrow> v = w"
proof (rule bit_word_eqI)
  fix n
  assume eq: "u64_to_be_bytes v = u64_to_be_bytes w" and "n < LENGTH(64)"
  then have n: "n < 64" by simp
  then have "n div 8 \<in> set [7, 6, 5, 4, 3, 2, 1, 0]" by auto
  with eq have "ucast (drop_bit (8 * (n div 8)) v) = (ucast (drop_bit (8 * (n div 8)) w) :: u8)"
    unfolding u64_to_be_bytes_def by (simp only: map_eq_conv)
  then show "bit v n = bit w n" using bit_be_byte [OF n] by metis
qed

lemma length_u64_to_be_bytes [simp]: "length (u64_to_be_bytes w) = 8"
  by (simp add: u64_to_be_bytes_def)

lemma unat_u64_of_usize: "n < 2 ^ 64 \<Longrightarrow> unat (u64_of_usize n) = n"
  by (simp add: u64_of_usize_def unat_of_nat)

lemma u64_of_usize_inj:
  assumes "m < 2 ^ 64" "n < 2 ^ 64" "u64_of_usize m = u64_of_usize n"
  shows "m = n"
  using arg_cong [OF assms(3), of unat] by (simp only: unat_u64_of_usize assms(1,2))

lemma nat_to_dec_neq_Nil: "nat_to_dec n \<noteq> []"
  by (subst nat_to_dec.simps) simp

lemma nat_to_dec_inj: "nat_to_dec m = nat_to_dec n \<Longrightarrow> m = n"
proof (induction m arbitrary: n rule: nat_to_dec.induct)
  case (1 m)
  show ?case
  proof (cases "m < 10")
    case True
    with "1.prems" show ?thesis
      by (cases "n < 10") (simp_all add: nat_to_dec.simps [of m] nat_to_dec.simps [of n]
            nat_to_dec_neq_Nil [symmetric])
  next
    case False
    with "1.prems" have n: "\<not> n < 10"
      by (auto simp: nat_to_dec.simps [of m] nat_to_dec.simps [of n] nat_to_dec_neq_Nil)
    with False "1.prems" have "nat_to_dec (m div 10) = nat_to_dec (n div 10)" "m mod 10 = n mod 10"
      by (simp_all add: nat_to_dec.simps [of m] nat_to_dec.simps [of n])
    with "1.IH" [OF False] have "m div 10 = n div 10" "m mod 10 = n mod 10" by simp_all
    then show ?thesis by (metis div_mult_mod_eq)
  qed
qed

lemma u64_to_string_inj: "u64_to_string v = u64_to_string w \<longleftrightarrow> v = w"
  by (auto simp: u64_to_string_def word_unat_eq_iff dest!: nat_to_dec_inj)

lemma nat_to_dec_ascii: "c \<in> set (nat_to_dec n) \<Longrightarrow> 48 \<le> c \<and> c \<le> 57"
proof (induction n rule: nat_to_dec.induct)
  case (1 n)
  then show ?case
    by (cases "n < 10") (auto simp: nat_to_dec.simps [of n])
qed

lemma length_nat_to_dec: "length (nat_to_dec n) \<le> max 1 n"
proof (induction n rule: nat_to_dec.induct)
  case (1 n)
  show ?case
  proof (cases "n < 10")
    case False
    then have "max 1 (n div 10) + 1 \<le> n" by linarith
    with "1.IH" [OF False] False show ?thesis by (simp add: nat_to_dec.simps [of n])
  qed (simp add: nat_to_dec.simps [of n])
qed

lemma u64_to_string_valid: "str_valid (u64_to_string w)"
  using nat_to_dec_ascii by (fastforce simp: str_valid_def u64_to_string_def list_all_iff)

lemma u64_to_string_len: "str_len (u64_to_string w) < 2 ^ 64"
proof -
  have "str_len (u64_to_string w) = length (nat_to_dec (unat w))"
    using nat_to_dec_ascii by (fastforce simp: u64_to_string_def intro: str_len_ascii)
  moreover have "unat w < 2 ^ 64" using unsigned_less [of w, where 'a = nat] by simp
  ultimately show ?thesis using length_nat_to_dec [of "unat w"] by simp
qed

end
