(* ===== verification/Aggregates.thy ===== *)
theory Aggregates
  imports Prelude
begin

text \<open>
  The contracts shared by the durable aggregates of the daemon (runs, effects, privileged
  operations, conversation turns, scheduled occurrences): every mutation advances an optimistic
  revision and a clock and keeps the identity; lifecycles follow a closed edge relation whose
  terminal states are final; everything the aggregate's own operations produce passes the
  check that rehydrates persisted rows. Each contract is a locale, and the component theories
  interpret it on the definitions translated from the code.
\<close>

section \<open>Revisioned aggregates\<close>

text \<open>A step that moved the revision, which every optimistic commit requires.\<close>

definition advances :: "('a \<Rightarrow> 'a \<Rightarrow> bool) \<Rightarrow> ('a \<Rightarrow> u64) \<Rightarrow> 'a \<Rightarrow> 'a \<Rightarrow> bool" where
  "advances step revision x y \<longleftrightarrow> step x y \<and> revision x \<noteq> - 1"

locale revisioned =
  fixes step :: "'a \<Rightarrow> 'a \<Rightarrow> bool"
    and revision :: "'a \<Rightarrow> u64"
    and updated_at :: "'a \<Rightarrow> unix_millis"
    and ident :: "'a \<Rightarrow> 'i"
  assumes step_revision: "step x y \<Longrightarrow> revision y = sat_succ (revision x)"
    and step_updated_at: "step x y \<Longrightarrow> updated_at x \<le> updated_at y"
    and step_ident: "step x y \<Longrightarrow> ident y = ident x"
begin

lemma steps_ident: "step\<^sup>*\<^sup>* x y \<Longrightarrow> ident y = ident x"
  by (induction rule: rtranclp_induct) (auto dest: step_ident)

lemma steps_updated_at: "step\<^sup>*\<^sup>* x y \<Longrightarrow> updated_at x \<le> updated_at y"
  by (induction rule: rtranclp_induct) (auto dest: step_updated_at)

lemma steps_revision_mono: "step\<^sup>*\<^sup>* x y \<Longrightarrow> revision x \<le> revision y"
proof (induction rule: rtranclp_induct)
  case (step y z)
  then have "revision y \<le> revision z"
    using step_revision sat_succ_ge by simp
  with step.IH show ?case by (rule order_trans)
qed simp

text \<open>The revision counts the mutations, until it saturates.\<close>

lemma relpow_revision: "(step ^^ n) x y \<Longrightarrow> unat (revision y) = min (unat (revision x) + n) (2 ^ 64 - 1)"
proof (induction n arbitrary: y)
  case 0
  then show ?case using unsigned_less [of "revision x", where 'a = nat] by auto
next
  case (Suc n)
  then obtain z where z: "(step ^^ n) x z" "step z y" by auto
  from Suc.IH [OF z(1)] step_revision [OF z(2)] show ?case
    by (simp add: unat_sat_succ)
qed

text \<open>
  Optimistic concurrency: below saturation, a revision identifies one point of the history, so
  a writer that observed an earlier revision can never pass a comparison made after a mutation.
\<close>

lemma trancl_revision_less:
  assumes "step\<^sup>+\<^sup>+ x y" and "revision x \<noteq> - 1"
  shows "revision x < revision y"
proof -
  from assms(1) obtain z where z: "step x z" "step\<^sup>*\<^sup>* z y"
    by (meson tranclpD)
  have "revision x < revision z"
    using step_revision [OF z(1)] sat_succ_gt [OF assms(2)] by simp
  also have "\<dots> \<le> revision y" using z(2) by (rule steps_revision_mono)
  finally show ?thesis .
qed

lemma stale_revision:
  assumes "step\<^sup>+\<^sup>+ x y" and "revision x \<noteq> - 1"
  shows "revision y \<noteq> revision x"
  using trancl_revision_less [OF assms] by auto

lemma advances_steps: "(advances step revision)\<^sup>*\<^sup>* x y \<Longrightarrow> step\<^sup>*\<^sup>* x y"
  by (induction rule: rtranclp_induct)
     (auto simp: advances_def intro: rtranclp.rtrancl_into_rtrancl)

text \<open>A revision identifies one value of the history: there is no ABA.\<close>

lemma advances_same_revision:
  assumes "(advances step revision)\<^sup>*\<^sup>* x y" and "revision y = revision x"
  shows "y = x"
  using assms(1)
proof (cases rule: converse_rtranclpE)
  case (step z)
  then have "revision x < revision z"
    using step_revision [of x z] sat_succ_gt [of "revision x"] by (simp add: advances_def)
  also have "\<dots> \<le> revision y"
    using step(2) by (blast intro: steps_revision_mono advances_steps)
  finally show ?thesis using assms(2) by simp
qed simp

lemma advances_commit:
  assumes "step x y" and "revision y = revision x + 1"
  shows "advances step revision x y"
proof -
  have "revision x \<noteq> - 1"
    using assms step_revision [OF assms(1)] by (auto simp: sat_succ_eq)
  with assms(1) show ?thesis by (simp add: advances_def)
qed

end

section \<open>Lifecycles\<close>

locale lifecycle = revisioned step revision updated_at ident
  for step :: "'a \<Rightarrow> 'a \<Rightarrow> bool" and revision :: "'a \<Rightarrow> u64"
    and updated_at :: "'a \<Rightarrow> unix_millis" and ident :: "'a \<Rightarrow> 'i" +
  fixes state :: "'a \<Rightarrow> 's"
    and permits :: "'s \<Rightarrow> 's \<Rightarrow> bool"
    and terminal :: "'s \<Rightarrow> bool"
  assumes step_permits: "step x y \<Longrightarrow> permits (state x) (state y)"
    and terminal_final: "terminal s \<Longrightarrow> \<not> permits s t"
begin

lemma terminal_no_step: "terminal (state x) \<Longrightarrow> \<not> step x y"
  using step_permits terminal_final by blast

lemma terminal_steps: "step\<^sup>*\<^sup>* x y \<Longrightarrow> terminal (state x) \<Longrightarrow> y = x"
  by (erule converse_rtranclpE) (auto simp: terminal_no_step)

lemma steps_permits: "step\<^sup>*\<^sup>* x y \<Longrightarrow> permits\<^sup>*\<^sup>* (state x) (state y)"
proof (induction rule: rtranclp_induct)
  case (step y z)
  then show ?case by (auto dest: step_permits intro: rtranclp.rtrancl_into_rtrancl)
qed simp

end

section \<open>Restorable snapshots\<close>

text \<open>
  \<open>init\<close> and \<open>step\<close> are what the aggregate's own constructors and operations produce;
  \<open>accepted\<close> is the predicate that \<open>restore\<close> checks on a persisted row.
\<close>

locale restorable =
  fixes init :: "'a \<Rightarrow> bool"
    and step :: "'a \<Rightarrow> 'a \<Rightarrow> bool"
    and accepted :: "'a \<Rightarrow> bool"
  assumes init_accepted: "init x \<Longrightarrow> accepted x"
    and step_accepted: "accepted x \<Longrightarrow> step x y \<Longrightarrow> accepted y"
begin

lemma steps_accepted: "step\<^sup>*\<^sup>* x y \<Longrightarrow> accepted x \<Longrightarrow> accepted y"
  by (induction rule: rtranclp_induct) (auto dest: step_accepted)

lemma reachable_accepted: "init x \<Longrightarrow> step\<^sup>*\<^sup>* x y \<Longrightarrow> accepted y"
  using init_accepted steps_accepted by blast

end

text \<open>
  Every non-zero revision is reached by that many edits: \<open>f r\<close> is the aggregate at revision \<open>r\<close>.
\<close>

lemma revision_chain:
  fixes f :: "u64 \<Rightarrow> 'a"
  assumes first: "R x (f 1)" and edit: "\<And>r. r \<noteq> 0 \<Longrightarrow> r \<noteq> - 1 \<Longrightarrow> R (f r) (f (r + 1))"
    and "r \<noteq> 0"
  shows "R\<^sup>*\<^sup>* x (f r)"
proof -
  have "n < 2 ^ 64 - 1 \<Longrightarrow> R\<^sup>*\<^sup>* x (f (of_nat (Suc n)))" for n
  proof (induction n)
    case 0
    then show ?case using first by simp
  next
    case (Suc n)
    have "unat (of_nat (Suc n) :: u64) = Suc n"
      unfolding unat_of_nat by (rule mod_less) (use Suc.prems in simp)
    moreover have "unat (- 1 :: u64) = 2 ^ 64 - 1"
      using unat_minus_one_word_max [where 'a = 64] by simp
    ultimately have "of_nat (Suc n) \<noteq> (0 :: u64) \<and> of_nat (Suc n) \<noteq> (- 1 :: u64)"
      using Suc.prems by (metis less_irrefl nat.distinct(1) unat_0)
    then have "of_nat (Suc n) \<noteq> (0 :: u64)" "of_nat (Suc n) \<noteq> (- 1 :: u64)" by blast+
    from Suc.IH edit [OF this] show ?case
      using Suc.prems by (simp add: add.commute rtranclp.rtrancl_into_rtrancl)
  qed
  note chain = this
  have r: "Suc (unat r - 1) = unat r" using \<open>r \<noteq> 0\<close> by (metis Suc_pred' neq0_conv One_nat_def unat_eq_zero)
  have "unat r - 1 < 2 ^ 64 - 1"
    using r unsigned_less [of r, where 'a = nat] by (simp del: Suc_pred Suc_pred')
  from chain [OF this, unfolded r] show ?thesis by simp
qed

section \<open>One-shot operations\<close>

text \<open>
  A caller drives an aggregate through a sequence of calls; a call that returns an error leaves
  the aggregate as it is. \<open>call_all\<close> gives the final aggregate and the operations that
  succeeded, in order.
\<close>

fun call_all ::
  "('op \<Rightarrow> 'a \<Rightarrow> 't \<Rightarrow> 'e + 'a) \<Rightarrow> 'a \<Rightarrow> ('op \<times> 't) list \<Rightarrow> 'a \<times> 'op list" where
  "call_all run x [] = (x, [])"
| "call_all run x ((op, now) # calls) =
     (case run op x now of
        Inl _ \<Rightarrow> call_all run x calls
      | Inr y \<Rightarrow> map_prod id ((#) op) (call_all run y calls))"

locale one_shot =
  fixes run :: "'op \<Rightarrow> 'a \<Rightarrow> 't \<Rightarrow> 'e + 'a"
    and critical :: "'op \<Rightarrow> bool"
    and spent :: "'a \<Rightarrow> bool"
  assumes run_spent: "run op x now = Inr y \<Longrightarrow> spent x \<Longrightarrow> spent y"
    and critical_spends: "run op x now = Inr y \<Longrightarrow> critical op \<Longrightarrow> \<not> spent x \<and> spent y"
begin

lemma spent_no_critical: "spent x \<Longrightarrow> filter critical (snd (call_all run x calls)) = []"
proof (induction calls arbitrary: x)
  case (Cons c calls)
  obtain op now where c: "c = (op, now)" by (cases c)
  show ?case
  proof (cases "run op x now")
    case (Inl e)
    with Cons c show ?thesis by simp
  next
    case (Inr y)
    with Cons.prems have "spent y" "\<not> critical op"
      using run_spent critical_spends by blast+
    with Cons.IH [of y] c Inr show ?thesis by simp
  qed
qed simp

lemma critical_at_most_once: "length (filter critical (snd (call_all run x calls))) \<le> 1"
proof (induction calls arbitrary: x)
  case (Cons c calls)
  obtain op now where c: "c = (op, now)" by (cases c)
  show ?case
  proof (cases "run op x now")
    case (Inl e)
    with Cons.IH [of x] c show ?thesis by simp
  next
    case (Inr y)
    with Cons.IH [of y] c spent_no_critical [of y calls] critical_spends [OF Inr] show ?thesis
      by (cases "critical op") simp_all
  qed
qed simp

end

end
