(* ===== verification/Ids.thy ===== *)
theory Ids
  imports Prelude
begin

text \<open>
  Entity identifiers (grok-domain, \<open>id.rs\<close>): one wrapper type per entity over a validated
  string, with the shared validation of the \<open>entity_id!\<close> macro. The derived \<open>Ord\<close> of the
  identifiers is the \<open>linorder\<close> instance used by the stores when they sort.
\<close>

datatype id_error = IdEmpty | IdTooLong | IdControlCharacter

definition id_new :: "rstr \<Rightarrow> id_error + rstr" where
  "id_new value =
     and_then (fail_if (value = []) IdEmpty) (\<lambda>_.
     and_then (fail_if (128 < str_len value) IdTooLong) (\<lambda>_.
     and_then (fail_if (list_ex char_is_control value) IdControlCharacter) (\<lambda>_.
     Inr value)))"

datatype project_id = ProjectId (project_id_str: rstr)
datatype thread_id = ThreadId (thread_id_str: rstr)
datatype run_id = RunId (run_id_str: rstr)
datatype approval_id = ApprovalId (approval_id_str: rstr)
datatype effect_id = EffectId (effect_id_str: rstr)
datatype privileged_operation_id = PrivilegedOperationId (privileged_operation_id_str: rstr)
datatype conversation_turn_id = ConversationTurnId (conversation_turn_id_str: rstr)
datatype message_id = MessageId (message_id_str: rstr)
datatype artifact_id = ArtifactId (artifact_id_str: rstr)
datatype automation_id = AutomationId (automation_id_str: rstr)
datatype automation_occurrence_id = AutomationOccurrenceId (automation_occurrence_id_str: rstr)
datatype automation_scheduler_owner_id =
  AutomationSchedulerOwnerId (automation_scheduler_owner_id_str: rstr)

instantiation run_id :: linorder
begin

definition less_eq_run_id :: "run_id \<Rightarrow> run_id \<Rightarrow> bool" where
  "less_eq_run_id a b \<longleftrightarrow> run_id_str a \<le> run_id_str b"

definition less_run_id :: "run_id \<Rightarrow> run_id \<Rightarrow> bool" where
  "less_run_id a b \<longleftrightarrow> run_id_str a < run_id_str b"

instance
  by standard (auto simp: less_eq_run_id_def less_run_id_def run_id.expand)

end

instantiation effect_id :: linorder
begin

definition less_eq_effect_id :: "effect_id \<Rightarrow> effect_id \<Rightarrow> bool" where
  "less_eq_effect_id a b \<longleftrightarrow> effect_id_str a \<le> effect_id_str b"

definition less_effect_id :: "effect_id \<Rightarrow> effect_id \<Rightarrow> bool" where
  "less_effect_id a b \<longleftrightarrow> effect_id_str a < effect_id_str b"

instance
  by standard (auto simp: less_eq_effect_id_def less_effect_id_def effect_id.expand)

end

instantiation approval_id :: linorder
begin

definition less_eq_approval_id :: "approval_id \<Rightarrow> approval_id \<Rightarrow> bool" where
  "less_eq_approval_id a b \<longleftrightarrow> approval_id_str a \<le> approval_id_str b"

definition less_approval_id :: "approval_id \<Rightarrow> approval_id \<Rightarrow> bool" where
  "less_approval_id a b \<longleftrightarrow> approval_id_str a < approval_id_str b"

instance
  by standard (auto simp: less_eq_approval_id_def less_approval_id_def approval_id.expand)

end

lemma id_new_Inr [result_simps]:
  "id_new v = Inr w \<longleftrightarrow> w = v \<and> v \<noteq> [] \<and> str_len v \<le> 128 \<and> \<not> list_ex char_is_control v"
  by (auto simp: id_new_def result_simps)

end
