(* ===== verification/Runs.thy ===== *)
theory Runs
  imports Aggregates Ids
begin

text \<open>
  The run aggregate (grok-domain, \<open>run.rs\<close>): the durable lifecycle of one agent run, its
  constructors, and the events its use cases append. Lemmas: every history of transitions is
  revisioned and monotone in time, terminal states are final, and the kind and the execution
  backend of a run never change.
\<close>

section \<open>Data\<close>

datatype run_kind = RunKindUnspecified | RunKindChat | RunKindWork | RunKindScheduled

datatype work_execution_backend = HostDirect | IsolatedGuest

datatype run_state =
    Queued
  | Planning
  | AwaitingApproval
  | Running
  | Paused
  | Completed
  | Failed
  | Cancelled
  | InterruptedNeedsReview

fun run_state_is_terminal :: "run_state \<Rightarrow> bool" where
  "run_state_is_terminal Completed = True"
| "run_state_is_terminal Failed = True"
| "run_state_is_terminal Cancelled = True"
| "run_state_is_terminal _ = False"

fun run_state_permits :: "run_state \<Rightarrow> run_state \<Rightarrow> bool" where
  "run_state_permits Queued next = (next \<in> {Planning, Cancelled, InterruptedNeedsReview})"
| "run_state_permits Planning next =
     (next \<in> {AwaitingApproval, Running, Failed, Cancelled, InterruptedNeedsReview})"
| "run_state_permits AwaitingApproval next =
     (next \<in> {Running, Paused, Failed, Cancelled, InterruptedNeedsReview})"
| "run_state_permits Running next =
     (next \<in> {AwaitingApproval, Paused, Completed, Failed, Cancelled, InterruptedNeedsReview})"
| "run_state_permits Paused next = (next \<in> {Running, Failed, Cancelled, InterruptedNeedsReview})"
| "run_state_permits InterruptedNeedsReview next = (next \<in> {Running, Failed, Cancelled})"
| "run_state_permits _ next = False"

datatype transition_error =
    InvalidRunTransition run_state run_state
  | ClockRegression unix_millis unix_millis

record run =
  run_id_of :: run_id
  run_project_id :: project_id
  run_thread_id :: thread_id
  run_kind_of :: run_kind
  run_work_backend :: "work_execution_backend option"
  run_state_of :: run_state
  run_revision :: u64
  run_created_at :: unix_millis
  run_updated_at :: unix_millis

datatype run_event_kind =
    RunCreated
  | RunStateChanged run_state run_state
  | RunApprovalRequested approval_id
  | RunEffectPrepared effect_id
  | RunEffectNeedsReview effect_id

record run_event =
  ev_sequence :: u64
  ev_run_id :: run_id
  ev_occurred_at :: unix_millis
  ev_kind :: run_event_kind

section \<open>Operations\<close>

definition run_queued :: "run_id \<Rightarrow> project_id \<Rightarrow> thread_id \<Rightarrow> unix_millis \<Rightarrow> run" where
  "run_queued i p t now =
     \<lparr>run_id_of = i, run_project_id = p, run_thread_id = t, run_kind_of = RunKindChat,
      run_work_backend = None, run_state_of = Queued, run_revision = 0,
      run_created_at = now, run_updated_at = now\<rparr>"

definition run_queued_work ::
  "run_id \<Rightarrow> project_id \<Rightarrow> thread_id \<Rightarrow> work_execution_backend \<Rightarrow> unix_millis \<Rightarrow> run" where
  "run_queued_work i p t backend now =
     \<lparr>run_id_of = i, run_project_id = p, run_thread_id = t, run_kind_of = RunKindWork,
      run_work_backend = Some backend, run_state_of = Queued, run_revision = 0,
      run_created_at = now, run_updated_at = now\<rparr>"

definition run_queued_scheduled ::
  "run_id \<Rightarrow> project_id \<Rightarrow> thread_id \<Rightarrow> unix_millis \<Rightarrow> run" where
  "run_queued_scheduled i p t now =
     \<lparr>run_id_of = i, run_project_id = p, run_thread_id = t, run_kind_of = RunKindScheduled,
      run_work_backend = None, run_state_of = Queued, run_revision = 0,
      run_created_at = now, run_updated_at = now\<rparr>"

definition is_work_bound_to :: "run \<Rightarrow> work_execution_backend \<Rightarrow> bool" where
  "is_work_bound_to r backend \<longleftrightarrow>
     run_kind_of r = RunKindWork \<and> run_work_backend r = Some backend"

definition run_transition ::
  "run \<Rightarrow> run_state \<Rightarrow> unix_millis \<Rightarrow> transition_error + run" where
  "run_transition r next now =
     and_then (fail_if (\<not> run_state_permits (run_state_of r) next)
                 (InvalidRunTransition (run_state_of r) next)) (\<lambda>_.
     and_then (fail_if (now < run_updated_at r)
                 (ClockRegression (run_updated_at r) now)) (\<lambda>_.
     Inr (r\<lparr>run_state_of := next,
            run_revision := saturating_add (run_revision r) 1,
            run_updated_at := now\<rparr>)))"

section \<open>Histories\<close>

inductive run_init :: "run \<Rightarrow> bool" where
  chat: "run_init (run_queued i p t now)"
| work: "run_init (run_queued_work i p t backend now)"
| scheduled: "run_init (run_queued_scheduled i p t now)"

inductive run_step :: "run \<Rightarrow> run \<Rightarrow> bool" where
  transition: "run_transition r next now = Inr r' \<Longrightarrow> run_step r r'"

inductive_cases run_initE: "run_init r"
inductive_cases run_stepE: "run_step r r'"

abbreviation run_steps :: "run \<Rightarrow> run \<Rightarrow> bool" where
  "run_steps \<equiv> run_step\<^sup>*\<^sup>*"

text \<open>What a transition never writes: identity, ownership, kind, backend and creation time.\<close>

definition run_frame ::
  "run \<Rightarrow> run_id \<times> project_id \<times> thread_id \<times> run_kind \<times> work_execution_backend option \<times> unix_millis"
where
  "run_frame r = (run_id_of r, run_project_id r, run_thread_id r, run_kind_of r,
                  run_work_backend r, run_created_at r)"

lemma run_transition_Inr [result_simps]:
  "run_transition r next now = Inr r' \<longleftrightarrow>
     run_state_permits (run_state_of r) next \<and> run_updated_at r \<le> now \<and>
     r' = r\<lparr>run_state_of := next, run_revision := sat_succ (run_revision r), run_updated_at := now\<rparr>"
  by (auto simp: run_transition_def result_simps)

lemma run_step_iff:
  "run_step r r' \<longleftrightarrow>
     (\<exists>next now. run_state_permits (run_state_of r) next \<and> run_updated_at r \<le> now \<and>
        r' = r\<lparr>run_state_of := next, run_revision := sat_succ (run_revision r),
               run_updated_at := now\<rparr>)"
  by (auto simp: run_step.simps result_simps)

lemma run_terminal_final: "run_state_is_terminal s \<Longrightarrow> \<not> run_state_permits s t"
  by (cases s) simp_all

interpretation run_life: lifecycle run_step run_revision run_updated_at run_frame
    run_state_of run_state_permits run_state_is_terminal
  by unfold_locales (auto simp: run_step_iff run_frame_def run_terminal_final)

section \<open>Invariant\<close>

text \<open>
  Every constructor and transition keeps: time does not run backwards, and the backend is
  present exactly for Work runs.
\<close>

definition run_wf :: "run \<Rightarrow> bool" where
  "run_wf r \<longleftrightarrow>
     run_created_at r \<le> run_updated_at r \<and>
     (run_work_backend r \<noteq> None \<longleftrightarrow> run_kind_of r = RunKindWork)"

lemma run_wf_init: "run_init r \<Longrightarrow> run_wf r"
  by (auto elim!: run_initE
        simp: run_wf_def run_queued_def run_queued_work_def run_queued_scheduled_def)

lemma run_wf_step: "run_wf r \<Longrightarrow> run_step r r' \<Longrightarrow> run_wf r'"
  by (auto simp: run_wf_def run_step_iff)

interpretation run_rows: restorable run_init run_step run_wf
  by unfold_locales (auto intro: run_wf_init run_wf_step)

lemma run_init_state: "run_init r \<Longrightarrow> run_state_of r = Queued \<and> run_revision r = 0"
  by (auto elim!: run_initE
        simp: run_queued_def run_queued_work_def run_queued_scheduled_def)

text \<open>The only edge into \<open>Completed\<close> leaves \<open>Running\<close>.\<close>

lemma permits_Completed: "run_state_permits s Completed \<longleftrightarrow> s = Running"
  by (cases s) simp_all

text \<open>C20. Every history of a run keeps its identity, owner, kind and backend, never moves its
  clock backwards, binds a backend exactly to Work runs, and its revision is the number of
  transitions taken.\<close>

theorem run_history:
  assumes "run_init r0" and "(run_step ^^ n) r0 r" and "n < 2 ^ 64"
  shows "run_frame r = run_frame r0 \<and> unat (run_revision r) = n \<and>
         run_created_at r \<le> run_updated_at r0 \<and> run_updated_at r0 \<le> run_updated_at r \<and>
         (run_work_backend r \<noteq> None \<longleftrightarrow> run_kind_of r = RunKindWork)"
proof -
  have steps: "run_steps r0 r" using assms(2) by (rule relpowp_imp_rtranclp)
  have "run_wf r" using assms(1) steps by (blast intro: run_rows.reachable_accepted)
  moreover have "run_frame r = run_frame r0" using steps by (rule run_life.steps_ident)
  moreover have "run_created_at r0 = run_updated_at r0"
    using assms(1) by (auto elim!: run_initE
        simp: run_queued_def run_queued_work_def run_queued_scheduled_def)
  moreover have "unat (run_revision r) = n"
    using run_life.relpow_revision [OF assms(2)] run_init_state [OF assms(1)] assms(3) by simp
  ultimately show ?thesis
    using run_life.steps_updated_at [OF steps] by (auto simp: run_wf_def run_frame_def)
qed

theorem run_history_witness:
  "\<exists>r. (run_step ^^ 1) (run_queued_work (RunId []) (ProjectId []) (ThreadId []) HostDirect 3) r \<and>
       unat (run_revision r) = 1 \<and> run_work_backend r = Some HostDirect"
proof -
  let ?start = "run_queued_work (RunId []) (ProjectId []) (ThreadId []) HostDirect 3"
  let ?r = "?start\<lparr>run_state_of := Planning, run_revision := 1, run_updated_at := 4\<rparr>"
  have "run_step ?start ?r"
    by (auto simp: run_step_iff run_queued_work_def)
  then have step: "(run_step ^^ 1) ?start ?r"
    by (simp only: relpowp_1)
  have "unat (run_revision ?r) = 1" "run_frame ?r = run_frame ?start"
    using run_history [OF run_init.work step] by simp_all
  with step show ?thesis by (auto simp: run_frame_def run_queued_work_def)
qed

end
