(* ===== verification/Approvals.thy ===== *)
theory Approvals
  imports Aggregates Ids
begin

text \<open>
  The approval aggregate (grok-domain, \<open>approval.rs\<close>): a scoped request for one user decision
  with a deadline. \<open>approval_decide\<close> returns the mutated aggregate beside its result, because
  an expired request is moved to \<open>Expired\<close> on the error path.
\<close>

datatype approval_risk = RiskLow | RiskElevated | RiskHigh | RiskCritical

datatype approval_scope = ScopeOnce | ScopeRun | ScopeResource rstr

record requested_action =
  ra_action :: rstr
  ra_target :: rstr
  ra_data_summary :: rstr
  ra_risk :: approval_risk

datatype approval_status =
  ApprovalPending | ApprovalGranted | ApprovalDenied | ApprovalExpired | ApprovalCancelled

datatype approval_decision = DecisionGrant | DecisionDeny

datatype approval_error = AlreadyDecided approval_status | ExpiredAt unix_millis

record approval =
  ap_id :: approval_id
  ap_run_id :: run_id
  ap_request :: requested_action
  ap_scope :: approval_scope
  ap_status :: approval_status
  ap_revision :: u64
  ap_created_at :: unix_millis
  ap_expires_at :: unix_millis
  ap_decided_at :: "unix_millis option"

definition approval_pending ::
  "approval_id \<Rightarrow> run_id \<Rightarrow> requested_action \<Rightarrow> approval_scope \<Rightarrow> unix_millis \<Rightarrow> unix_millis \<Rightarrow> approval"
where
  "approval_pending i rid request scope now expires_at =
     \<lparr>ap_id = i, ap_run_id = rid, ap_request = request, ap_scope = scope,
      ap_status = ApprovalPending, ap_revision = 0, ap_created_at = now,
      ap_expires_at = expires_at, ap_decided_at = None\<rparr>"

definition approval_decide ::
  "approval \<Rightarrow> approval_decision \<Rightarrow> unix_millis \<Rightarrow> approval \<times> (approval_error + unit)" where
  "approval_decide a decision now =
     (if ap_status a \<noteq> ApprovalPending then (a, Inl (AlreadyDecided (ap_status a)))
      else if ap_expires_at a < now then
        (a\<lparr>ap_status := ApprovalExpired, ap_decided_at := Some now,
           ap_revision := saturating_add (ap_revision a) 1\<rparr>,
         Inl (ExpiredAt (ap_expires_at a)))
      else
        (a\<lparr>ap_status := (case decision of DecisionGrant \<Rightarrow> ApprovalGranted
                                        | DecisionDeny \<Rightarrow> ApprovalDenied),
           ap_decided_at := Some now,
           ap_revision := saturating_add (ap_revision a) 1\<rparr>,
         Inr ()))"

text \<open>A history of decision attempts: the aggregate is mutated by each call, whatever it returns.\<close>

fun approval_decide_all ::
  "approval \<Rightarrow> (approval_decision \<times> unix_millis) list \<Rightarrow> approval" where
  "approval_decide_all a [] = a"
| "approval_decide_all a ((d, now) # ds) = approval_decide_all (fst (approval_decide a d now)) ds"

inductive approval_step :: "approval \<Rightarrow> approval \<Rightarrow> bool" where
  decide: "ap_status a = ApprovalPending \<Longrightarrow> approval_step a (fst (approval_decide a d now))"

fun approval_status_permits :: "approval_status \<Rightarrow> approval_status \<Rightarrow> bool" where
  "approval_status_permits ApprovalPending s =
     (s \<in> {ApprovalGranted, ApprovalDenied, ApprovalExpired})"
| "approval_status_permits _ s = False"

definition approval_frame ::
  "approval \<Rightarrow> approval_id \<times> run_id \<times> requested_action \<times> approval_scope \<times> unix_millis \<times> unix_millis"
where
  "approval_frame a = (ap_id a, ap_run_id a, ap_request a, ap_scope a,
                       ap_created_at a, ap_expires_at a)"

interpretation approval_life: lifecycle approval_step ap_revision "\<lambda>_. 0" approval_frame
    ap_status approval_status_permits "\<lambda>s. s \<noteq> ApprovalPending"
proof unfold_locales
  fix s t
  assume "s \<noteq> ApprovalPending"
  then show "\<not> approval_status_permits s t" by (cases s) simp_all
qed (auto elim!: approval_step.cases simp: approval_decide_def approval_frame_def
       split: approval_decision.splits)

lemma approval_decide_decided:
  "ap_status a \<noteq> ApprovalPending \<Longrightarrow> approval_decide a d now = (a, Inl (AlreadyDecided (ap_status a)))"
  by (simp add: approval_decide_def)

lemma approval_decide_all_decided:
  "ap_status a \<noteq> ApprovalPending \<Longrightarrow> approval_decide_all a ds = a"
  by (induction a ds rule: approval_decide_all.induct) (simp_all add: approval_decide_decided)

lemma approval_decide_not_pending: "ap_status (fst (approval_decide a d now)) \<noteq> ApprovalPending"
  by (simp add: approval_decide_def split: approval_decision.split)

lemma approval_decide_all_Cons:
  "approval_decide_all a ((d, now) # ds) = fst (approval_decide a d now)"
  by (simp add: approval_decide_all_decided approval_decide_not_pending)

text \<open>Only the first decision attempt of an approval has any effect: whatever attempts follow,
  the aggregate is the one the first attempt left, and every later attempt is answered with
  \<open>AlreadyDecided\<close> of that status.\<close>

theorem approval_single_use:
  "approval_decide_all a ((d, now) # ds) = fst (approval_decide a d now) \<and>
   approval_decide (approval_decide_all a ((d, now) # ds)) d' now' =
     (fst (approval_decide a d now), Inl (AlreadyDecided (ap_status (fst (approval_decide a d now)))))"
  by (simp only: approval_decide_all_Cons approval_decide_decided approval_decide_not_pending
        simp_thms)

text \<open>No history of decision attempts on a fresh request grants it after its deadline: a granted
  approval was decided at a recorded instant not after \<open>expires_at\<close>, by a \<open>Grant\<close> that was the
  first attempt.\<close>

theorem approval_granted_in_time:
  assumes "approval_decide_all (approval_pending i rid request scope t0 expires_at) ds = a"
    and "ap_status a = ApprovalGranted"
  shows "\<exists>now ds'. ds = (DecisionGrant, now) # ds' \<and> ap_decided_at a = Some now \<and>
           now \<le> expires_at \<and> ap_revision a = 1"
proof (cases ds)
  case Nil
  with assms show ?thesis by (auto simp: approval_pending_def)
next
  case (Cons p ds')
  obtain d now where "p = (d, now)" by (cases p)
  with Cons assms(1) have
    "a = fst (approval_decide (approval_pending i rid request scope t0 expires_at) d now)"
    by (simp only: approval_decide_all_Cons)
  with assms(2) \<open>p = (d, now)\<close> Cons show ?thesis
    by (auto simp: approval_decide_def approval_pending_def
          split: if_splits approval_decision.splits)
qed

theorem approval_granted_in_time_witness:
  "ap_decided_at (approval_decide_all (approval_pending (ApprovalId (lit ''a'')) (RunId (lit ''r''))
       \<lparr>ra_action = [], ra_target = [], ra_data_summary = [], ra_risk = RiskLow\<rparr>
       ScopeOnce 10 20) [(DecisionGrant, 15), (DecisionDeny, 16)]) = Some 15"
  (is "ap_decided_at ?a = Some 15")
proof -
  have "ap_status ?a = ApprovalGranted"
    by (simp add: approval_decide_def approval_pending_def)
  from approval_granted_in_time [OF refl this] show ?thesis
    by auto
qed

end
