(* ===== verification/Effects.thy ===== *)
theory Effects
  imports Aggregates Ids
begin

text \<open>
  The side-effect aggregate (grok-domain, \<open>effect.rs\<close>): an intent recorded before an external
  operation, whose dispatch may begin only once.
\<close>

datatype effect_kind = FileWrite | ProcessExecution | ExternalMutation | ComputerInput

datatype idempotency = Idempotent | NonIdempotent

datatype effect_state =
  EffectPrepared | EffectExecuting | EffectSucceeded | EffectFailed | EffectNeedsReview

datatype effect_transition_error = EffectTransitionError effect_state effect_state

record side_effect =
  ef_id :: effect_id
  ef_run_id :: run_id
  ef_kind :: effect_kind
  ef_target :: rstr
  ef_idempotency :: idempotency
  ef_state :: effect_state
  ef_revision :: u64
  ef_created_at :: unix_millis
  ef_updated_at :: unix_millis

definition effect_prepare ::
  "effect_id \<Rightarrow> run_id \<Rightarrow> effect_kind \<Rightarrow> rstr \<Rightarrow> idempotency \<Rightarrow> unix_millis \<Rightarrow> side_effect" where
  "effect_prepare i rid kind target idem now =
     \<lparr>ef_id = i, ef_run_id = rid, ef_kind = kind, ef_target = target, ef_idempotency = idem,
      ef_state = EffectPrepared, ef_revision = 0, ef_created_at = now, ef_updated_at = now\<rparr>"

fun effect_valid_edge :: "effect_state \<Rightarrow> effect_state \<Rightarrow> bool" where
  "effect_valid_edge EffectPrepared next = (next = EffectExecuting)"
| "effect_valid_edge EffectExecuting next =
     (next \<in> {EffectSucceeded, EffectFailed, EffectNeedsReview})"
| "effect_valid_edge _ next = False"

definition effect_move_to ::
  "side_effect \<Rightarrow> effect_state \<Rightarrow> unix_millis \<Rightarrow> effect_transition_error + side_effect" where
  "effect_move_to e next now =
     (if \<not> effect_valid_edge (ef_state e) next then Inl (EffectTransitionError (ef_state e) next)
      else Inr (e\<lparr>ef_state := next,
                  ef_revision := saturating_add (ef_revision e) 1,
                  ef_updated_at := max now (ef_updated_at e)\<rparr>))"

definition effect_start :: "side_effect \<Rightarrow> unix_millis \<Rightarrow> effect_transition_error + side_effect" where
  "effect_start e now = effect_move_to e EffectExecuting now"

definition effect_finish ::
  "side_effect \<Rightarrow> bool \<Rightarrow> unix_millis \<Rightarrow> effect_transition_error + side_effect" where
  "effect_finish e succeeded now =
     effect_move_to e (if succeeded then EffectSucceeded else EffectFailed) now"

definition effect_interrupt ::
  "side_effect \<Rightarrow> unix_millis \<Rightarrow> effect_transition_error + side_effect" where
  "effect_interrupt e now = effect_move_to e EffectNeedsReview now"

lemmas effect_ops = effect_start_def effect_finish_def effect_interrupt_def

datatype effect_op = OpStart | OpFinish bool | OpInterrupt

fun effect_apply ::
  "effect_op \<Rightarrow> side_effect \<Rightarrow> unix_millis \<Rightarrow> effect_transition_error + side_effect" where
  "effect_apply OpStart e now = effect_start e now"
| "effect_apply (OpFinish b) e now = effect_finish e b now"
| "effect_apply OpInterrupt e now = effect_interrupt e now"

text \<open>Calls in sequence; a failing call leaves the aggregate as it is. The result counts how many
  starts succeeded.\<close>

fun effect_run :: "side_effect \<Rightarrow> (effect_op \<times> unix_millis) list \<Rightarrow> side_effect \<times> nat" where
  "effect_run e [] = (e, 0)"
| "effect_run e ((op, now) # ops) =
     (case effect_apply op e now of
        Inl _ \<Rightarrow> effect_run e ops
      | Inr e' \<Rightarrow> (let (e'', n) = effect_run e' ops in (e'', (if op = OpStart then 1 else 0) + n)))"

inductive effect_step :: "side_effect \<Rightarrow> side_effect \<Rightarrow> bool" where
  apply_op: "effect_apply op e now = Inr e' \<Longrightarrow> effect_step e e'"

definition effect_frame ::
  "side_effect \<Rightarrow> effect_id \<times> run_id \<times> effect_kind \<times> rstr \<times> idempotency \<times> unix_millis" where
  "effect_frame e = (ef_id e, ef_run_id e, ef_kind e, ef_target e, ef_idempotency e, ef_created_at e)"

definition effect_state_is_final :: "effect_state \<Rightarrow> bool" where
  "effect_state_is_final s \<longleftrightarrow> s \<in> {EffectSucceeded, EffectFailed, EffectNeedsReview}"

lemma effect_move_to_Inr [result_simps]:
  "effect_move_to e next now = Inr e' \<longleftrightarrow>
     effect_valid_edge (ef_state e) next \<and>
     e' = e\<lparr>ef_state := next, ef_revision := sat_succ (ef_revision e),
            ef_updated_at := max now (ef_updated_at e)\<rparr>"
  by (auto simp: effect_move_to_def)

fun effect_op_target :: "effect_op \<Rightarrow> effect_state" where
  "effect_op_target OpStart = EffectExecuting"
| "effect_op_target (OpFinish b) = (if b then EffectSucceeded else EffectFailed)"
| "effect_op_target OpInterrupt = EffectNeedsReview"

lemma effect_apply_move: "effect_apply op e now = effect_move_to e (effect_op_target op) now"
  by (cases op) (simp_all add: effect_ops)

interpretation effect_life: lifecycle effect_step ef_revision ef_updated_at effect_frame
    ef_state effect_valid_edge effect_state_is_final
proof unfold_locales
  fix s t
  assume "effect_state_is_final s"
  then show "\<not> effect_valid_edge s t" by (auto simp: effect_state_is_final_def)
qed (auto simp: effect_step.simps effect_apply_move result_simps effect_frame_def)

lemma effect_run_final: "effect_state_is_final (ef_state e) \<Longrightarrow> effect_run e ops = (e, 0)"
proof (induction ops)
  case (Cons p ops)
  obtain op now where p: "p = (op, now)" by (cases p)
  from Cons.prems have "\<not> effect_valid_edge (ef_state e) (effect_op_target op)"
    by (rule effect_life.terminal_final)
  with Cons show ?case
    by (simp add: p effect_apply_move effect_move_to_def)
qed simp

lemma effect_run_executing: "ef_state e = EffectExecuting \<Longrightarrow> snd (effect_run e ops) = 0"
proof (induction ops arbitrary: e)
  case (Cons p ops)
  obtain op now where p: "p = (op, now)" by (cases p)
  show ?case
  proof (cases op)
    case OpStart
    with Cons show ?thesis by (simp add: p effect_apply_move effect_move_to_def)
  next
    case (OpFinish b)
    with Cons.prems show ?thesis
      by (simp add: p effect_apply_move effect_move_to_def effect_run_final effect_state_is_final_def)
  next
    case OpInterrupt
    with Cons.prems show ?thesis
      by (simp add: p effect_apply_move effect_move_to_def effect_run_final effect_state_is_final_def)
  qed
qed simp

text \<open>C19. A side effect crosses its external boundary at most once: over any sequence of start,
  finish and interrupt calls on a freshly prepared intent, with any clock readings, at most one
  start succeeds.\<close>

theorem effect_dispatched_once:
  "snd (effect_run (effect_prepare i rid kind target idem t0) ops) \<le> 1"
proof -
  have "ef_state e = EffectPrepared \<Longrightarrow> snd (effect_run e ops) \<le> 1" for e
  proof (induction ops)
    case (Cons p ops)
    obtain op now where p: "p = (op, now)" by (cases p)
    show ?case
    proof (cases "op = OpStart")
      case True
      with Cons.prems show ?thesis
        by (simp add: p effect_apply_move effect_move_to_def split_beta effect_run_executing)
    next
      case False
      then have "\<not> effect_valid_edge (ef_state e) (effect_op_target op)"
        using Cons.prems by (cases op) simp_all
      with Cons show ?thesis by (simp add: p effect_apply_move effect_move_to_def)
    qed
  qed simp
  then show ?thesis by (simp add: effect_prepare_def)
qed

text \<open>An uncertain effect is never retried: once a dispatch was interrupted
  (\<open>EffectNeedsReview\<close>), no later call changes the aggregate in any way.\<close>

theorem effect_needs_review_final:
  assumes "ef_state e = EffectNeedsReview"
  shows "effect_run e ops = (e, 0)"
  using assms by (simp add: effect_run_final effect_state_is_final_def)

theorem effect_needs_review_final_witness:
  "effect_run ((effect_prepare (EffectId (lit ''e'')) (RunId (lit ''r'')) FileWrite [] NonIdempotent 1)
       \<lparr>ef_state := EffectNeedsReview\<rparr>) [(OpStart, 4)] =
     ((effect_prepare (EffectId (lit ''e'')) (RunId (lit ''r'')) FileWrite [] NonIdempotent 1)
       \<lparr>ef_state := EffectNeedsReview\<rparr>, 0)"
  by (rule effect_needs_review_final) (simp add: effect_prepare_def)

end
