(* ===== verification/Privileged.thy ===== *)
theory Privileged
  imports Aggregates Ids
begin

text \<open>
  The privileged-operation aggregate (grok-domain, \<open>privileged_operation.rs\<close>): bounded authority
  and idempotency metadata, the closed set of operation kinds with their fixed retry class, and
  the journal lifecycle around each dispatch attempt. Lemmas: the exact set of snapshots the
  aggregate can produce, how the rehydration check \<open>po_restore\<close> relates to it, single dispatch
  of non-idempotent operations and the authority deadline.
\<close>

section \<open>Validated values\<close>

definition min_key_bytes :: nat where "min_key_bytes = 16"
definition max_key_bytes :: nat where "max_key_bytes = 128"

datatype privileged_operation_value_error =
    TooShort string nat
  | TooLong string nat
  | InvalidCharacter string

definition is_safe_ascii_byte :: "u8 \<Rightarrow> bool" where
  "is_safe_ascii_byte b \<longleftrightarrow> byte_is_ascii_alphanumeric b \<or> b \<in> {46, 95, 58, 45}"

definition validate_safe_ascii ::
  "rstr \<Rightarrow> string \<Rightarrow> nat \<Rightarrow> privileged_operation_value_error + unit" where
  "validate_safe_ascii value field minimum =
     and_then (fail_if (str_len value < minimum) (TooShort field minimum)) (\<lambda>_.
     and_then (fail_if (max_key_bytes < str_len value) (TooLong field max_key_bytes)) (\<lambda>_.
     and_then (fail_if (\<not> list_all is_safe_ascii_byte (str_bytes value)) (InvalidCharacter field)) (\<lambda>_.
     Inr ())))"

datatype authority_grant_id = AuthorityGrantId (authority_grant_id_str: rstr)
datatype privileged_idempotency_key =
  PrivilegedIdempotencyKey (privileged_idempotency_key_str: rstr)
datatype privileged_resource_id = PrivilegedResourceId (privileged_resource_id_str: rstr)

definition authority_grant_id_new ::
  "rstr \<Rightarrow> privileged_operation_value_error + authority_grant_id" where
  "authority_grant_id_new value =
     and_then (validate_safe_ascii value ''authority_grant_id'' min_key_bytes)
       (\<lambda>_. Inr (AuthorityGrantId value))"

definition privileged_idempotency_key_new ::
  "rstr \<Rightarrow> privileged_operation_value_error + privileged_idempotency_key" where
  "privileged_idempotency_key_new value =
     and_then (validate_safe_ascii value ''idempotency_key'' min_key_bytes)
       (\<lambda>_. Inr (PrivilegedIdempotencyKey value))"

definition privileged_resource_id_new ::
  "rstr \<Rightarrow> privileged_operation_value_error + privileged_resource_id" where
  "privileged_resource_id_new value =
     and_then (validate_safe_ascii value ''resource_id'' 1)
       (\<lambda>_. Inr (PrivilegedResourceId value))"

datatype request_digest = RequestDigest (request_digest_bytes: "u8 list")
datatype payload_digest = PayloadDigest (payload_digest_bytes: "u8 list")

section \<open>Kinds, targets and retry classes\<close>

datatype privileged_operation_kind =
    RunnerHealth | CatalogApply | IntegrationStart | IntegrationStop | ComputerObserve | ComputerAct

datatype privileged_retry_class = RetrySafe | RetryNonIdempotent

fun retry_class :: "privileged_operation_kind \<Rightarrow> privileged_retry_class" where
  "retry_class RunnerHealth = RetrySafe"
| "retry_class ComputerObserve = RetrySafe"
| "retry_class CatalogApply = RetryNonIdempotent"
| "retry_class IntegrationStart = RetryNonIdempotent"
| "retry_class IntegrationStop = RetryNonIdempotent"
| "retry_class ComputerAct = RetryNonIdempotent"

text \<open>Targets carry the VM, then integration, instance, application and observation revision.\<close>

datatype privileged_operation_target =
    TargetRunner privileged_resource_id
  | TargetCatalog privileged_resource_id
  | TargetIntegrationStart privileged_resource_id privileged_resource_id
  | TargetIntegrationStop privileged_resource_id privileged_resource_id privileged_resource_id
  | TargetComputerObserve privileged_resource_id privileged_resource_id
  | TargetComputerAct privileged_resource_id privileged_resource_id privileged_resource_id
      privileged_resource_id u64

fun target_operation_kind :: "privileged_operation_target \<Rightarrow> privileged_operation_kind" where
  "target_operation_kind (TargetRunner _) = RunnerHealth"
| "target_operation_kind (TargetCatalog _) = CatalogApply"
| "target_operation_kind (TargetIntegrationStart _ _) = IntegrationStart"
| "target_operation_kind (TargetIntegrationStop _ _ _) = IntegrationStop"
| "target_operation_kind (TargetComputerObserve _ _) = ComputerObserve"
| "target_operation_kind (TargetComputerAct _ _ _ _ _) = ComputerAct"

fun target_is_valid :: "privileged_operation_target \<Rightarrow> bool" where
  "target_is_valid (TargetComputerAct _ _ _ _ observation_revision) = (observation_revision \<noteq> 0)"
| "target_is_valid _ = True"

record privileged_authority =
  pa_grant_id :: authority_grant_id
  pa_expires_at :: unix_millis

record privileged_idempotency =
  pi_key :: privileged_idempotency_key
  pi_request_digest :: request_digest

record privileged_operation_links =
  pl_run_id :: "run_id option"
  pl_effect_id :: "effect_id option"
  pl_approval_id :: "approval_id option"
  pl_supersedes_id :: "privileged_operation_id option"

record privileged_operation_intent =
  in_kind :: privileged_operation_kind
  in_target :: privileged_operation_target
  in_payload_digest :: payload_digest
  in_authority :: privileged_authority
  in_idempotency :: privileged_idempotency
  in_links :: privileged_operation_links

section \<open>Lifecycle\<close>

datatype privileged_operation_state =
    PoPrepared | PoDispatching | PoRetryPending | PoSucceeded | PoFailed
  | PoInterruptedNeedsReview | PoReviewed | PoCancelled

fun po_state_is_terminal :: "privileged_operation_state \<Rightarrow> bool" where
  "po_state_is_terminal PoSucceeded = True"
| "po_state_is_terminal PoFailed = True"
| "po_state_is_terminal PoReviewed = True"
| "po_state_is_terminal PoCancelled = True"
| "po_state_is_terminal _ = False"

fun po_state_permits :: "privileged_operation_state \<Rightarrow> privileged_operation_state \<Rightarrow> bool" where
  "po_state_permits PoPrepared next = (next \<in> {PoDispatching, PoCancelled})"
| "po_state_permits PoDispatching next =
     (next \<in> {PoRetryPending, PoSucceeded, PoFailed, PoInterruptedNeedsReview})"
| "po_state_permits PoRetryPending next = (next = PoDispatching)"
| "po_state_permits PoInterruptedNeedsReview next = (next = PoReviewed)"
| "po_state_permits _ next = False"

datatype privileged_operation_review = ConfirmedSucceeded | ConfirmedFailed | Abandoned

datatype privileged_operation_error =
    PoInvalidTransition privileged_operation_state privileged_operation_state
  | PoRetryPolicyViolation privileged_operation_kind
  | PoClockRegression unix_millis unix_millis
  | PoAuthorityExpired unix_millis
  | PoSelfSupersession
  | PoInvalidLinks
  | PoTargetKindMismatch privileged_operation_kind privileged_operation_kind
  | PoInvalidTarget
  | PoRevisionExhausted
  | PoAttemptCountExhausted
  | PoInvalidPersistedState

record privileged_operation =
  po_id :: privileged_operation_id
  po_kind :: privileged_operation_kind
  po_target :: privileged_operation_target
  po_payload_digest :: payload_digest
  po_authority :: privileged_authority
  po_idempotency :: privileged_idempotency
  po_links :: privileged_operation_links
  po_state :: privileged_operation_state
  po_review_of :: "privileged_operation_review option"
  po_attempt_count :: u32
  po_revision :: u64
  po_created_at :: unix_millis
  po_updated_at :: unix_millis

definition po_prepare ::
  "privileged_operation_id \<Rightarrow> privileged_operation_intent \<Rightarrow> unix_millis \<Rightarrow>
   privileged_operation_error + privileged_operation" where
  "po_prepare i intent now =
     (let kind = in_kind intent; target = in_target intent; authority = in_authority intent;
          links = in_links intent; target_kind = target_operation_kind target in
      and_then (fail_if (pa_expires_at authority < now)
                  (PoAuthorityExpired (pa_expires_at authority))) (\<lambda>_.
      and_then (fail_if (target_kind \<noteq> kind) (PoTargetKindMismatch kind target_kind)) (\<lambda>_.
      and_then (fail_if (\<not> target_is_valid target) PoInvalidTarget) (\<lambda>_.
      and_then (fail_if (pl_supersedes_id links = Some i) PoSelfSupersession) (\<lambda>_.
      and_then (fail_if (pl_run_id links = None \<and>
                         (pl_effect_id links \<noteq> None \<or> pl_approval_id links \<noteq> None))
                  PoInvalidLinks) (\<lambda>_.
      Inr \<lparr>po_id = i, po_kind = kind, po_target = target,
           po_payload_digest = in_payload_digest intent, po_authority = authority,
           po_idempotency = in_idempotency intent, po_links = links,
           po_state = PoPrepared, po_review_of = None, po_attempt_count = 0, po_revision = 0,
           po_created_at = now, po_updated_at = now\<rparr>))))))"

definition po_retry_class :: "privileged_operation \<Rightarrow> privileged_retry_class" where
  "po_retry_class op = retry_class (po_kind op)"

definition po_validate_edge ::
  "privileged_operation \<Rightarrow> privileged_operation_state \<Rightarrow> unix_millis \<Rightarrow> privileged_operation_error + unit"
where
  "po_validate_edge op next now =
     and_then (fail_if (\<not> po_state_permits (po_state op) next)
                 (PoInvalidTransition (po_state op) next)) (\<lambda>_.
     and_then (fail_if (now < po_updated_at op)
                 (PoClockRegression (po_updated_at op) now)) (\<lambda>_.
     and_then (fail_if (po_revision op = - 1) PoRevisionExhausted) (\<lambda>_. Inr ())))"

definition po_apply_transition ::
  "privileged_operation \<Rightarrow> privileged_operation_state \<Rightarrow> unix_millis \<Rightarrow>
   privileged_operation_error + privileged_operation" where
  "po_apply_transition op next now =
     and_then (ok_or (checked_add (po_revision op) 1) PoRevisionExhausted) (\<lambda>rev.
     Inr (op\<lparr>po_revision := rev, po_state := next, po_updated_at := now\<rparr>))"

definition po_move_to ::
  "privileged_operation \<Rightarrow> privileged_operation_state \<Rightarrow> unix_millis \<Rightarrow>
   privileged_operation_error + privileged_operation" where
  "po_move_to op next now =
     and_then (po_validate_edge op next now) (\<lambda>_. po_apply_transition op next now)"

definition po_dispatch ::
  "privileged_operation \<Rightarrow> unix_millis \<Rightarrow> privileged_operation_error + privileged_operation" where
  "po_dispatch op now =
     and_then (po_validate_edge op PoDispatching now) (\<lambda>_.
     and_then (fail_if (pa_expires_at (po_authority op) < now)
                 (PoAuthorityExpired (pa_expires_at (po_authority op)))) (\<lambda>_.
     and_then (ok_or (checked_add (po_attempt_count op) 1) PoAttemptCountExhausted) (\<lambda>next_attempt.
     and_then (po_apply_transition op PoDispatching now) (\<lambda>op'.
     Inr (op'\<lparr>po_attempt_count := next_attempt\<rparr>)))))"

definition po_succeed ::
  "privileged_operation \<Rightarrow> unix_millis \<Rightarrow> privileged_operation_error + privileged_operation" where
  "po_succeed op now = po_move_to op PoSucceeded now"

definition po_fail ::
  "privileged_operation \<Rightarrow> unix_millis \<Rightarrow> privileged_operation_error + privileged_operation" where
  "po_fail op now = po_move_to op PoFailed now"

definition po_schedule_retry ::
  "privileged_operation \<Rightarrow> unix_millis \<Rightarrow> privileged_operation_error + privileged_operation" where
  "po_schedule_retry op now =
     and_then (po_validate_edge op PoRetryPending now) (\<lambda>_.
     and_then (fail_if (po_retry_class op \<noteq> RetrySafe) (PoRetryPolicyViolation (po_kind op))) (\<lambda>_.
     po_apply_transition op PoRetryPending now))"

definition po_interrupt ::
  "privileged_operation \<Rightarrow> unix_millis \<Rightarrow> privileged_operation_error + privileged_operation" where
  "po_interrupt op now =
     (case po_retry_class op of
        RetrySafe \<Rightarrow> po_schedule_retry op now
      | RetryNonIdempotent \<Rightarrow> po_move_to op PoInterruptedNeedsReview now)"

definition po_review ::
  "privileged_operation \<Rightarrow> privileged_operation_review \<Rightarrow> unix_millis \<Rightarrow>
   privileged_operation_error + privileged_operation" where
  "po_review op disposition now =
     and_then (po_move_to op PoReviewed now) (\<lambda>op'. Inr (op'\<lparr>po_review_of := Some disposition\<rparr>))"

definition po_cancel ::
  "privileged_operation \<Rightarrow> unix_millis \<Rightarrow> privileged_operation_error + privileged_operation" where
  "po_cancel op now = po_move_to op PoCancelled now"

definition po_expected_revision :: "privileged_operation \<Rightarrow> u64 option" where
  "po_expected_revision op =
     (let n = po_attempt_count op;
          doubled = map_option (\<lambda>v. ucast v :: u64) (checked_mul n 2) in
      case po_state op of
        PoPrepared \<Rightarrow> if n \<noteq> 0 \<or> po_updated_at op \<noteq> po_created_at op then None else Some 0
      | PoCancelled \<Rightarrow> if n = 0 then Some 1 else None
      | PoDispatching \<Rightarrow>
          (case checked_mul n 2 of
             None \<Rightarrow> None
           | Some v \<Rightarrow> map_option (\<lambda>w. ucast w) (checked_sub v 1))
      | PoRetryPending \<Rightarrow> if po_retry_class op \<noteq> RetrySafe \<or> n = 0 then None else doubled
      | PoSucceeded \<Rightarrow> if n = 0 then None else doubled
      | PoFailed \<Rightarrow> if n = 0 then None else doubled
      | PoInterruptedNeedsReview \<Rightarrow>
          if po_retry_class op = RetryNonIdempotent \<and> n = 1 then Some 2 else None
      | PoReviewed \<Rightarrow>
          if po_retry_class op = RetryNonIdempotent \<and> n = 1 then Some 3 else None)"

definition po_validate_snapshot :: "privileged_operation \<Rightarrow> bool" where
  "po_validate_snapshot op \<longleftrightarrow>
     \<not> (target_operation_kind (po_target op) \<noteq> po_kind op
        \<or> \<not> target_is_valid (po_target op)
        \<or> pl_supersedes_id (po_links op) = Some (po_id op)
        \<or> (pl_run_id (po_links op) = None \<and>
            (pl_effect_id (po_links op) \<noteq> None \<or> pl_approval_id (po_links op) \<noteq> None))
        \<or> pa_expires_at (po_authority op) < po_created_at op
        \<or> po_updated_at op < po_created_at op
        \<or> (po_state op = PoDispatching \<and> pa_expires_at (po_authority op) < po_updated_at op)) \<and>
     po_expected_revision op = Some (po_revision op) \<and>
     (po_state op = PoReviewed \<longleftrightarrow> po_review_of op \<noteq> None)"

definition po_restore ::
  "privileged_operation \<Rightarrow> privileged_operation_error + privileged_operation" where
  "po_restore snapshot =
     (if po_validate_snapshot snapshot then Inr snapshot else Inl PoInvalidPersistedState)"

section \<open>Histories\<close>

datatype po_op =
    OpDispatch | OpSucceed | OpFail | OpScheduleRetry | OpInterrupt
  | OpReview privileged_operation_review | OpCancel

fun po_apply ::
  "po_op \<Rightarrow> privileged_operation \<Rightarrow> unix_millis \<Rightarrow> privileged_operation_error + privileged_operation"
where
  "po_apply OpDispatch op now = po_dispatch op now"
| "po_apply OpSucceed op now = po_succeed op now"
| "po_apply OpFail op now = po_fail op now"
| "po_apply OpScheduleRetry op now = po_schedule_retry op now"
| "po_apply OpInterrupt op now = po_interrupt op now"
| "po_apply (OpReview r) op now = po_review op r now"
| "po_apply OpCancel op now = po_cancel op now"

inductive po_init :: "privileged_operation \<Rightarrow> bool" where
  prepare: "po_prepare i intent now = Inr op \<Longrightarrow> po_init op"

inductive po_step :: "privileged_operation \<Rightarrow> privileged_operation \<Rightarrow> bool" where
  apply_op: "po_apply c op now = Inr op' \<Longrightarrow> po_step op op'"

inductive po_reachable :: "privileged_operation \<Rightarrow> bool" where
  start: "po_init op \<Longrightarrow> po_reachable op"
| more: "po_reachable op \<Longrightarrow> po_step op op' \<Longrightarrow> po_reachable op'"

definition po_frame where
  "po_frame op = (po_id op, po_kind op, po_target op, po_payload_digest op, po_authority op,
                  po_idempotency op, po_links op, po_created_at op)"

lemma po_validate_edge_Inr [result_simps]:
  "po_validate_edge op next now = Inr u \<longleftrightarrow>
     po_state_permits (po_state op) next \<and> po_updated_at op \<le> now \<and> po_revision op \<noteq> - 1"
  by (auto simp: po_validate_edge_def result_simps)

lemma po_apply_transition_Inr [result_simps]:
  "po_apply_transition op next now = Inr op' \<longleftrightarrow>
     po_revision op \<noteq> - 1 \<and>
     op' = op\<lparr>po_revision := po_revision op + 1, po_state := next, po_updated_at := now\<rparr>"
  by (auto simp: po_apply_transition_def result_simps checked_add_one split: if_splits)

lemma po_move_to_Inr [result_simps]:
  "po_move_to op next now = Inr op' \<longleftrightarrow>
     po_state_permits (po_state op) next \<and> po_updated_at op \<le> now \<and> po_revision op \<noteq> - 1 \<and>
     op' = op\<lparr>po_revision := po_revision op + 1, po_state := next, po_updated_at := now\<rparr>"
  by (auto simp: po_move_to_def result_simps)

lemma po_dispatch_Inr [result_simps]:
  "po_dispatch op now = Inr op' \<longleftrightarrow>
     po_state op \<in> {PoPrepared, PoRetryPending} \<and> po_updated_at op \<le> now \<and>
     now \<le> pa_expires_at (po_authority op) \<and> po_revision op \<noteq> - 1 \<and> po_attempt_count op \<noteq> - 1 \<and>
     op' = op\<lparr>po_revision := po_revision op + 1, po_state := PoDispatching, po_updated_at := now,
              po_attempt_count := po_attempt_count op + 1\<rparr>"
  by (cases "po_state op")
     (auto simp: po_dispatch_def result_simps checked_add_one_u32 split: if_splits)

lemma po_schedule_retry_Inr [result_simps]:
  "po_schedule_retry op now = Inr op' \<longleftrightarrow>
     po_retry_class op = RetrySafe \<and> po_move_to op PoRetryPending now = Inr op'"
  by (auto simp: po_schedule_retry_def result_simps)

lemma po_review_Inr [result_simps]:
  "po_review op r now = Inr op' \<longleftrightarrow>
     (\<exists>op''. po_move_to op PoReviewed now = Inr op'' \<and> op' = op''\<lparr>po_review_of := Some r\<rparr>)"
  by (auto simp: po_review_def result_simps)

lemmas po_simple_ops = po_succeed_def po_fail_def po_cancel_def

lemma retry_class_cases: "retry_class k = RetrySafe \<or> retry_class k = RetryNonIdempotent"
  by (cases "retry_class k") simp_all

lemma po_interrupt_Inr [result_simps]:
  "po_interrupt op now = Inr op' \<longleftrightarrow>
     po_move_to op (if po_retry_class op = RetrySafe then PoRetryPending else PoInterruptedNeedsReview)
       now = Inr op'"
  by (cases "po_retry_class op") (auto simp: po_interrupt_def po_schedule_retry_Inr)

text \<open>Every step is one of three shapes: a dispatch, a review, or a plain edge.\<close>

lemma po_step_cases:
  assumes "po_step op op'"
  obtains (dispatch) now where "po_dispatch op now = Inr op'"
    | (edge) st now where "po_move_to op st now = Inr op'" "st \<noteq> PoDispatching"
        "st \<noteq> PoReviewed" "st = PoRetryPending \<Longrightarrow> po_retry_class op = RetrySafe"
        "st = PoInterruptedNeedsReview \<Longrightarrow> po_retry_class op = RetryNonIdempotent"
    | (review) r now where "po_review op r now = Inr op'"
proof -
  from assms obtain c now where "po_apply c op now = Inr op'"
    by (auto elim: po_step.cases)
  then show thesis
  proof (cases c)
    case OpInterrupt
    with \<open>po_apply c op now = Inr op'\<close> show thesis
      using edge [of "if po_retry_class op = RetrySafe then PoRetryPending else PoInterruptedNeedsReview" now]
      by (cases "po_retry_class op") (simp_all add: po_interrupt_Inr)
  qed (auto simp: po_simple_ops po_schedule_retry_Inr intro: dispatch review edge)
qed

interpretation po_life: lifecycle po_step po_revision po_updated_at po_frame
    po_state po_state_permits po_state_is_terminal
proof unfold_locales
  fix s t
  assume "po_state_is_terminal s"
  then show "\<not> po_state_permits s t" by (cases s) simp_all
qed (auto elim!: po_step_cases simp: result_simps sat_succ_eq po_frame_def)

section \<open>The shape of reachable journal rows\<close>

definition po_static_ok :: "privileged_operation \<Rightarrow> bool" where
  "po_static_ok op \<longleftrightarrow>
     target_operation_kind (po_target op) = po_kind op \<and> target_is_valid (po_target op) \<and>
     pl_supersedes_id (po_links op) \<noteq> Some (po_id op) \<and>
     (pl_run_id (po_links op) = None \<longrightarrow>
        pl_effect_id (po_links op) = None \<and> pl_approval_id (po_links op) = None) \<and>
     po_created_at op \<le> pa_expires_at (po_authority op)"

fun po_counts_ok :: "privileged_operation_state \<Rightarrow> privileged_retry_class \<Rightarrow> nat \<Rightarrow> nat \<Rightarrow> bool" where
  "po_counts_ok PoPrepared c n r = (n = 0 \<and> r = 0)"
| "po_counts_ok PoCancelled c n r = (n = 0 \<and> r = 1)"
| "po_counts_ok PoDispatching c n r = (1 \<le> n \<and> Suc r = 2 * n)"
| "po_counts_ok PoRetryPending c n r = (1 \<le> n \<and> r = 2 * n \<and> c = RetrySafe)"
| "po_counts_ok PoSucceeded c n r = (1 \<le> n \<and> r = 2 * n)"
| "po_counts_ok PoFailed c n r = (1 \<le> n \<and> r = 2 * n)"
| "po_counts_ok PoInterruptedNeedsReview c n r = (n = 1 \<and> r = 2 \<and> c = RetryNonIdempotent)"
| "po_counts_ok PoReviewed c n r = (n = 1 \<and> r = 3 \<and> c = RetryNonIdempotent)"

definition po_shape :: "privileged_operation \<Rightarrow> bool" where
  "po_shape op \<longleftrightarrow>
     po_static_ok op \<and> po_created_at op \<le> po_updated_at op \<and>
     (po_state op = PoPrepared \<longrightarrow> po_updated_at op = po_created_at op) \<and>
     (po_state op = PoDispatching \<longrightarrow> po_updated_at op \<le> pa_expires_at (po_authority op)) \<and>
     (po_state op = PoReviewed \<longleftrightarrow> po_review_of op \<noteq> None) \<and>
     po_counts_ok (po_state op) (po_retry_class op) (unat (po_attempt_count op))
       (unat (po_revision op)) \<and>
     (po_retry_class op = RetryNonIdempotent \<longrightarrow> unat (po_attempt_count op) \<le> 1)"

lemma po_shape_init: "po_init op \<Longrightarrow> po_shape op"
  by (auto elim!: po_init.cases
        simp: po_prepare_def Let_def result_simps po_shape_def po_static_ok_def)

lemma unat_succ_u32: "(a :: u32) \<noteq> - 1 \<Longrightarrow> unat (a + 1) = Suc (unat a)"
  using unat_eq_max_iff [of a] by (simp add: unat_word_ariths)

lemma po_shape_dispatch:
  assumes "po_shape op" and "po_dispatch op now = Inr op'"
  shows "po_shape op'"
  using assms
  by (auto simp: po_shape_def po_static_ok_def po_retry_class_def po_dispatch_Inr unat_succ
        unat_succ_u32)

lemma po_shape_edge:
  assumes "po_shape op" and "po_move_to op s now = Inr op'"
    and "s \<noteq> PoDispatching" "s \<noteq> PoReviewed"
    and "s = PoRetryPending \<Longrightarrow> po_retry_class op = RetrySafe"
    and "s = PoInterruptedNeedsReview \<Longrightarrow> po_retry_class op = RetryNonIdempotent"
  shows "po_shape op'"
  using assms
  by (cases "po_state op")
     (auto simp: po_shape_def po_static_ok_def po_retry_class_def po_move_to_Inr unat_succ)

lemma po_shape_review:
  assumes "po_shape op" and "po_review op r now = Inr op'"
  shows "po_shape op'"
  using assms
  by (cases "po_state op")
     (auto simp: po_shape_def po_static_ok_def po_retry_class_def result_simps unat_succ)

lemma po_shape_step: "po_shape op \<Longrightarrow> po_step op op' \<Longrightarrow> po_shape op'"
  by (erule po_step_cases)
     (auto intro: po_shape_dispatch po_shape_edge po_shape_review)

interpretation po_rows: restorable po_init po_step po_shape
  by unfold_locales (auto intro: po_shape_init po_shape_step)

lemma po_reachable_iff_steps: "po_reachable op \<longleftrightarrow> (\<exists>op0. po_init op0 \<and> po_step\<^sup>*\<^sup>* op0 op)"
proof
  show "po_reachable op \<Longrightarrow> \<exists>op0. po_init op0 \<and> po_step\<^sup>*\<^sup>* op0 op"
    by (induction rule: po_reachable.induct) (blast intro: rtranclp.rtrancl_into_rtrancl)+
next
  assume "\<exists>op0. po_init op0 \<and> po_step\<^sup>*\<^sup>* op0 op"
  then obtain op0 where "po_step\<^sup>*\<^sup>* op0 op" "po_init op0" by blast
  then show "po_reachable op"
    by (induction rule: rtranclp_induct) (auto intro: po_reachable.intros)
qed

lemma po_reachable_shape: "po_reachable op \<Longrightarrow> po_shape op"
  by (auto simp: po_reachable_iff_steps intro: po_rows.reachable_accepted)

text \<open>Conversely every row of that shape is produced by some history.\<close>

definition po_at ::
  "privileged_operation \<Rightarrow> privileged_operation_state \<Rightarrow> nat \<Rightarrow> nat \<Rightarrow> unix_millis \<Rightarrow> privileged_operation"
where
  "po_at op s r n t = op\<lparr>po_state := s, po_review_of := None, po_attempt_count := of_nat n,
                         po_revision := of_nat r, po_updated_at := t\<rparr>"

lemma of_nat_u64_not_max: "k < 2 ^ 64 - 1 \<Longrightarrow> (of_nat k :: u64) \<noteq> - 1"
proof
  assume k: "k < 2 ^ 64 - 1" and "(of_nat k :: u64) = - 1"
  then have "unat (of_nat k :: u64) = 2 ^ 64 - 1"
    using unat_minus_one_word_max [where 'a = 64] by simp
  moreover have "unat (of_nat k :: u64) = k"
    using k by (simp add: unat_of_nat)
  ultimately show False using k by simp
qed

lemma of_nat_u32_not_max: "k < 2 ^ 32 - 1 \<Longrightarrow> (of_nat k :: u32) \<noteq> - 1"
proof
  assume k: "k < 2 ^ 32 - 1" and "(of_nat k :: u32) = - 1"
  then have "unat (of_nat k :: u32) = 2 ^ 32 - 1"
    using unat_minus_one_word_max [where 'a = 32] by simp
  moreover have "unat (of_nat k :: u32) = k"
    using k by (simp add: unat_of_nat)
  ultimately show False using k by simp
qed

lemma po_reachable_prepared:
  assumes "po_static_ok op"
  shows "po_reachable (po_at op PoPrepared 0 0 (po_created_at op))"
proof -
  let ?intent = "\<lparr>in_kind = po_kind op, in_target = po_target op,
      in_payload_digest = po_payload_digest op, in_authority = po_authority op,
      in_idempotency = po_idempotency op, in_links = po_links op\<rparr>"
  have "po_prepare (po_id op) ?intent (po_created_at op)
        = Inr (po_at op PoPrepared 0 0 (po_created_at op))"
    using assms
    by (cases "pl_run_id (po_links op)")
       (simp_all add: po_prepare_def Let_def po_static_ok_def po_at_def fail_if_def not_less)
  then show ?thesis by (blast intro: po_reachable.start po_init.prepare)
qed

lemma po_step_apply: "po_apply c op now = Inr op' \<Longrightarrow> po_reachable op \<Longrightarrow> po_reachable op'"
  by (blast intro: po_reachable.more po_step.apply_op)

lemma po_reachable_dispatching:
  assumes "po_static_ok op" and "po_retry_class op = RetrySafe \<or> n = 0" and "Suc n < 2 ^ 32"
    and "po_created_at op \<le> t" and "t \<le> pa_expires_at (po_authority op)"
  shows "po_reachable (po_at op PoDispatching (2 * n + 1) (Suc n) t)"
  using assms(2-5)
proof (induction n arbitrary: t)
  case 0
  have "po_apply OpDispatch (po_at op PoPrepared 0 0 (po_created_at op)) t
        = Inr (po_at op PoDispatching 1 1 t)"
    using 0 by (simp add: po_dispatch_Inr po_at_def)
  from po_step_apply [OF this po_reachable_prepared [OF assms(1)]] show ?case by simp
next
  case (Suc n)
  let ?t0 = "po_created_at op"
  have "?t0 \<le> pa_expires_at (po_authority op)"
    using assms(1) by (simp add: po_static_ok_def)
  with Suc have "po_reachable (po_at op PoDispatching (2 * n + 1) (Suc n) ?t0)"
    by simp
  moreover have "po_apply OpScheduleRetry (po_at op PoDispatching (2 * n + 1) (Suc n) ?t0) ?t0
        = Inr (po_at op PoRetryPending (2 * n + 2) (Suc n) ?t0)"
    using Suc.prems of_nat_u64_not_max [of "2 * n + 1"]
    by (simp add: po_schedule_retry_Inr po_move_to_Inr po_at_def po_retry_class_def add.commute)
  ultimately have "po_reachable (po_at op PoRetryPending (2 * n + 2) (Suc n) ?t0)"
    by (blast intro: po_step_apply)
  moreover have "po_apply OpDispatch (po_at op PoRetryPending (2 * n + 2) (Suc n) ?t0) t
        = Inr (po_at op PoDispatching (2 * Suc n + 1) (Suc (Suc n)) t)"
    using Suc.prems of_nat_u64_not_max [of "2 * n + 2"] of_nat_u32_not_max [of "Suc n"]
    by (simp add: po_dispatch_Inr po_at_def add.commute add.left_commute)
  ultimately show ?case by (blast intro: po_step_apply)
qed

lemma po_reachable_settled:
  assumes "po_static_ok op" and "po_retry_class op = RetrySafe \<or> n = 0" and "Suc n < 2 ^ 32"
    and "po_created_at op \<le> t"
    and "c = OpSucceed \<and> s = PoSucceeded \<or> c = OpFail \<and> s = PoFailed \<or>
         c = OpScheduleRetry \<and> s = PoRetryPending \<and> po_retry_class op = RetrySafe \<or>
         c = OpInterrupt \<and> s = PoInterruptedNeedsReview \<and> po_retry_class op = RetryNonIdempotent"
  shows "po_reachable (po_at op s (2 * n + 2) (Suc n) t)"
proof -
  let ?t0 = "po_created_at op"
  have "?t0 \<le> pa_expires_at (po_authority op)"
    using assms(1) by (simp add: po_static_ok_def)
  with assms have "po_reachable (po_at op PoDispatching (2 * n + 1) (Suc n) ?t0)"
    by (intro po_reachable_dispatching) auto
  moreover have "po_apply c (po_at op PoDispatching (2 * n + 1) (Suc n) ?t0) t
        = Inr (po_at op s (2 * n + 2) (Suc n) t)"
    using assms(3-5) of_nat_u64_not_max [of "2 * n + 1"]
    by (auto simp: po_simple_ops po_schedule_retry_Inr po_interrupt_Inr po_move_to_Inr po_at_def
          po_retry_class_def add.commute)
  ultimately show ?thesis by (blast intro: po_step_apply)
qed

lemma po_reachable_reviewed:
  assumes "po_static_ok op" and "po_retry_class op = RetryNonIdempotent" and "po_created_at op \<le> t"
  shows "po_reachable ((po_at op PoReviewed 3 1 t)\<lparr>po_review_of := Some r\<rparr>)"
proof -
  have "po_reachable (po_at op PoInterruptedNeedsReview (2 * 0 + 2) (Suc 0) (po_created_at op))"
    using assms by (intro po_reachable_settled [where c = OpInterrupt]) auto
  then have "po_reachable (po_at op PoInterruptedNeedsReview 2 1 (po_created_at op))"
    by (simp only: One_nat_def mult_0_right add_0)
  moreover have "po_apply (OpReview r) (po_at op PoInterruptedNeedsReview 2 1 (po_created_at op)) t
        = Inr ((po_at op PoReviewed 3 1 t)\<lparr>po_review_of := Some r\<rparr>)"
    using assms(3) by (simp add: po_review_Inr po_move_to_Inr po_at_def)
  ultimately show ?thesis by (blast intro: po_step_apply)
qed

lemma po_reachable_cancelled:
  assumes "po_static_ok op" and "po_created_at op \<le> t"
  shows "po_reachable (po_at op PoCancelled 1 0 t)"
proof -
  have "po_apply OpCancel (po_at op PoPrepared 0 0 (po_created_at op)) t
        = Inr (po_at op PoCancelled 1 0 t)"
    using assms(2) by (simp add: po_simple_ops po_move_to_Inr po_at_def)
  from po_step_apply [OF this po_reachable_prepared [OF assms(1)]] show ?thesis .
qed

lemma po_at_self:
  "unat (po_attempt_count op) = n \<Longrightarrow> unat (po_revision op) = r \<Longrightarrow> po_review_of op = None \<Longrightarrow>
   po_at op (po_state op) r n (po_updated_at op) = op"
  by (auto simp: po_at_def)

lemma po_shape_facts:
  assumes "po_shape op"
  shows "po_static_ok op" and "po_created_at op \<le> po_updated_at op"
    and "po_retry_class op = RetrySafe \<or> unat (po_attempt_count op) \<le> 1"
    and "unat (po_attempt_count op) < 2 ^ 32"
  using assms retry_class_cases [of "po_kind op"] unsigned_less [of "po_attempt_count op", where 'a = nat]
  by (auto simp: po_shape_def po_retry_class_def)

lemma po_shape_settled_reachable:
  assumes "po_shape op" and "po_review_of op = None"
    and n: "1 \<le> unat (po_attempt_count op)" "unat (po_revision op) = 2 * unat (po_attempt_count op)"
    and c: "c = OpSucceed \<and> po_state op = PoSucceeded \<or> c = OpFail \<and> po_state op = PoFailed \<or>
       c = OpScheduleRetry \<and> po_state op = PoRetryPending \<and> po_retry_class op = RetrySafe \<or>
       c = OpInterrupt \<and> po_state op = PoInterruptedNeedsReview \<and>
         po_retry_class op = RetryNonIdempotent"
  shows "po_reachable op"
proof -
  have "unat (po_attempt_count op) \<noteq> 0" using n(1) by linarith
  then obtain k where k: "unat (po_attempt_count op) = Suc k"
    by (cases "unat (po_attempt_count op)") auto
  have "po_reachable (po_at op (po_state op) (2 * k + 2) (Suc k) (po_updated_at op))"
    using po_shape_facts [OF assms(1)] k c by (intro po_reachable_settled [where c = c]) auto
  then show ?thesis using po_at_self [of op "Suc k" "2 * k + 2"] assms(2) n k by simp
qed

lemma po_shape_dispatching_reachable:
  assumes "po_shape op" and "po_state op = PoDispatching"
  shows "po_reachable op"
proof -
  from assms obtain k where k: "unat (po_attempt_count op) = Suc k"
      and r: "unat (po_revision op) = 2 * k + 1"
    by (cases "unat (po_attempt_count op)") (auto simp: po_shape_def)
  have "po_reachable (po_at op PoDispatching (2 * k + 1) (Suc k) (po_updated_at op))"
    using assms po_shape_facts [OF assms(1)] k
    by (intro po_reachable_dispatching) (auto simp: po_shape_def)
  then show ?thesis
    using po_at_self [of op "Suc k" "2 * k + 1"] k r assms by (auto simp: po_shape_def)
qed

lemma po_shape_reviewed_reachable:
  assumes "po_shape op" and "po_state op = PoReviewed"
  shows "po_reachable op"
proof -
  from assms obtain r where r: "po_review_of op = Some r" "po_retry_class op = RetryNonIdempotent"
    "unat (po_attempt_count op) = 1" "unat (po_revision op) = 3"
    by (auto simp: po_shape_def)
  then have "(po_at op PoReviewed 3 1 (po_updated_at op))\<lparr>po_review_of := Some r\<rparr> = op"
    using assms(2) by (auto simp: po_at_def intro!: privileged_operation.equality
        word_unat_eq_iff [THEN iffD2])
  then show ?thesis
    using po_reachable_reviewed [of op "po_updated_at op" r] r po_shape_facts [OF assms(1)] by simp
qed

lemma po_shape_reachable:
  assumes "po_shape op"
  shows "po_reachable op"
proof -
  have counts: "po_counts_ok (po_state op) (po_retry_class op) (unat (po_attempt_count op))
        (unat (po_revision op))"
    and rv: "po_state op = PoReviewed \<longleftrightarrow> po_review_of op \<noteq> None"
    using assms by (auto simp: po_shape_def)
  note facts = po_shape_facts [OF assms] and settled = po_shape_settled_reachable [OF assms]
  show ?thesis
  proof (cases "po_state op")
    case PoPrepared
    with assms counts rv po_reachable_prepared [OF facts(1)] po_at_self [of op 0 0] show ?thesis
      by (simp add: po_shape_def)
  next
    case PoCancelled
    with counts rv po_reachable_cancelled [OF facts(1,2)] po_at_self [of op 0 1] show ?thesis
      by simp
  next
    case PoRetryPending
    with counts rv settled [of OpScheduleRetry] show ?thesis by simp
  next
    case PoSucceeded
    with counts rv settled [of OpSucceed] show ?thesis by simp
  next
    case PoFailed
    with counts rv settled [of OpFail] show ?thesis by simp
  next
    case PoInterruptedNeedsReview
    with counts rv settled [of OpInterrupt] show ?thesis by simp
  qed (use assms po_shape_dispatching_reachable po_shape_reviewed_reachable in blast)+
qed

lemma po_reachable_iff_shape: "po_reachable op \<longleftrightarrow> po_shape op"
  using po_reachable_shape po_shape_reachable by blast

section \<open>The rehydration check\<close>

lemma unat_ucast_u64: "unat (ucast (a :: u32) :: u64) = unat a"
  by transfer (simp add: min_def)

lemma doubled_attempts:
  assumes "unat (n :: u32) < 2 ^ 31"
  shows "checked_mul n 2 = Some (n * 2)" and "unat (n * 2) = 2 * unat n"
    and "unat (ucast (n * 2) :: u64) = 2 * unat n"
    and "n \<noteq> 0 \<Longrightarrow> checked_sub (n * 2) 1 = Some (n * 2 - 1)"
    and "n \<noteq> 0 \<Longrightarrow> unat (ucast (n * 2 - 1) :: u64) = 2 * unat n - 1"
proof -
  show two: "unat (n * 2) = 2 * unat n"
    using assms by (simp add: unat_word_ariths)
  show "checked_mul n 2 = Some (n * 2)"
    using assms by (simp add: checked_mul_def)
  show "unat (ucast (n * 2) :: u64) = 2 * unat n"
    using two by (simp add: unat_ucast_u64)
  assume "n \<noteq> 0"
  then have "1 \<le> n * 2" using two by (simp add: word_le_nat_alt unat_gt_0 Suc_le_eq)
  then show "checked_sub (n * 2) 1 = Some (n * 2 - 1)" by (simp add: checked_sub_def)
  from \<open>1 \<le> n * 2\<close> have "unat (n * 2 - 1) = 2 * unat n - 1"
    using two by (simp add: unat_sub)
  then show "unat (ucast (n * 2 - 1) :: u64) = 2 * unat n - 1"
    by (simp add: unat_ucast_u64)
qed

lemma po_expected_revision_counts:
  assumes "unat (po_attempt_count op) < 2 ^ 31"
  shows "po_expected_revision op = Some (po_revision op) \<longleftrightarrow>
     po_counts_ok (po_state op) (po_retry_class op) (unat (po_attempt_count op))
       (unat (po_revision op)) \<and>
     (po_state op = PoPrepared \<longrightarrow> po_updated_at op = po_created_at op)"
proof -
  note d = doubled_attempts [OF assms]
  have rc: "po_retry_class op = RetryNonIdempotent \<longleftrightarrow> po_retry_class op \<noteq> RetrySafe"
    using retry_class_cases [of "po_kind op"] by (auto simp: po_retry_class_def)
  show ?thesis
  proof (cases "po_attempt_count op = 0")
    case True
    then show ?thesis
      by (cases "po_state op")
         (auto simp: po_expected_revision_def checked_mul_def checked_sub_def
            word_unat_eq_iff [of _ "po_revision op"])
  next
    case False
    then have "0 < unat (po_attempt_count op)" by (simp add: unat_gt_0)
    then show ?thesis
      using d(4,5) [OF False]
      by (cases "po_state op")
         (auto simp: po_expected_revision_def Let_def d(1-3) rc False
            word_unat_eq_iff [of _ "po_revision op"] word_unat_eq_iff [of "po_attempt_count op" 1])
  qed
qed

definition po_run ::
  "privileged_operation \<Rightarrow> (po_op \<times> unix_millis) list \<Rightarrow> privileged_operation \<times> nat" where
  "po_run op calls = fold (\<lambda>(c, now) (op, n).
     case po_apply c op now of
       Inl _ \<Rightarrow> (op, n)
     | Inr op' \<Rightarrow> (op', if c = OpDispatch then Suc n else n)) calls (op, 0)"

definition sample_operation ::
  "privileged_operation_target \<Rightarrow> privileged_operation_state \<Rightarrow> u64 \<Rightarrow> u32 \<Rightarrow> privileged_operation" where
  "sample_operation target st r n =
     \<lparr>po_id = PrivilegedOperationId (lit ''op''), po_kind = target_operation_kind target,
      po_target = target, po_payload_digest = PayloadDigest (replicate 32 0),
      po_authority = \<lparr>pa_grant_id = AuthorityGrantId (lit ''grant-0123456789''), pa_expires_at = 10\<rparr>,
      po_idempotency = \<lparr>pi_key = PrivilegedIdempotencyKey (lit ''key-0123456789ab''),
                        pi_request_digest = RequestDigest (replicate 32 0)\<rparr>,
      po_links = \<lparr>pl_run_id = None, pl_effect_id = None, pl_approval_id = None,
                  pl_supersedes_id = None\<rparr>,
      po_state = st, po_review_of = None, po_attempt_count = n, po_revision = r,
      po_created_at = 5, po_updated_at = 5\<rparr>"

lemma po_validate_snapshot_shape:
  assumes "unat (po_attempt_count op) < 2 ^ 31"
    and "po_retry_class op = RetrySafe \<or> unat (po_attempt_count op) \<le> 1"
  shows "po_validate_snapshot op \<longleftrightarrow> po_shape op"
  using assms(2)
  by (auto simp: po_validate_snapshot_def po_expected_revision_counts [OF assms(1)] po_shape_def
        po_static_ok_def not_less)

text \<open>C9. Rehydration is exact: for every journal row whose attempt count stays below the
  arithmetic bound of the check and respects the retry class, \<open>restore\<close> returns the row unchanged
  when some history of the aggregate's own operations produces it, and
  \<open>InvalidPersistedState\<close> when none does.\<close>

theorem po_restore_exact:
  assumes "unat (po_attempt_count op) < 2 ^ 31"
    and "po_retry_class op = RetrySafe \<or> unat (po_attempt_count op) \<le> 1"
  shows "po_restore op = (if po_reachable op then Inr op else Inl PoInvalidPersistedState)"
  using po_validate_snapshot_shape [OF assms] by (simp add: po_restore_def po_reachable_iff_shape)

theorem po_restore_exact_witness:
  "po_reachable (sample_operation (TargetRunner (PrivilegedResourceId (lit ''vm''))) PoDispatching 5 3)
   \<and> \<not> po_reachable (sample_operation (TargetRunner (PrivilegedResourceId (lit ''vm''))) PoDispatching 4 3)"
  using po_restore_exact
          [of "sample_operation (TargetRunner (PrivilegedResourceId (lit ''vm''))) PoDispatching 5 3"]
    po_restore_exact
          [of "sample_operation (TargetRunner (PrivilegedResourceId (lit ''vm''))) PoDispatching 4 3"]
  by (simp add: sample_operation_def po_retry_class_def po_restore_def po_validate_snapshot_def
        po_expected_revision_def checked_mul_def checked_sub_def Let_def split: if_splits)

lemma po_attempts_step:
  "po_apply c op now = Inr op' \<Longrightarrow>
   unat (po_attempt_count op') = unat (po_attempt_count op) + (if c = OpDispatch then 1 else 0)"
  by (cases c) (auto simp: po_simple_ops result_simps unat_succ_u32)

lemma po_run_reachable:
  assumes "po_reachable op"
  shows "po_reachable (fst (po_run op calls)) \<and>
    unat (po_attempt_count (fst (po_run op calls))) = unat (po_attempt_count op) + snd (po_run op calls) \<and>
    po_frame (fst (po_run op calls)) = po_frame op"
proof (induction calls rule: rev_induct)
  case Nil
  with assms show ?case by (simp add: po_run_def)
next
  case (snoc call calls)
  obtain c now where call: "call = (c, now)" by (cases call)
  show ?case
  proof (cases "po_apply c (fst (po_run op calls)) now")
    case (Inl e)
    with snoc.IH call show ?thesis by (simp add: po_run_def split_beta)
  next
    case (Inr op')
    then have "po_frame op' = po_frame (fst (po_run op calls))"
      by (blast intro: po_life.step_ident po_step.apply_op)
    with snoc.IH Inr call po_step_apply [OF Inr] po_attempts_step [OF Inr] show ?thesis
      by (simp add: po_run_def split_beta)
  qed
qed

text \<open>C10. A non-idempotent privileged operation reaches its executor at most once: whatever calls
  the journal makes on a prepared operation, in any order and at any times, at most one dispatch
  succeeds.\<close>

theorem po_non_idempotent_dispatched_once:
  assumes "po_prepare i intent t0 = Inr op" and "po_retry_class op = RetryNonIdempotent"
  shows "snd (po_run op calls) \<le> 1"
proof -
  have "po_reachable op" using assms(1) by (blast intro: po_reachable.start po_init.prepare)
  from po_run_reachable [OF this, of calls] assms(2)
  have "po_shape (fst (po_run op calls))" "po_retry_class (fst (po_run op calls)) = RetryNonIdempotent"
    "snd (po_run op calls) \<le> unat (po_attempt_count (fst (po_run op calls)))"
    by (auto simp: po_reachable_iff_shape po_frame_def po_retry_class_def)
  then show ?thesis by (simp add: po_shape_def)
qed

theorem po_non_idempotent_dispatched_once_witness:
  "let op = sample_operation (TargetCatalog (PrivilegedResourceId (lit ''vm''))) PoPrepared 0 0 in
   snd (po_run op [(OpDispatch, 6), (OpInterrupt, 7), (OpDispatch, 8)]) \<le> 1"
proof -
  let ?op = "sample_operation (TargetCatalog (PrivilegedResourceId (lit ''vm''))) PoPrepared 0 0"
  have "po_prepare (po_id ?op)
      \<lparr>in_kind = po_kind ?op, in_target = po_target ?op, in_payload_digest = po_payload_digest ?op,
       in_authority = po_authority ?op, in_idempotency = po_idempotency ?op, in_links = po_links ?op\<rparr> 5
      = Inr ?op"
    by (simp add: sample_operation_def po_prepare_def)
  from po_non_idempotent_dispatched_once [OF this] show ?thesis
    by (simp add: sample_operation_def po_retry_class_def Let_def)
qed

text \<open>C24. The check is stricter than the lifecycle at the top of the attempt counter: a
  retry-safe operation dispatched \<open>2 ^ 31\<close> times is produced by the aggregate's own operations,
  yet \<open>restore\<close> rejects it, because it doubles the 32-bit attempt count in 32 bits.\<close>

theorem po_restore_rejects_reachable:
  "\<exists>op. po_reachable op \<and> unat (po_attempt_count op) = 2 ^ 31 \<and>
        po_restore op = Inl PoInvalidPersistedState"
proof -
  let ?op = "sample_operation (TargetRunner (PrivilegedResourceId (lit ''vm''))) PoDispatching
               4294967295 2147483648"
  have "po_shape ?op"
    by (simp add: sample_operation_def po_shape_def po_static_ok_def po_retry_class_def)
  moreover have "po_expected_revision ?op = None"
    by (simp add: sample_operation_def po_expected_revision_def checked_mul_def)
  ultimately have "po_reachable ?op" "po_restore ?op = Inl PoInvalidPersistedState"
    by (simp_all add: po_reachable_iff_shape po_restore_def po_validate_snapshot_def)
  moreover have "unat (po_attempt_count ?op) = 2 ^ 31"
    by (simp add: sample_operation_def)
  ultimately show ?thesis by blast
qed


end
