(* ===== verification/Workspace.thy ===== *)
theory Workspace
  imports Aggregates Ids
begin

text \<open>
  Workspace entities (grok-domain, \<open>workspace.rs\<close>): projects, conversation threads with their
  fork ancestry, messages with their derivation records, and artifacts with the portable
  file-name rule. Lemmas: which persisted rows the \<open>restore\<close> constructors accept compared with
  what the operations produce, the bound on fork depth, and immutability of derived messages.
  Automation definitions are in \<open>Automations\<close>.
\<close>

definition max_name_bytes :: nat where "max_name_bytes = 200"
definition max_description_bytes :: nat where "max_description_bytes = 4 * 1024"
definition max_message_bytes :: nat where "max_message_bytes = 1024 * 1024"
definition max_prompt_bytes :: nat where "max_prompt_bytes = 64 * 1024"
definition max_source_context_sequence :: u32 where "max_source_context_sequence = 1000"
definition max_artifact_content_version :: u32 where "max_artifact_content_version = 1000000"

datatype workspace_error =
    WsInvalidField string string
  | WsInvalidLifecycle string
  | WsClockRegression
  | WsRevisionExhausted

section \<open>Shared validation\<close>

definition validate_text ::
  "string \<Rightarrow> rstr \<Rightarrow> nat \<Rightarrow> nat \<Rightarrow> bool \<Rightarrow> workspace_error + unit" where
  "validate_text field value minimum maximum single_line =
     and_then (fail_if (str_len (str_trim value) < minimum)
       (WsInvalidField field ''is required'')) (\<lambda>_.
     and_then (fail_if (maximum < str_len value)
       (WsInvalidField field ''exceeds the size limit'')) (\<lambda>_.
     and_then (fail_if
         (list_ex (\<lambda>c. c = 0 \<or> (single_line \<and> char_is_control c) \<or>
            (\<not> single_line \<and> char_is_control c \<and> \<not> (c = 10 \<or> c = 13 \<or> c = 9))) value)
       (WsInvalidField field ''contains unsupported control characters'')) (\<lambda>_.
     Inr ())))"

definition invalid_lineage :: "string \<Rightarrow> workspace_error" where
  "invalid_lineage field = WsInvalidField field ''has invalid immutable lineage''"

definition touch :: "u64 \<Rightarrow> unix_millis \<Rightarrow> unix_millis \<Rightarrow> workspace_error + (u64 \<times> unix_millis)" where
  "touch revision updated_at now =
     and_then (fail_if (now < updated_at) WsClockRegression) (\<lambda>_.
     and_then (ok_or (checked_add revision 1) WsRevisionExhausted) (\<lambda>r.
     Inr (r, now)))"

lemma touch_Inr [result_simps]:
  "touch r u now = Inr p \<longleftrightarrow> u \<le> now \<and> r \<noteq> - 1 \<and> p = (r + 1, now)"
  by (auto simp: touch_def result_simps checked_add_one split: if_splits)

section \<open>Projects\<close>

datatype project_state = ProjectActive | ProjectArchived

record project =
  pr_id :: project_id
  pr_name :: rstr
  pr_description :: rstr
  pr_state :: project_state
  pr_revision :: u64
  pr_created_at :: unix_millis
  pr_updated_at :: unix_millis

definition project_new ::
  "project_id \<Rightarrow> rstr \<Rightarrow> rstr \<Rightarrow> unix_millis \<Rightarrow> workspace_error + project" where
  "project_new i name description now =
     and_then (validate_text ''project.name'' name 1 max_name_bytes True) (\<lambda>_.
     and_then (validate_text ''project.description'' description 0 max_description_bytes False) (\<lambda>_.
     Inr \<lparr>pr_id = i, pr_name = name, pr_description = description, pr_state = ProjectActive,
          pr_revision = 0, pr_created_at = now, pr_updated_at = now\<rparr>))"

definition project_ensure_active :: "project \<Rightarrow> string \<Rightarrow> workspace_error + unit" where
  "project_ensure_active p entity =
     fail_if (pr_state p = ProjectArchived) (WsInvalidLifecycle entity)"

definition project_touch :: "project \<Rightarrow> unix_millis \<Rightarrow> workspace_error + project" where
  "project_touch p now =
     map_ok (\<lambda>(r, u). p\<lparr>pr_revision := r, pr_updated_at := u\<rparr>)
       (touch (pr_revision p) (pr_updated_at p) now)"

definition project_update ::
  "project \<Rightarrow> rstr \<Rightarrow> rstr \<Rightarrow> unix_millis \<Rightarrow> workspace_error + project" where
  "project_update p name description now =
     and_then (project_ensure_active p ''project'') (\<lambda>_.
     and_then (validate_text ''project.name'' name 1 max_name_bytes True) (\<lambda>_.
     and_then (validate_text ''project.description'' description 0 max_description_bytes False) (\<lambda>_.
     and_then (project_touch p now) (\<lambda>p.
     Inr (p\<lparr>pr_name := name, pr_description := description\<rparr>)))))"

definition project_archive :: "project \<Rightarrow> unix_millis \<Rightarrow> workspace_error + project" where
  "project_archive p now =
     and_then (project_ensure_active p ''project'') (\<lambda>_.
     and_then (project_touch p now) (\<lambda>p.
     Inr (p\<lparr>pr_state := ProjectArchived\<rparr>)))"

section \<open>Threads and their ancestry\<close>

datatype message_role = RoleSystem | RoleUser | RoleAssistant

datatype thread_state = ThreadOpen | ThreadArchived

datatype conversation_fork_kind = ForkBranch | ForkEditAndBranch | ForkRegenerate

fun source_message_role :: "conversation_fork_kind \<Rightarrow> message_role" where
  "source_message_role ForkBranch = RoleAssistant"
| "source_message_role ForkRegenerate = RoleAssistant"
| "source_message_role ForkEditAndBranch = RoleUser"

datatype conversation_thread_origin =
    ThreadOriginal
  | ThreadFork thread_id conversation_turn_id message_id conversation_fork_kind

record conversation_thread_lineage =
  tl_root_thread_id :: thread_id
  tl_origin :: conversation_thread_origin
  tl_fork_depth :: u8

definition thread_lineage_original :: "thread_id \<Rightarrow> conversation_thread_lineage" where
  "thread_lineage_original owner =
     \<lparr>tl_root_thread_id = owner, tl_origin = ThreadOriginal, tl_fork_depth = 0\<rparr>"

definition thread_lineage_restore ::
  "conversation_thread_lineage \<Rightarrow> thread_id \<Rightarrow> workspace_error + conversation_thread_lineage" where
  "thread_lineage_restore l owner =
     (case tl_origin l of
        ThreadOriginal \<Rightarrow>
          (if tl_root_thread_id l = owner \<and> tl_fork_depth l = 0 then Inr l
           else Inl (invalid_lineage ''thread.lineage''))
      | ThreadFork parent _ _ _ \<Rightarrow>
          (if parent \<noteq> owner \<and> tl_root_thread_id l \<noteq> owner \<and>
              1 \<le> tl_fork_depth l \<and> tl_fork_depth l \<le> 64 \<and>
              ((tl_fork_depth l = 1) \<longleftrightarrow> (parent = tl_root_thread_id l)) then Inr l
           else Inl (invalid_lineage ''thread.lineage'')))"

definition thread_lineage_fork ::
  "thread_id \<Rightarrow> thread_id \<Rightarrow> conversation_thread_lineage \<Rightarrow> conversation_turn_id \<Rightarrow> message_id \<Rightarrow>
   message_role \<Rightarrow> conversation_fork_kind \<Rightarrow> workspace_error + conversation_thread_lineage" where
  "thread_lineage_fork owner parent parent_lineage turn_id message_id role kind =
     and_then (thread_lineage_restore parent_lineage parent) (\<lambda>_.
     and_then (fail_if (parent = owner \<or> source_message_role kind \<noteq> role)
       (invalid_lineage ''thread.lineage'')) (\<lambda>_.
     and_then (ok_or (Option.bind (checked_add (tl_fork_depth parent_lineage) 1)
                        (\<lambda>depth. if depth \<le> 64 then Some depth else None))
       (invalid_lineage ''thread.fork_depth'')) (\<lambda>fork_depth.
     thread_lineage_restore
       \<lparr>tl_root_thread_id = tl_root_thread_id parent_lineage,
        tl_origin = ThreadFork parent turn_id message_id kind, tl_fork_depth = fork_depth\<rparr>
       owner)))"

definition validate_source_message_role ::
  "conversation_thread_lineage \<Rightarrow> message_role \<Rightarrow> workspace_error + unit" where
  "validate_source_message_role l role =
     (case tl_origin l of
        ThreadFork _ _ _ kind \<Rightarrow>
          fail_if (source_message_role kind \<noteq> role) (invalid_lineage ''thread.source_message_role'')
      | ThreadOriginal \<Rightarrow> Inr ())"

record thread =
  th_id :: thread_id
  th_project_id :: project_id
  th_title :: rstr
  th_state :: thread_state
  th_lineage :: conversation_thread_lineage
  th_revision :: u64
  th_created_at :: unix_millis
  th_updated_at :: unix_millis

definition thread_new ::
  "thread_id \<Rightarrow> project_id \<Rightarrow> rstr \<Rightarrow> unix_millis \<Rightarrow> workspace_error + thread" where
  "thread_new i pid title now =
     and_then (validate_text ''thread.title'' title 1 max_name_bytes True) (\<lambda>_.
     Inr \<lparr>th_id = i, th_project_id = pid, th_title = title, th_state = ThreadOpen,
          th_lineage = thread_lineage_original i, th_revision = 0,
          th_created_at = now, th_updated_at = now\<rparr>)"

definition thread_new_fork ::
  "thread_id \<Rightarrow> project_id \<Rightarrow> rstr \<Rightarrow> thread_id \<Rightarrow> conversation_thread_lineage \<Rightarrow>
   conversation_turn_id \<Rightarrow> message_id \<Rightarrow> message_role \<Rightarrow> conversation_fork_kind \<Rightarrow> unix_millis \<Rightarrow>
   workspace_error + thread" where
  "thread_new_fork i pid title parent parent_lineage turn_id message_id role kind now =
     and_then (validate_text ''thread.title'' title 1 max_name_bytes True) (\<lambda>_.
     and_then (thread_lineage_fork i parent parent_lineage turn_id message_id role kind) (\<lambda>lineage.
     Inr \<lparr>th_id = i, th_project_id = pid, th_title = title, th_state = ThreadOpen,
          th_lineage = lineage, th_revision = 0, th_created_at = now, th_updated_at = now\<rparr>))"

definition thread_restore :: "thread \<Rightarrow> workspace_error + thread" where
  "thread_restore t =
     and_then (validate_text ''thread.title'' (th_title t) 1 max_name_bytes True) (\<lambda>_.
     and_then (thread_lineage_restore (th_lineage t) (th_id t)) (\<lambda>_.
     and_then (fail_if
         (th_updated_at t < th_created_at t \<or>
          (th_revision t = 0 \<and>
             (th_state t \<noteq> ThreadOpen \<or> th_updated_at t \<noteq> th_created_at t)) \<or>
          (th_state t = ThreadArchived \<and> th_revision t = 0))
       (invalid_lineage ''thread.persisted_state'')) (\<lambda>_.
     Inr t)))"

definition thread_ensure_open :: "thread \<Rightarrow> workspace_error + unit" where
  "thread_ensure_open t = fail_if (th_state t = ThreadArchived) (WsInvalidLifecycle ''thread'')"

definition thread_update :: "thread \<Rightarrow> rstr \<Rightarrow> unix_millis \<Rightarrow> workspace_error + thread" where
  "thread_update t title now =
     and_then (thread_ensure_open t) (\<lambda>_.
     and_then (validate_text ''thread.title'' title 1 max_name_bytes True) (\<lambda>_.
     and_then (touch (th_revision t) (th_updated_at t) now) (\<lambda>(r, u).
     Inr (t\<lparr>th_revision := r, th_updated_at := u, th_title := title\<rparr>))))"

definition thread_archive :: "thread \<Rightarrow> unix_millis \<Rightarrow> workspace_error + thread" where
  "thread_archive t now =
     and_then (thread_ensure_open t) (\<lambda>_.
     and_then (touch (th_revision t) (th_updated_at t) now) (\<lambda>(r, u).
     Inr (t\<lparr>th_revision := r, th_updated_at := u, th_state := ThreadArchived\<rparr>)))"

section \<open>Messages\<close>

datatype message_state = MessageActive | MessageDeleted

datatype conversation_message_derivation_kind = ContextCopy | SourceAssistantCopy | EditedUser

datatype conversation_message_derivation =
    MessageOriginal
  | MessageFork conversation_message_derivation_kind message_id conversation_turn_id "u32 option"

definition source_sequence_ok :: "u32 \<Rightarrow> bool" where
  "source_sequence_ok s \<longleftrightarrow> 1 \<le> s \<and> s \<le> max_source_context_sequence"

fun derivation_restore ::
  "conversation_message_derivation \<Rightarrow> message_id \<Rightarrow> message_role \<Rightarrow>
   workspace_error + conversation_message_derivation" where
  "derivation_restore MessageOriginal owner role = Inr MessageOriginal"
| "derivation_restore (MessageFork ContextCopy src turn (Some sequence)) owner role =
     (if src \<noteq> owner \<and> source_sequence_ok sequence
      then Inr (MessageFork ContextCopy src turn (Some sequence))
      else Inl (invalid_lineage ''message.derivation''))"
| "derivation_restore (MessageFork SourceAssistantCopy src turn None) owner role =
     (if src \<noteq> owner \<and> role = RoleAssistant
      then Inr (MessageFork SourceAssistantCopy src turn None)
      else Inl (invalid_lineage ''message.derivation''))"
| "derivation_restore (MessageFork EditedUser src turn (Some sequence)) owner role =
     (if src \<noteq> owner \<and> role = RoleUser \<and> source_sequence_ok sequence
      then Inr (MessageFork EditedUser src turn (Some sequence))
      else Inl (invalid_lineage ''message.derivation''))"
| "derivation_restore (MessageFork _ _ _ _) owner role =
     Inl (invalid_lineage ''message.derivation'')"

definition derivation_fork ::
  "message_id \<Rightarrow> message_role \<Rightarrow> message_id \<Rightarrow> conversation_turn_id \<Rightarrow> u32 option \<Rightarrow>
   conversation_message_derivation_kind \<Rightarrow> workspace_error + conversation_message_derivation" where
  "derivation_fork owner role src turn sequence kind =
     derivation_restore (MessageFork kind src turn sequence) owner role"

fun derivation_is_original :: "conversation_message_derivation \<Rightarrow> bool" where
  "derivation_is_original MessageOriginal = True"
| "derivation_is_original (MessageFork _ _ _ _) = False"

record message =
  ms_id :: message_id
  ms_thread_id :: thread_id
  ms_sequence :: u64
  ms_role :: message_role
  ms_content :: rstr
  ms_state :: message_state
  ms_derivation :: conversation_message_derivation
  ms_revision :: u64
  ms_created_at :: unix_millis
  ms_updated_at :: unix_millis

definition message_new ::
  "message_id \<Rightarrow> thread_id \<Rightarrow> message_role \<Rightarrow> rstr \<Rightarrow> unix_millis \<Rightarrow> workspace_error + message" where
  "message_new i tid role content now =
     and_then (validate_text ''message.content'' content 1 max_message_bytes False) (\<lambda>_.
     Inr \<lparr>ms_id = i, ms_thread_id = tid, ms_sequence = 0, ms_role = role, ms_content = content,
          ms_state = MessageActive, ms_derivation = MessageOriginal, ms_revision = 0,
          ms_created_at = now, ms_updated_at = now\<rparr>)"

definition message_new_derived ::
  "message_id \<Rightarrow> thread_id \<Rightarrow> u64 \<Rightarrow> message_role \<Rightarrow> rstr \<Rightarrow> message_id \<Rightarrow> conversation_turn_id \<Rightarrow>
   u32 option \<Rightarrow> conversation_message_derivation_kind \<Rightarrow> unix_millis \<Rightarrow> workspace_error + message" where
  "message_new_derived i tid sequence role content src turn source_sequence kind now =
     and_then (fail_if (sequence = 0) (invalid_lineage ''message.sequence'')) (\<lambda>_.
     and_then (validate_text ''message.content'' content 1 max_message_bytes False) (\<lambda>_.
     and_then (derivation_fork i role src turn source_sequence kind) (\<lambda>derivation.
     Inr \<lparr>ms_id = i, ms_thread_id = tid, ms_sequence = sequence, ms_role = role,
          ms_content = content, ms_state = MessageActive, ms_derivation = derivation,
          ms_revision = 0, ms_created_at = now, ms_updated_at = now\<rparr>)))"

definition message_restore :: "message \<Rightarrow> workspace_error + message" where
  "message_restore m =
     and_then (fail_if (ms_sequence m = 0 \<or> ms_updated_at m < ms_created_at m)
       (invalid_lineage ''message.persisted_state'')) (\<lambda>_.
     and_then (derivation_restore (ms_derivation m) (ms_id m) (ms_role m)) (\<lambda>_.
     and_then
       (case ms_state m of
          MessageActive \<Rightarrow>
            and_then (validate_text ''message.content'' (ms_content m) 1 max_message_bytes False) (\<lambda>_.
            fail_if (ms_revision m = 0 \<and> ms_updated_at m \<noteq> ms_created_at m)
              (invalid_lineage ''message.persisted_state''))
        | MessageDeleted \<Rightarrow>
            fail_if (ms_content m \<noteq> [] \<or> ms_revision m = 0 \<or>
                     \<not> derivation_is_original (ms_derivation m))
              (invalid_lineage ''message.persisted_state'')) (\<lambda>_.
     and_then (fail_if (\<not> derivation_is_original (ms_derivation m) \<and>
                  (ms_state m \<noteq> MessageActive \<or> ms_revision m \<noteq> 0 \<or>
                   ms_updated_at m \<noteq> ms_created_at m))
       (invalid_lineage ''message.persisted_state'')) (\<lambda>_.
     Inr m))))"

definition message_ensure_active :: "message \<Rightarrow> workspace_error + unit" where
  "message_ensure_active m = fail_if (ms_state m = MessageDeleted) (WsInvalidLifecycle ''message'')"

definition message_ensure_original :: "message \<Rightarrow> workspace_error + unit" where
  "message_ensure_original m =
     fail_if (\<not> derivation_is_original (ms_derivation m)) (WsInvalidLifecycle ''derived message'')"

definition message_update :: "message \<Rightarrow> rstr \<Rightarrow> unix_millis \<Rightarrow> workspace_error + message" where
  "message_update m content now =
     and_then (message_ensure_active m) (\<lambda>_.
     and_then (message_ensure_original m) (\<lambda>_.
     and_then (validate_text ''message.content'' content 1 max_message_bytes False) (\<lambda>_.
     and_then (touch (ms_revision m) (ms_updated_at m) now) (\<lambda>(r, u).
     Inr (m\<lparr>ms_revision := r, ms_updated_at := u, ms_content := content\<rparr>)))))"

definition message_delete :: "message \<Rightarrow> unix_millis \<Rightarrow> workspace_error + message" where
  "message_delete m now =
     and_then (message_ensure_active m) (\<lambda>_.
     and_then (message_ensure_original m) (\<lambda>_.
     and_then (touch (ms_revision m) (ms_updated_at m) now) (\<lambda>(r, u).
     Inr (m\<lparr>ms_revision := r, ms_updated_at := u, ms_content := [], ms_state := MessageDeleted\<rparr>))))"

section \<open>Artifacts\<close>

datatype artifact_state = ArtifactUnavailable | ArtifactAvailable | ArtifactDeleted

definition validate_artifact_display_name :: "rstr \<Rightarrow> workspace_error + unit" where
  "validate_artifact_display_name name = validate_text ''artifact.name'' name 1 max_name_bytes True"

definition validate_artifact_media_type :: "rstr \<Rightarrow> workspace_error + unit" where
  "validate_artifact_media_type media_type =
     validate_text ''artifact.media_type'' media_type 1 255 True"

definition validate_content_version :: "u32 \<Rightarrow> workspace_error + unit" where
  "validate_content_version version =
     fail_if (\<not> (1 \<le> version \<and> version \<le> max_artifact_content_version))
       (WsInvalidField ''artifact.content_version'' ''must be between 1 and 1000000'')"

text \<open>\<open>str::trim_end_matches\<close> for a dot or a space, \<open>str::to_ascii_uppercase\<close>,
  \<open>str::strip_prefix\<close>.\<close>

definition trim_end_dots_spaces :: "rstr \<Rightarrow> rstr" where
  "trim_end_dots_spaces s = rev (dropWhile (\<lambda>c. c = 46 \<or> c = 32) (rev s))"

definition to_ascii_uppercase :: "rstr \<Rightarrow> rstr" where
  "to_ascii_uppercase s = map (\<lambda>c. if 97 \<le> c \<and> c \<le> 122 then c - 32 else c) s"

definition strip_prefix :: "rstr \<Rightarrow> rstr \<Rightarrow> rstr option" where
  "strip_prefix p s = (if str_starts_with s p then Some (drop (length p) s) else None)"

definition is_windows_device_name :: "rstr \<Rightarrow> bool" where
  "is_windows_device_name name =
     (let stem = trim_end_dots_spaces (takeWhile (\<lambda>c. c \<noteq> 46) name);
          upper = to_ascii_uppercase stem;
          suffix = (case strip_prefix (lit ''COM'') upper of
                      Some s \<Rightarrow> Some s
                    | None \<Rightarrow> strip_prefix (lit ''LPT'') upper)
      in upper \<in> {lit ''CON'', lit ''PRN'', lit ''AUX'', lit ''NUL'', lit ''CLOCK$''} \<or>
         (case suffix of
            None \<Rightarrow> False
          | Some s \<Rightarrow> (case str_bytes s of [b] \<Rightarrow> 49 \<le> b \<and> b \<le> 57 | _ \<Rightarrow> False)))"

definition validate_imported_file_name :: "rstr \<Rightarrow> workspace_error + unit" where
  "validate_imported_file_name name =
     and_then (validate_artifact_display_name name) (\<lambda>_.
     fail_if
       (name \<noteq> str_trim name \<or>
        (name \<noteq> [] \<and> (last name = 46 \<or> last name = 32)) \<or>
        name \<in> {lit ''.'', lit ''..''} \<or>
        list_ex (\<lambda>c. c \<in> set [60, 62, 58, 34, 47, 92, 124, 63, 42]) name \<or>
        is_windows_device_name name)
       (WsInvalidField ''artifact.name'' ''must be a portable file name''))"

record artifact_content_summary =
  ac_content_version :: u32
  ac_media_type :: rstr
  ac_byte_size :: u64

definition content_summary_validate :: "artifact_content_summary \<Rightarrow> workspace_error + unit" where
  "content_summary_validate c =
     and_then (validate_content_version (ac_content_version c)) (\<lambda>_.
     validate_artifact_media_type (ac_media_type c))"

definition content_summary_new ::
  "u32 \<Rightarrow> rstr \<Rightarrow> u64 \<Rightarrow> workspace_error + artifact_content_summary" where
  "content_summary_new content_version media_type byte_size =
     and_then (validate_content_version content_version) (\<lambda>_.
     and_then (validate_artifact_media_type media_type) (\<lambda>_.
     Inr \<lparr>ac_content_version = content_version, ac_media_type = media_type,
          ac_byte_size = byte_size\<rparr>))"

record artifact_version =
  av_artifact_id :: artifact_id
  av_version :: u32
  av_sha256 :: "u8 list"
  av_media_type :: rstr
  av_byte_size :: u64
  av_created_at :: unix_millis

definition artifact_version_restore ::
  "artifact_version \<Rightarrow> workspace_error + artifact_version" where
  "artifact_version_restore v =
     and_then (validate_content_version (av_version v)) (\<lambda>_.
     and_then (validate_artifact_media_type (av_media_type v)) (\<lambda>_.
     Inr v))"

definition artifact_version_new ::
  "artifact_id \<Rightarrow> u32 \<Rightarrow> u8 list \<Rightarrow> rstr \<Rightarrow> u64 \<Rightarrow> unix_millis \<Rightarrow> workspace_error + artifact_version" where
  "artifact_version_new i version sha media_type byte_size created_at =
     artifact_version_restore
       \<lparr>av_artifact_id = i, av_version = version, av_sha256 = sha, av_media_type = media_type,
        av_byte_size = byte_size, av_created_at = created_at\<rparr>"

definition artifact_version_summary :: "artifact_version \<Rightarrow> artifact_content_summary" where
  "artifact_version_summary v =
     \<lparr>ac_content_version = av_version v, ac_media_type = av_media_type v,
      ac_byte_size = av_byte_size v\<rparr>"

record artifact =
  ar_id :: artifact_id
  ar_project_id :: project_id
  ar_thread_id :: "thread_id option"
  ar_name :: rstr
  ar_content :: "artifact_content_summary option"
  ar_state :: artifact_state
  ar_revision :: u64
  ar_created_at :: unix_millis
  ar_updated_at :: unix_millis

definition artifact_new_unavailable ::
  "artifact_id \<Rightarrow> project_id \<Rightarrow> thread_id option \<Rightarrow> rstr \<Rightarrow> unix_millis \<Rightarrow>
   workspace_error + artifact" where
  "artifact_new_unavailable i pid tid name now =
     and_then (validate_imported_file_name name) (\<lambda>_.
     Inr \<lparr>ar_id = i, ar_project_id = pid, ar_thread_id = tid, ar_name = name, ar_content = None,
          ar_state = ArtifactUnavailable, ar_revision = 0, ar_created_at = now,
          ar_updated_at = now\<rparr>)"

definition invalid_artifact_state :: workspace_error where
  "invalid_artifact_state =
     WsInvalidField ''artifact.persisted_state'' ''has invalid lifecycle, revision, or content metadata''"

definition artifact_restore :: "artifact \<Rightarrow> workspace_error + artifact" where
  "artifact_restore a =
     and_then (validate_artifact_display_name (ar_name a)) (\<lambda>_.
     and_then (fail_if (ar_updated_at a < ar_created_at a) invalid_artifact_state) (\<lambda>_.
     and_then (case ar_content a of None \<Rightarrow> Inr () | Some c \<Rightarrow> content_summary_validate c) (\<lambda>_.
     and_then (fail_if
         (\<not> (case (ar_state a, ar_content a) of
               (ArtifactUnavailable, None) \<Rightarrow>
                 ar_revision a = 0 \<and> ar_updated_at a = ar_created_at a
             | (ArtifactAvailable, Some c) \<Rightarrow> ar_revision a = ucast (ac_content_version c)
             | (ArtifactDeleted, None) \<Rightarrow> 0 < ar_revision a
             | _ \<Rightarrow> False))
       invalid_artifact_state) (\<lambda>_.
     Inr a))))"

definition artifact_record_content ::
  "artifact \<Rightarrow> artifact_content_summary \<Rightarrow> unix_millis \<Rightarrow> workspace_error + artifact" where
  "artifact_record_content a content now =
     and_then (fail_if (ar_state a = ArtifactDeleted) (WsInvalidLifecycle ''artifact'')) (\<lambda>_.
     and_then (content_summary_validate content) (\<lambda>_.
     and_then
       (case ar_content a of
          None \<Rightarrow> Inr 1
        | Some current \<Rightarrow>
            ok_or (Option.bind (checked_add (ac_content_version current) 1)
                     (\<lambda>v. if v \<le> max_artifact_content_version then Some v else None))
              WsRevisionExhausted) (\<lambda>expected_version.
     and_then (fail_if (ac_content_version content \<noteq> expected_version)
       (WsInvalidField ''artifact.content_version'' ''must be the exact next version'')) (\<lambda>_.
     and_then (touch (ar_revision a) (ar_updated_at a) now) (\<lambda>(r, u).
     Inr (a\<lparr>ar_revision := r, ar_updated_at := u, ar_content := Some content,
            ar_state := ArtifactAvailable\<rparr>))))))"

definition artifact_remove :: "artifact \<Rightarrow> unix_millis \<Rightarrow> workspace_error + artifact" where
  "artifact_remove a now =
     and_then (fail_if (ar_state a \<noteq> ArtifactAvailable \<or> ar_content a = None)
       (WsInvalidLifecycle ''artifact'')) (\<lambda>_.
     and_then (touch (ar_revision a) (ar_updated_at a) now) (\<lambda>(r, u).
     Inr (a\<lparr>ar_revision := r, ar_updated_at := u, ar_content := None,
            ar_state := ArtifactDeleted\<rparr>)))"

section \<open>Histories\<close>

text \<open>
  What the operations of the entities produce: \<open>ancestry owner lineage n\<close> for a lineage that \<open>n\<close>
  forks lead to, and a step relation per entity.
\<close>

inductive ancestry :: "thread_id \<Rightarrow> conversation_thread_lineage \<Rightarrow> nat \<Rightarrow> bool" where
  root: "ancestry i (thread_lineage_original i) 0"
| child: "ancestry p pl n \<Longrightarrow> thread_lineage_fork i p pl turn msg role kind = Inr l \<Longrightarrow>
    ancestry i l (Suc n)"

inductive thread_fresh :: "thread \<Rightarrow> bool" where
  fresh: "thread_new i pid title now = Inr t \<Longrightarrow> thread_fresh t"
| fork: "ancestry p pl n \<Longrightarrow> thread_new_fork i pid title p pl turn msg role kind now = Inr t \<Longrightarrow>
    thread_fresh t"

inductive thread_step :: "thread \<Rightarrow> thread \<Rightarrow> bool" where
  update: "thread_update t title now = Inr t' \<Longrightarrow> thread_step t t'"
| archive: "thread_archive t now = Inr t' \<Longrightarrow> thread_step t t'"

text \<open>The store assigns a message its thread-local sequence, starting at one.\<close>

inductive message_fresh :: "message \<Rightarrow> bool" where
  fresh: "message_new i tid role content now = Inr m \<Longrightarrow> n \<noteq> 0 \<Longrightarrow>
    message_fresh (m\<lparr>ms_sequence := n\<rparr>)"
| derived: "message_new_derived i tid n role content src turn sq kind now = Inr m \<Longrightarrow> message_fresh m"

inductive message_step :: "message \<Rightarrow> message \<Rightarrow> bool" where
  update: "message_update m content now = Inr m' \<Longrightarrow> message_step m m'"
| delete: "message_delete m now = Inr m' \<Longrightarrow> message_step m m'"

inductive artifact_fresh :: "artifact \<Rightarrow> bool" where
  fresh: "artifact_new_unavailable i pid tid name now = Inr a \<Longrightarrow> artifact_fresh a"

inductive artifact_step :: "artifact \<Rightarrow> artifact \<Rightarrow> bool" where
  record_content: "artifact_record_content a content now = Inr a' \<Longrightarrow> artifact_step a a'"
| remove: "artifact_remove a now = Inr a' \<Longrightarrow> artifact_step a a'"

lemmas workspace_ops = project_update_def project_archive_def project_ensure_active_def
  project_touch_def thread_update_def thread_archive_def thread_ensure_open_def
  message_update_def message_delete_def message_ensure_active_def message_ensure_original_def
  artifact_record_content_def artifact_remove_def

lemma thread_lineage_restore_Inr [result_simps]:
  "thread_lineage_restore l i = Inr l' \<longleftrightarrow> l' = l \<and> is_ok (thread_lineage_restore l i)"
  by (auto simp: thread_lineage_restore_def split: conversation_thread_origin.splits)

lemma derivation_restore_Inr [result_simps]:
  "derivation_restore d i role = Inr d' \<longleftrightarrow> d' = d \<and> is_ok (derivation_restore d i role)"
  by (induction d i role rule: derivation_restore.induct) auto

lemma u64_succ_neq_zero: "r \<noteq> - 1 \<Longrightarrow> r + 1 \<noteq> (0 :: u64)"
  by (metis add.commute eq_neg_iff_add_eq_0)

lemma u8_pred_succ: "1 \<le> d \<Longrightarrow> checked_add (d - 1 :: u8) 1 = Some d \<and> unat (d - 1) = unat d - 1"
  using unsigned_less [of d, where 'a = nat]
  by (simp add: checked_add_def unat_sub word_le_nat_alt)

lemma u8_succ: "checked_add (d :: u8) 1 = Some e \<Longrightarrow> unat e = Suc (unat d)"
  by (drule checked_add_Some_unat) simp

lemma ancestry_restore: "ancestry i l n \<Longrightarrow> n = unat (tl_fork_depth l) \<and> is_ok (thread_lineage_restore l i)"
proof (induction rule: ancestry.induct)
  case (root i)
  then show ?case by (simp add: thread_lineage_original_def thread_lineage_restore_def)
next
  case (child p pl n i turn msg role kind l)
  then show ?case
    by (auto simp: thread_lineage_fork_def result_simps bind_eq_Some_conv dest!: u8_succ
          split: if_splits)
qed

lemma exists_other_thread: "\<exists>q. q \<noteq> (a :: thread_id) \<and> q \<noteq> b"
proof -
  define s where "s = 0 # thread_id_str a @ thread_id_str b"
  have "ThreadId s \<noteq> a" "ThreadId s \<noteq> b"
    by (auto simp: s_def dest!: arg_cong [of _ _ "\<lambda>t. length (thread_id_str t)"])
  then show ?thesis by blast
qed

lemma restore_ancestry:
  "is_ok (thread_lineage_restore l i) \<Longrightarrow> ancestry i l (unat (tl_fork_depth l))"
proof (induction "unat (tl_fork_depth l)" arbitrary: l i)
  case 0
  then have "tl_fork_depth l = 0" by (simp add: unat_eq_zero)
  with 0 have "l = thread_lineage_original i"
    by (auto simp: thread_lineage_restore_def thread_lineage_original_def
          split: conversation_thread_origin.splits if_splits)
  then show ?case using ancestry.root by (simp add: thread_lineage_original_def)
next
  case (Suc n)
  then have "tl_fork_depth l \<noteq> 0" by auto
  with Suc.prems obtain p turn msg kind where o: "tl_origin l = ThreadFork p turn msg kind"
    and ok: "p \<noteq> i" "tl_root_thread_id l \<noteq> i" "1 \<le> tl_fork_depth l" "tl_fork_depth l \<le> 64"
      "(tl_fork_depth l = 1) = (p = tl_root_thread_id l)"
    by (auto simp: thread_lineage_restore_def split: conversation_thread_origin.splits if_splits)
  note pred = u8_pred_succ [OF ok(3)]
  obtain q where q: "q \<noteq> p" "(tl_fork_depth l - 1 = 1) = (q = tl_root_thread_id l)"
    if "p \<noteq> tl_root_thread_id l"
    using exists_other_thread [of p "tl_root_thread_id l"] by metis
  define pl where "pl = (if p = tl_root_thread_id l then thread_lineage_original p else
    \<lparr>tl_root_thread_id = tl_root_thread_id l, tl_origin = ThreadFork q turn msg kind,
     tl_fork_depth = tl_fork_depth l - 1\<rparr>)"
  have depth: "tl_fork_depth pl = tl_fork_depth l - 1" "tl_root_thread_id pl = tl_root_thread_id l"
    using ok(5) by (simp_all add: pl_def thread_lineage_original_def)
  have "1 \<le> tl_fork_depth l - 1" "tl_fork_depth l - 1 \<le> 64" if "tl_fork_depth l \<noteq> 1"
    using that ok(3,4) pred by (simp_all add: word_le_nat_alt word_unat_eq_iff)
  note bounds = this
  have pok: "is_ok (thread_lineage_restore pl p)"
  proof (cases "p = tl_root_thread_id l")
    case True
    then show ?thesis by (simp add: pl_def thread_lineage_original_def thread_lineage_restore_def)
  next
    case False
    with ok(5) bounds q [OF False] show ?thesis by (simp add: pl_def thread_lineage_restore_def)
  qed
  have n: "n = unat (tl_fork_depth pl)" using Suc.hyps(2) pred depth by simp
  have l: "\<lparr>tl_root_thread_id = tl_root_thread_id l, tl_origin = ThreadFork p turn msg kind,
      tl_fork_depth = tl_fork_depth l\<rparr> = l"
    using o by (cases l) simp
  have "thread_lineage_restore pl p = Inr pl" "thread_lineage_restore l i = Inr l"
    using pok Suc.prems by (simp_all add: result_simps)
  then have "thread_lineage_fork i p pl turn msg (source_message_role kind) kind = Inr l"
    using ok(1,4) pred depth by (simp add: thread_lineage_fork_def l)
  from ancestry.child [OF Suc.hyps(1) [OF n pok] this] show ?case
    using n Suc.hyps(2) by simp
qed

definition thread_frame ::
  "thread \<Rightarrow> thread_id \<times> project_id \<times> conversation_thread_lineage \<times> unix_millis" where
  "thread_frame t = (th_id t, th_project_id t, th_lineage t, th_created_at t)"

definition message_frame ::
  "message \<Rightarrow> message_id \<times> thread_id \<times> u64 \<times> message_role \<times> conversation_message_derivation \<times>
     unix_millis" where
  "message_frame m = (ms_id m, ms_thread_id m, ms_sequence m, ms_role m, ms_derivation m,
                      ms_created_at m)"

definition artifact_frame ::
  "artifact \<Rightarrow> artifact_id \<times> project_id \<times> thread_id option \<times> rstr \<times> unix_millis" where
  "artifact_frame a = (ar_id a, ar_project_id a, ar_thread_id a, ar_name a, ar_created_at a)"

interpretation thread_life: lifecycle thread_step th_revision th_updated_at thread_frame
    th_state "\<lambda>s t. s = ThreadOpen" "\<lambda>s. s = ThreadArchived"
proof unfold_locales
  fix t t'
  assume "thread_step t t'"
  then show "th_state t = ThreadOpen"
    by (cases "th_state t") (auto elim!: thread_step.cases simp: workspace_ops result_simps)
qed (auto elim!: thread_step.cases simp: workspace_ops result_simps sat_succ_eq thread_frame_def)

interpretation message_life: lifecycle message_step ms_revision ms_updated_at message_frame
    ms_state "\<lambda>s t. s = MessageActive" "\<lambda>s. s = MessageDeleted"
proof unfold_locales
  fix m m'
  assume "message_step m m'"
  then show "ms_state m = MessageActive"
    by (cases "ms_state m") (auto elim!: message_step.cases simp: workspace_ops result_simps)
qed (auto elim!: message_step.cases simp: workspace_ops result_simps sat_succ_eq message_frame_def)

interpretation artifact_life: lifecycle artifact_step ar_revision ar_updated_at artifact_frame
    ar_state "\<lambda>s t. s \<noteq> ArtifactDeleted \<and> t \<noteq> ArtifactUnavailable" "\<lambda>s. s = ArtifactDeleted"
  by unfold_locales
     (auto elim!: artifact_step.cases simp: workspace_ops result_simps sat_succ_eq artifact_frame_def)

text \<open>What the three \<open>restore\<close> constructors require, as predicates.\<close>

lemma thread_restore_ok:
  "is_ok (thread_restore t) \<longleftrightarrow>
     is_ok (validate_text ''thread.title'' (th_title t) 1 max_name_bytes True) \<and>
     is_ok (thread_lineage_restore (th_lineage t) (th_id t)) \<and>
     th_created_at t \<le> th_updated_at t \<and>
     (th_revision t = 0 \<longrightarrow> th_state t = ThreadOpen \<and> th_updated_at t = th_created_at t)"
  by (auto simp: thread_restore_def is_ok_and_then is_ok_iff [of "validate_text _ _ _ _ _"]
        is_ok_iff [of "thread_lineage_restore _ _"] fail_if_Inr)

lemma message_restore_ok:
  "is_ok (message_restore m) \<longleftrightarrow>
     ms_sequence m \<noteq> 0 \<and> ms_created_at m \<le> ms_updated_at m \<and>
     is_ok (derivation_restore (ms_derivation m) (ms_id m) (ms_role m)) \<and>
     (ms_revision m = 0 \<longrightarrow> ms_state m = MessageActive \<and> ms_updated_at m = ms_created_at m) \<and>
     (case ms_state m of
        MessageActive \<Rightarrow>
          is_ok (validate_text ''message.content'' (ms_content m) 1 max_message_bytes False)
      | MessageDeleted \<Rightarrow> ms_content m = []) \<and>
     (derivation_is_original (ms_derivation m) \<or> ms_revision m = 0)"
  by (cases "ms_state m")
     (auto simp: message_restore_def is_ok_and_then is_ok_iff [of "validate_text _ _ _ _ _"]
        is_ok_iff [of "derivation_restore _ _ _"] fail_if_Inr and_then_Inr)

interpretation thread_rest: restorable thread_fresh thread_step "\<lambda>t. is_ok (thread_restore t)"
proof unfold_locales
  fix t
  assume "thread_fresh t"
  then show "is_ok (thread_restore t)"
  proof cases
    case (fresh i pid title now)
    then show ?thesis
      by (auto simp: thread_new_def result_simps thread_restore_ok thread_lineage_original_def
            thread_lineage_restore_def)
  next
    case (fork p pl n i pid title turn msg role kind now)
    then show ?thesis
      by (auto simp: thread_new_fork_def thread_lineage_fork_def result_simps thread_restore_ok
            split: if_splits)
  qed
next
  fix t t'
  assume ok: "is_ok (thread_restore t)" and step: "thread_step t t'"
  from ok have "th_created_at t \<le> th_updated_at t" by (simp add: thread_restore_ok)
  also note thread_life.step_updated_at [OF step]
  finally have time: "th_created_at t \<le> th_updated_at t'" .
  from step show "is_ok (thread_restore t')"
  proof cases
    case (update title now)
    with ok time show ?thesis
      by (auto simp: workspace_ops result_simps thread_restore_ok u64_succ_neq_zero)
  next
    case (archive now)
    with ok time show ?thesis
      by (auto simp: workspace_ops result_simps thread_restore_ok u64_succ_neq_zero)
  qed
qed

interpretation message_rest: restorable message_fresh message_step "\<lambda>m. is_ok (message_restore m)"
proof unfold_locales
  fix m
  assume "message_fresh m"
  then show "is_ok (message_restore m)"
    by cases (auto simp: message_new_def message_new_derived_def derivation_fork_def result_simps
                message_restore_ok)
next
  fix m m'
  assume ok: "is_ok (message_restore m)" and step: "message_step m m'"
  from ok have "ms_created_at m \<le> ms_updated_at m" by (simp add: message_restore_ok)
  also note message_life.step_updated_at [OF step]
  finally have time: "ms_created_at m \<le> ms_updated_at m'" .
  from step show "is_ok (message_restore m')"
  proof cases
    case (update content now)
    with ok time show ?thesis
      by (auto simp: workspace_ops result_simps message_restore_ok u64_succ_neq_zero
            split: message_state.splits)
  next
    case (delete now)
    with ok time show ?thesis
      by (auto simp: workspace_ops result_simps message_restore_ok u64_succ_neq_zero)
  qed
qed

text \<open>Every row the constructors accept has a history: \<open>x0\<close> is the entity at its creation, \<open>f r\<close>
  the edited one at revision \<open>r\<close>, and \<open>y\<close> the row, closed by a last operation.\<close>

lemma closed_history:
  fixes f :: "u64 \<Rightarrow> 'a"
  assumes "R x0 (f 1)" and "\<And>r. r \<noteq> 0 \<Longrightarrow> r \<noteq> - 1 \<Longrightarrow> R (f r) (f (r + 1))"
    and last0: "r = 1 \<Longrightarrow> R x0 y" and last: "r - 1 \<noteq> 0 \<Longrightarrow> R (f (r - 1)) y" and "r \<noteq> 0"
  shows "R\<^sup>*\<^sup>* x0 y"
proof (cases "r = 1")
  case True
  then show ?thesis using last0 by blast
next
  case False
  then have "r - 1 \<noteq> 0" by simp
  with assms(1,2) have "R\<^sup>*\<^sup>* x0 (f (r - 1))" by (rule revision_chain)
  then show ?thesis using last [OF \<open>r - 1 \<noteq> 0\<close>] by (rule rtranclp.rtrancl_into_rtrancl)
qed

lemma thread_fresh_snapshot:
  assumes "is_ok (thread_restore t)"
  shows "thread_fresh (t\<lparr>th_state := ThreadOpen, th_revision := 0, th_updated_at := th_created_at t\<rparr>)"
proof -
  from assms have title: "validate_text ''thread.title'' (th_title t) 1 max_name_bytes True = Inr ()"
    and "ancestry (th_id t) (th_lineage t) (unat (tl_fork_depth (th_lineage t)))"
    by (auto simp: thread_restore_ok is_ok_unit intro: restore_ancestry)
  from this(2) show ?thesis
  proof cases
    case root
    have "thread_new (th_id t) (th_project_id t) (th_title t) (th_created_at t) =
        Inr (t\<lparr>th_state := ThreadOpen, th_revision := 0, th_updated_at := th_created_at t\<rparr>)"
      using title root(1) by (cases t) (simp add: thread_new_def)
    then show ?thesis by (rule thread_fresh.fresh)
  next
    case (child p pl n turn msg role kind)
    have "thread_new_fork (th_id t) (th_project_id t) (th_title t) p pl turn msg role kind
        (th_created_at t) =
        Inr (t\<lparr>th_state := ThreadOpen, th_revision := 0, th_updated_at := th_created_at t\<rparr>)"
      using title child(3) by (cases t) (simp add: thread_new_fork_def)
    with child(2) show ?thesis by (rule thread_fresh.fork)
  qed
qed

lemma thread_edit:
  assumes "validate_text ''thread.title'' (th_title t) 1 max_name_bytes True = Inr ()"
    and "th_state t = ThreadOpen" "th_revision t \<noteq> - 1" "th_updated_at t \<le> now"
  shows "thread_step t (t\<lparr>th_revision := th_revision t + 1, th_updated_at := now\<rparr>)"
    and "thread_step t (t\<lparr>th_revision := th_revision t + 1, th_updated_at := now,
           th_state := ThreadArchived\<rparr>)"
proof -
  have touch: "touch (th_revision t) (th_updated_at t) now = Inr (th_revision t + 1, now)"
    using assms by (simp add: result_simps)
  have "thread_update t (th_title t) now = Inr (t\<lparr>th_revision := th_revision t + 1, th_updated_at := now\<rparr>)"
    using assms touch by (simp add: thread_update_def thread_ensure_open_def)
  then show "thread_step t (t\<lparr>th_revision := th_revision t + 1, th_updated_at := now\<rparr>)"
    by (rule thread_step.update)
  have "thread_archive t now = Inr (t\<lparr>th_revision := th_revision t + 1, th_updated_at := now,
      th_state := ThreadArchived\<rparr>)"
    using assms touch by (simp add: thread_archive_def thread_ensure_open_def)
  then show "thread_step t (t\<lparr>th_revision := th_revision t + 1, th_updated_at := now,
      th_state := ThreadArchived\<rparr>)"
    by (rule thread_step.archive)
qed

lemma thread_history:
  assumes ok: "is_ok (thread_restore t)"
  shows "thread_step\<^sup>*\<^sup>*
    (t\<lparr>th_state := ThreadOpen, th_revision := 0, th_updated_at := th_created_at t\<rparr>) t"
    (is "thread_step\<^sup>*\<^sup>* ?t0 t")
proof -
  define f where "f r = t\<lparr>th_state := ThreadOpen, th_revision := r\<rparr>" for r
  from ok have title: "validate_text ''thread.title'' (th_title t) 1 max_name_bytes True = Inr ()"
    and time: "th_created_at t \<le> th_updated_at t"
    and zero: "th_revision t = 0 \<Longrightarrow> ?t0 = t"
    by (auto simp: thread_restore_ok is_ok_unit)
  have first: "thread_step ?t0 (f 1)"
    using thread_edit(1) [of ?t0 "th_updated_at t"] title time by (simp add: f_def)
  have edit: "thread_step (f r) (f (r + 1))" if "r \<noteq> 0" "r \<noteq> - 1" for r
    using thread_edit(1) [of "f r" "th_updated_at t"] title that by (simp add: f_def)
  show ?thesis
  proof (cases "th_revision t = 0")
    case True
    then show ?thesis by (simp only: zero)
  next
    case False
    show ?thesis
    proof (cases "th_state t")
      case ThreadOpen
      then have "f (th_revision t) = t" by (simp add: f_def)
      with revision_chain [where R = thread_step and f = f, OF first edit False] show ?thesis by simp
    next
      case ThreadArchived
      have t: "t\<lparr>th_state := ThreadArchived\<rparr> = t" using ThreadArchived by simp
      show ?thesis
      proof (rule closed_history [where R = thread_step and f = f, OF first edit _ _ False])
        show "thread_step ?t0 t" if "th_revision t = 1"
        proof -
          have "t\<lparr>th_revision := 1, th_state := ThreadArchived\<rparr> = t" using that t by (cases t) simp
          then show ?thesis using thread_edit(2) [of ?t0 "th_updated_at t"] title time by simp
        qed
        show "thread_step (f (th_revision t - 1)) t"
          using thread_edit(2) [of "f (th_revision t - 1)" "th_updated_at t"] title t False
          by (simp add: f_def)
      qed
    qed
  qed
qed

text \<open>C32. A persisted thread row is accepted by \<open>restore\<close> exactly when the thread operations produce it:
  some creation or fork (from a parent whose own ancestry the fork operation produced) followed
  by updates and at most one archive leads to it; every other row is rejected.\<close>

theorem thread_restore_exact:
  "is_ok (thread_restore t) \<longleftrightarrow> (\<exists>t0. thread_fresh t0 \<and> thread_step\<^sup>*\<^sup>* t0 t)"
proof
  assume "is_ok (thread_restore t)"
  then show "\<exists>t0. thread_fresh t0 \<and> thread_step\<^sup>*\<^sup>* t0 t"
    using thread_fresh_snapshot thread_history by blast
qed (auto intro: thread_rest.reachable_accepted)

text \<open>The fork depth of a thread lineage counts the forks that led to it: a lineage is accepted
  for an owner exactly when some chain of that many forks from a root thread produces it, so
  no chain is longer than 64.\<close>

theorem thread_lineage_restore_exact:
  "ancestry i l n \<longleftrightarrow>
     n = unat (tl_fork_depth l) \<and> n \<le> 64 \<and> is_ok (thread_lineage_restore l i)"
proof -
  have "unat (tl_fork_depth l) \<le> 64" if "is_ok (thread_lineage_restore l i)"
    using that by (auto simp: thread_lineage_restore_def word_le_nat_alt
        split: conversation_thread_origin.splits if_splits)
  then show ?thesis using ancestry_restore [of i l n] restore_ancestry [of l i] by blast
qed

lemma message_edit:
  assumes "validate_text ''message.content'' content 1 max_message_bytes False = Inr ()"
    and "ms_state m = MessageActive" "derivation_is_original (ms_derivation m)"
      "ms_revision m \<noteq> - 1" "ms_updated_at m \<le> now"
  shows "message_step m (m\<lparr>ms_revision := ms_revision m + 1, ms_updated_at := now, ms_content := content\<rparr>)"
    and "message_step m (m\<lparr>ms_revision := ms_revision m + 1, ms_updated_at := now, ms_content := [],
           ms_state := MessageDeleted\<rparr>)"
proof -
  have touch: "touch (ms_revision m) (ms_updated_at m) now = Inr (ms_revision m + 1, now)"
    using assms by (simp add: result_simps)
  have "message_update m content now =
      Inr (m\<lparr>ms_revision := ms_revision m + 1, ms_updated_at := now, ms_content := content\<rparr>)"
    using assms touch
    by (simp add: message_update_def message_ensure_active_def message_ensure_original_def)
  then show "message_step m (m\<lparr>ms_revision := ms_revision m + 1, ms_updated_at := now, ms_content := content\<rparr>)"
    by (rule message_step.update)
  have "message_delete m now = Inr (m\<lparr>ms_revision := ms_revision m + 1, ms_updated_at := now,
      ms_content := [], ms_state := MessageDeleted\<rparr>)"
    using assms touch
    by (simp add: message_delete_def message_ensure_active_def message_ensure_original_def)
  then show "message_step m (m\<lparr>ms_revision := ms_revision m + 1, ms_updated_at := now, ms_content := [],
           ms_state := MessageDeleted\<rparr>)"
    by (rule message_step.delete)
qed

lemma some_message_content:
  "validate_text ''message.content'' (lit ''x'') 1 max_message_bytes False = Inr ()"
  by (simp add: validate_text_def str_trim_def char_is_whitespace_def str_len_def utf8_width_def
        max_message_bytes_def char_is_control_def)

definition created_message :: "message \<Rightarrow> message" where
  "created_message m = m\<lparr>ms_state := MessageActive, ms_revision := 0, ms_updated_at := ms_created_at m,
     ms_content := (if ms_state m = MessageActive then ms_content m else lit ''x'')\<rparr>"

lemma created_message_content:
  assumes "is_ok (message_restore m)"
  shows "validate_text ''message.content'' (ms_content (created_message m)) 1 max_message_bytes False = Inr ()"
  using assms some_message_content
  by (auto simp: message_restore_ok is_ok_unit created_message_def split: message_state.splits)

lemma message_fresh_snapshot:
  assumes ok: "is_ok (message_restore m)"
  shows "message_fresh (created_message m)"
proof (cases "ms_derivation m")
  case MessageOriginal
  let ?c = "ms_content (created_message m)"
  obtain m0 where m0: "message_new (ms_id m) (ms_thread_id m) (ms_role m) ?c (ms_created_at m) = Inr m0"
    and "created_message m = m0\<lparr>ms_sequence := ms_sequence m\<rparr>"
    using created_message_content [OF ok] MessageOriginal
    by (cases m) (simp add: message_new_def created_message_def)
  with message_fresh.fresh [OF m0] ok show ?thesis by (simp add: message_restore_ok)
next
  case (MessageFork kind src turn sq)
  with ok have "created_message m = m"
    by (auto simp: message_restore_ok created_message_def)
  moreover have "message_new_derived (ms_id m) (ms_thread_id m) (ms_sequence m) (ms_role m)
      (ms_content m) src turn sq kind (ms_created_at m) = Inr m"
  proof -
    have "derivation_restore (MessageFork kind src turn sq) (ms_id m) (ms_role m) =
        Inr (MessageFork kind src turn sq)" and rest: "ms_sequence m \<noteq> 0" "ms_revision m = 0"
        "ms_updated_at m = ms_created_at m" "ms_state m = MessageActive"
      using ok MessageFork by (auto simp: message_restore_ok result_simps)
    moreover have "validate_text ''message.content'' (ms_content m) 1 max_message_bytes False = Inr ()"
      using created_message_content [OF ok] \<open>created_message m = m\<close> by simp
    ultimately show ?thesis
      using MessageFork by (cases m) (simp add: message_new_derived_def derivation_fork_def)
  qed
  ultimately show ?thesis using message_fresh.derived by metis
qed

lemma message_history:
  assumes ok: "is_ok (message_restore m)"
  shows "message_step\<^sup>*\<^sup>* (created_message m) m"
proof (cases "ms_revision m = 0")
  case True
  with ok have "created_message m = m" by (auto simp: message_restore_ok created_message_def)
  then show ?thesis by simp
next
  case False
  let ?m0 = "created_message m"
  define f where "f r = ?m0\<lparr>ms_revision := r, ms_updated_at := ms_updated_at m,
      ms_content := ms_content ?m0\<rparr>" for r
  note content = created_message_content [OF ok]
  from ok False have orig: "derivation_is_original (ms_derivation m)"
    and time: "ms_created_at m \<le> ms_updated_at m"
    by (auto simp: message_restore_ok)
  have first: "message_step ?m0 (f 1)"
    using message_edit(1) [OF content, of ?m0 "ms_updated_at m"] orig time
    by (simp add: f_def created_message_def split del: if_split)
  have edit: "message_step (f r) (f (r + 1))" if "r \<noteq> 0" "r \<noteq> - 1" for r
    using message_edit(1) [OF content, of "f r" "ms_updated_at m"] orig that
    by (simp add: f_def created_message_def split del: if_split)
  show ?thesis
  proof (cases "ms_state m")
    case MessageActive
    then have "f (ms_revision m) = m" by (cases m) (simp add: f_def created_message_def)
    with revision_chain [where R = message_step and f = f, OF first edit False] show ?thesis by simp
  next
    case MessageDeleted
    with ok have "ms_content m = []" by (simp add: message_restore_ok)
    with MessageDeleted have m: "m\<lparr>ms_content := [], ms_state := MessageDeleted\<rparr> = m" by simp
    show ?thesis
    proof (rule closed_history [where R = message_step and f = f, OF first edit _ _ False])
      show "message_step ?m0 m" if "ms_revision m = 1"
      proof -
        have "m\<lparr>ms_revision := 1, ms_content := [], ms_state := MessageDeleted\<rparr> = m"
          using that m by (cases m) simp
        then show ?thesis
          using message_edit(2) [OF content, of ?m0 "ms_updated_at m"] orig time
          by (simp add: created_message_def split del: if_split)
      qed
      show "message_step (f (ms_revision m - 1)) m"
        using message_edit(2) [OF content, of "f (ms_revision m - 1)" "ms_updated_at m"] orig False m
        by (simp add: f_def created_message_def split del: if_split)
    qed
  qed
qed

text \<open>C33. A persisted message row is accepted by \<open>restore\<close> exactly when the message operations produce
  it: a new message sequenced by the store, edited and possibly deleted, or a derived copy in a
  forked thread, which no operation ever changes.\<close>

theorem message_restore_exact:
  "is_ok (message_restore m) \<longleftrightarrow> (\<exists>m0. message_fresh m0 \<and> message_step\<^sup>*\<^sup>* m0 m)"
  using message_fresh_snapshot message_history message_rest.reachable_accepted by blast

lemma derived_message_immutable:
  "\<not> derivation_is_original (ms_derivation m) \<Longrightarrow> \<not> message_step m m'"
  by (auto elim!: message_step.cases simp: workspace_ops result_simps)

section \<open>Artifact versions\<close>

definition artifact_content_at :: "artifact \<Rightarrow> rstr \<Rightarrow> u64 \<Rightarrow> nat \<Rightarrow> artifact" where
  "artifact_content_at a media bytes n =
     a\<lparr>ar_content := Some \<lparr>ac_content_version = of_nat n, ac_media_type = media, ac_byte_size = bytes\<rparr>,
       ar_state := ArtifactAvailable, ar_revision := of_nat n\<rparr>"

lemma unat_small: "n \<le> 1000001 \<Longrightarrow> unat (of_nat n :: u32) = n \<and> unat (of_nat n :: u64) = n"
  by (simp add: unat_of_nat)

lemma succ_small:
  assumes "n < 1000000"
  shows "checked_add (of_nat n :: u32) 1 = Some (of_nat (Suc n))"
    and "of_nat (Suc n) \<le> max_artifact_content_version"
    and "1 \<le> (of_nat (Suc n) :: u32)"
proof -
  have n: "unat (of_nat n :: u32) = n" and Suc: "unat (of_nat (Suc n) :: u32) = Suc n"
    using unat_small [of n] unat_small [of "Suc n"] assms by simp_all
  show "checked_add (of_nat n :: u32) 1 = Some (of_nat (Suc n))"
    using assms by (simp add: checked_add_def n)
  have "unat (1000000 :: u32) = 1000000" by simp
  then show "of_nat (Suc n) \<le> max_artifact_content_version"
    using assms by (simp only: word_le_nat_alt max_artifact_content_version_def Suc)
  show "1 \<le> (of_nat (Suc n) :: u32)"
    by (simp only: word_le_nat_alt Suc unat_1)
qed

lemma artifact_record_next:
  assumes media: "validate_artifact_media_type media = Inr ()"
    and n: "n < 1000000" and a: "ar_updated_at a = now" and that: "t \<le> now"
  shows "artifact_step (if n = 0 then a\<lparr>ar_content := None, ar_state := ArtifactUnavailable,
      ar_revision := 0, ar_updated_at := t\<rparr> else artifact_content_at a media bytes n)
    (artifact_content_at a media bytes (Suc n))"
proof -
  let ?a = "if n = 0 then a\<lparr>ar_content := None, ar_state := ArtifactUnavailable,
      ar_revision := 0, ar_updated_at := t\<rparr> else artifact_content_at a media bytes n"
  let ?c = "\<lparr>ac_content_version = of_nat (Suc n) :: u32, ac_media_type = media, ac_byte_size = bytes\<rparr>"
  have "unat (of_nat n :: u64) = n" using unat_small [of n] n by simp
  then have r: "(of_nat n :: u64) \<noteq> - 1"
    using n unat_minus_one_word_max [where 'a = 64] by auto
  have touch: "touch (ar_revision ?a) (ar_updated_at ?a) now = Inr (of_nat (Suc n), now)"
    using r a that by (simp add: result_simps artifact_content_at_def add.commute)
  have "content_summary_validate ?c = Inr ()"
    using succ_small [OF n] media
    by (simp add: content_summary_validate_def validate_content_version_def result_simps)
  then have "artifact_record_content ?a ?c now = Inr (artifact_content_at a media bytes (Suc n))"
    using succ_small [OF n] a touch
    by (cases n) (simp_all add: artifact_record_content_def artifact_content_at_def)
  then show ?thesis by (rule artifact_step.record_content)
qed

definition artifact_created :: "artifact \<Rightarrow> artifact" where
  "artifact_created a = a\<lparr>ar_content := None, ar_state := ArtifactUnavailable, ar_revision := 0,
     ar_updated_at := ar_created_at a\<rparr>"

lemma artifact_created_fresh:
  assumes "validate_imported_file_name (ar_name a) = Inr ()"
  shows "artifact_fresh (artifact_created a)"
proof -
  have "artifact_new_unavailable (ar_id a) (ar_project_id a) (ar_thread_id a) (ar_name a)
      (ar_created_at a) = Inr (artifact_created a)"
    using assms by (cases a) (simp add: artifact_new_unavailable_def artifact_created_def)
  then show ?thesis by (rule artifact_fresh.fresh)
qed

lemma artifact_versions:
  assumes "validate_artifact_media_type media = Inr ()" and "ar_created_at a \<le> ar_updated_at a"
    and "n < 1000000"
  shows "artifact_step\<^sup>*\<^sup>* (artifact_created a) (artifact_content_at a media bytes (Suc n))"
  using assms(3)
proof (induction n)
  case 0
  with artifact_record_next [OF assms(1), of 0 a _ "ar_created_at a" bytes] assms(2)
  show ?case by (simp add: artifact_created_def)
next
  case (Suc n)
  then have IH: "artifact_step\<^sup>*\<^sup>* (artifact_created a) (artifact_content_at a media bytes (Suc n))"
    by simp
  from artifact_record_next [OF assms(1) Suc.prems refl assms(2)]
  have "artifact_step (artifact_content_at a media bytes (Suc n))
      (artifact_content_at a media bytes (Suc (Suc n)))" by simp
  with IH show ?case by (rule rtranclp.rtrancl_into_rtrancl)
qed

text \<open>The rows the artifact operations produce: what \<open>restore\<close> checks, a portable name, and for a
  removed artifact a revision that leaves room for at least one recorded version.\<close>

definition artifact_produced :: "artifact \<Rightarrow> bool" where
  "artifact_produced a \<longleftrightarrow> is_ok (artifact_restore a) \<and> is_ok (validate_imported_file_name (ar_name a)) \<and>
     (ar_state a = ArtifactDeleted \<longrightarrow> 2 \<le> ar_revision a \<and> ar_revision a \<le> 1000001)"

lemma artifact_restore_ok:
  "is_ok (artifact_restore a) \<longleftrightarrow>
     is_ok (validate_artifact_display_name (ar_name a)) \<and> ar_created_at a \<le> ar_updated_at a \<and>
     (case (ar_state a, ar_content a) of
        (ArtifactUnavailable, None) \<Rightarrow> ar_revision a = 0 \<and> ar_updated_at a = ar_created_at a
      | (ArtifactAvailable, Some c) \<Rightarrow>
          content_summary_validate c = Inr () \<and> ar_revision a = ucast (ac_content_version c)
      | (ArtifactDeleted, None) \<Rightarrow> 0 < ar_revision a
      | _ \<Rightarrow> False)"
  by (cases "ar_state a"; cases "ar_content a")
     (auto simp: artifact_restore_def is_ok_and_then is_ok_unit fail_if_Inr)

lemma content_version_bounds:
  "validate_content_version v = Inr () \<longleftrightarrow> 1 \<le> unat v \<and> unat v \<le> 1000000"
proof -
  have "unat (1000000 :: u32) = 1000000" by simp
  then show ?thesis
    by (simp only: validate_content_version_def fail_if_Inr word_le_nat_alt
          max_artifact_content_version_def unat_1 not_not)
qed

lemma artifact_step_produced:
  assumes "artifact_produced a" and "artifact_step a a'"
  shows "artifact_produced a'"
  using assms(2)
proof cases
  case (record_content content now)
  then have *: "content_summary_validate content = Inr ()" "ar_updated_at a \<le> now"
    "ar_revision a \<noteq> - 1" "ar_state a \<noteq> ArtifactDeleted"
    "a' = a\<lparr>ar_revision := ar_revision a + 1, ar_updated_at := now, ar_content := Some content,
            ar_state := ArtifactAvailable\<rparr>"
    by (auto simp: artifact_record_content_def result_simps)
  have "unat (ac_content_version content) = Suc (unat (ar_revision a))"
  proof (cases "ar_content a")
    case None
    with assms(1) * record_content show ?thesis
      by (cases "ar_state a") (auto simp: artifact_produced_def artifact_restore_ok
            artifact_record_content_def result_simps)
  next
    case (Some c)
    with record_content have "checked_add (ac_content_version c) 1 = Some (ac_content_version content)"
      by (auto simp: artifact_record_content_def result_simps bind_eq_Some_conv split: if_splits)
    with Some assms(1) * show ?thesis
      by (cases "ar_state a") (auto simp: artifact_produced_def artifact_restore_ok unat_ucast_u32
            dest: checked_add_Some_unat)
  qed
  then have "ar_revision a + 1 = ucast (ac_content_version content)"
    using *(3) by (simp add: word_unat_eq_iff unat_ucast_u32 unat_succ)
  with * assms(1) show ?thesis
    by (auto simp: artifact_produced_def artifact_restore_ok is_ok_unit)
next
  case (remove now)
  then have *: "ar_updated_at a \<le> now" "ar_state a = ArtifactAvailable" "ar_revision a \<noteq> - 1"
    "a' = a\<lparr>ar_revision := ar_revision a + 1, ar_updated_at := now, ar_content := None,
            ar_state := ArtifactDeleted\<rparr>"
    by (auto simp: artifact_remove_def result_simps)
  from remove obtain c where c: "ar_content a = Some c"
    by (auto simp: artifact_remove_def result_simps)
  with assms(1) *(2) have "ar_revision a = ucast (ac_content_version c)"
    "validate_content_version (ac_content_version c) = Inr ()"
    by (auto simp: artifact_produced_def artifact_restore_ok content_summary_validate_def
          result_simps)
  then have "1 \<le> unat (ar_revision a)" "unat (ar_revision a) \<le> 1000000"
    by (simp_all add: content_version_bounds unat_ucast_u32)
  then have "2 \<le> ar_revision a + 1" "ar_revision a + 1 \<le> 1000001" "ar_revision a + 1 \<noteq> 0"
    using *(3) by (simp_all add: word_le_nat_alt unat_succ u64_succ_neq_zero)
  with * assms(1) show ?thesis
    by (auto simp: artifact_produced_def artifact_restore_ok word_neq_0_conv)
qed

interpretation artifact_rest: restorable artifact_fresh artifact_step artifact_produced
proof unfold_locales
  fix a
  assume "artifact_fresh a"
  then show "artifact_produced a"
    by cases (auto simp: artifact_new_unavailable_def result_simps artifact_produced_def
                artifact_restore_ok validate_imported_file_name_def)
qed (rule artifact_step_produced)

lemma artifact_produced_history:
  assumes "artifact_produced a"
  shows "artifact_step\<^sup>*\<^sup>* (artifact_created a) a"
proof (cases "ar_state a")
  case ArtifactUnavailable
  with assms have "artifact_created a = a"
    by (cases a) (auto simp: artifact_produced_def artifact_restore_ok artifact_created_def
        split: option.splits)
  then show ?thesis by simp
next
  case ArtifactAvailable
  with assms obtain c where c: "ar_content a = Some c" "ar_revision a = ucast (ac_content_version c)"
    "content_summary_validate c = Inr ()" and time: "ar_created_at a \<le> ar_updated_at a"
    by (auto simp: artifact_produced_def artifact_restore_ok split: option.splits)
  then have v: "1 \<le> unat (ac_content_version c)" "unat (ac_content_version c) \<le> 1000000"
    and media: "validate_artifact_media_type (ac_media_type c) = Inr ()"
    by (auto simp: content_summary_validate_def result_simps content_version_bounds)
  have "artifact_content_at a (ac_media_type c) (ac_byte_size c) (unat (ac_content_version c)) = a"
    using c ArtifactAvailable
    by (cases a, cases c) (simp add: artifact_content_at_def word_unat_eq_iff unat_ucast_u32)
  with artifact_versions [OF media time, of "unat (ac_content_version c) - 1" "ac_byte_size c"] v
  show ?thesis by simp
next
  case ArtifactDeleted
  let ?n = "unat (ar_revision a) - 2"
  let ?m = "artifact_content_at a (lit ''x'') 0 (Suc ?n)"
  from assms ArtifactDeleted have a: "ar_content a = None" "ar_created_at a \<le> ar_updated_at a"
    "2 \<le> unat (ar_revision a)" "unat (ar_revision a) \<le> 1000001"
    by (auto simp: artifact_produced_def artifact_restore_ok word_le_nat_alt split: option.splits)
  have "validate_artifact_media_type (lit ''x'') = Inr ()"
    by (simp add: validate_artifact_media_type_def validate_text_def str_trim_def
        char_is_whitespace_def str_len_def utf8_width_def char_is_control_def)
  from artifact_versions [OF this a(2), of ?n 0] a have "artifact_step\<^sup>*\<^sup>* (artifact_created a) ?m"
    by simp
  moreover have "(of_nat (Suc ?n) :: u64) = ar_revision a - 1"
    using a by (simp add: word_unat_eq_iff unat_sub word_le_nat_alt unat_of_nat)
  then have "artifact_remove ?m (ar_updated_at a) = Inr a"
    using a ArtifactDeleted
    by (cases a) (auto simp: artifact_remove_def artifact_content_at_def touch_def checked_add_one)
  then have "artifact_step ?m a" by (rule artifact_step.remove)
  ultimately show ?thesis by (rule rtranclp.rtrancl_into_rtrancl)
qed

text \<open>C34. An artifact row is produced by some history of imports, recorded versions and removal
  exactly when \<open>restore\<close> accepts it, its name is portable and, once removed, its revision lies
  between 2 and 1000001: the revision of an available artifact is its content version, and a
  removal follows at least one and at most 1000000 recorded versions.\<close>

theorem artifact_restore_exact:
  "(\<exists>a0. artifact_fresh a0 \<and> artifact_step\<^sup>*\<^sup>* a0 a) \<longleftrightarrow> artifact_produced a"
  using artifact_produced_history [of a] artifact_created_fresh [of a]
    artifact_rest.reachable_accepted
  by (auto simp: artifact_produced_def is_ok_unit)

end
