(* ===== verification/Schedules.thy ===== *)
theory Schedules
  imports Encodings Aggregates
begin

text \<open>
  Automation schedules (grok-domain, \<open>automation.rs\<close>): the canonical text form, the two legacy
  formats accepted for normalization, and the calendar calculator. The calendar (\<open>chrono\<close>), the
  time-zone database (\<open>chrono_tz\<close>) and the JSON parser (\<open>serde_json\<close>) are third-party code and are
  parameters: a record of the operations the code calls. Lemmas: the canonical form round-trips
  and is the only accepted text, normalization yields canonical schedules and is idempotent, and
  the calculator's loop ends and returns the decisions of the reference enumeration.
\<close>

definition automation_schedule_calculator_version :: u32 where
  "automation_schedule_calculator_version = 1"
definition max_automation_schedule_bytes :: nat where "max_automation_schedule_bytes = 256"
definition max_automation_schedule_window_days :: u64 where
  "max_automation_schedule_window_days = 370"
definition max_automation_schedule_decisions :: nat where
  "max_automation_schedule_decisions = 370"
definition millis_per_day :: u64 where "millis_per_day = 86400000"

definition renderer_json_fields :: "rstr list" where
  "renderer_json_fields = [lit ''frequency'', lit ''localTime'', lit ''weekday'', lit ''dayOfMonth'',
     lit ''timeZoneIana'', lit ''timeZoneWindows'']"

datatype automation_cadence =
    CadenceDaily
  | CadenceWeekdays
  | CadenceWeekly u8
  | CadenceMonthly u8

record automation_schedule =
  as_cadence :: automation_cadence
  as_hour :: u8
  as_minute :: u8

datatype automation_schedule_error =
    ScheduleTooLong
  | ScheduleInvalidCanonical
  | ScheduleInvalidNormalization
  | ScheduleInvalidTimezone
  | ScheduleInvalidLocalDateTime
  | ScheduleTimestampOutOfRange
  | ScheduleInvalidWindow
  | ScheduleInvalidLimit

section \<open>Text form\<close>

text \<open>\<open>str::split\<close> on one character, \<open>str::split_ascii_whitespace\<close>, \<open>u8::from_str\<close>,
  \<open>u8::to_string\<close> and the \<open>{:02}\<close> format.\<close>

fun split_on :: "rchar \<Rightarrow> rstr \<Rightarrow> rstr list" where
  "split_on sep [] = [[]]"
| "split_on sep (c # s) =
     (if c = sep then [] # split_on sep s
      else (case split_on sep s of [] \<Rightarrow> [[c]] | f # fs \<Rightarrow> (c # f) # fs))"

definition char_is_ascii_whitespace :: "rchar \<Rightarrow> bool" where
  "char_is_ascii_whitespace c \<longleftrightarrow> c = 32 \<or> c = 9 \<or> c = 10 \<or> c = 12 \<or> c = 13"

fun split_ascii_whitespace :: "rstr \<Rightarrow> rstr list" where
  "split_ascii_whitespace [] = []"
| "split_ascii_whitespace (c # s) =
     (if char_is_ascii_whitespace c then split_ascii_whitespace s
      else (case s of
              [] \<Rightarrow> [[c]]
            | d # _ \<Rightarrow>
                if char_is_ascii_whitespace d then [c] # split_ascii_whitespace s
                else (case split_ascii_whitespace s of
                        [] \<Rightarrow> [[c]] | f # fs \<Rightarrow> (c # f) # fs)))"

definition char_is_digit :: "rchar \<Rightarrow> bool" where
  "char_is_digit c \<longleftrightarrow> 48 \<le> c \<and> c \<le> 57"

definition digits_value :: "rstr \<Rightarrow> nat" where
  "digits_value s = foldl (\<lambda>n c. 10 * n + (c - 48)) 0 s"

definition u8_parse :: "rstr \<Rightarrow> u8 option" where
  "u8_parse s =
     (let ds = (case s of c # r \<Rightarrow> if c = 43 then r else s | [] \<Rightarrow> [])
      in if ds \<noteq> [] \<and> list_all char_is_digit ds \<and> digits_value ds < 256
         then Some (of_nat (digits_value ds)) else None)"

definition u8_to_string :: "u8 \<Rightarrow> rstr" where
  "u8_to_string w = nat_to_dec (unat w)"

definition format_02 :: "u8 \<Rightarrow> rstr" where
  "format_02 w = (if unat w < 10 then 48 # u8_to_string w else u8_to_string w)"

definition schedule_new ::
  "automation_cadence \<Rightarrow> u8 \<Rightarrow> u8 \<Rightarrow> automation_schedule_error + automation_schedule" where
  "schedule_new cadence hour minute =
     and_then (fail_if
         (23 < hour \<or> 59 < minute \<or>
          (case cadence of CadenceWeekly weekday \<Rightarrow> 6 < weekday | _ \<Rightarrow> False) \<or>
          (case cadence of CadenceMonthly d \<Rightarrow> \<not> (1 \<le> d \<and> d \<le> 31) | _ \<Rightarrow> False))
       ScheduleInvalidCanonical) (\<lambda>_.
     Inr \<lparr>as_cadence = cadence, as_hour = hour, as_minute = minute\<rparr>)"

definition schedule_time_text :: "automation_schedule \<Rightarrow> rstr" where
  "schedule_time_text s = format_02 (as_hour s) @ lit '':'' @ format_02 (as_minute s)"

definition to_canonical_string :: "automation_schedule \<Rightarrow> rstr" where
  "to_canonical_string s =
     (case as_cadence s of
        CadenceDaily \<Rightarrow> lit ''v1;daily;'' @ schedule_time_text s
      | CadenceWeekdays \<Rightarrow> lit ''v1;weekdays;'' @ schedule_time_text s
      | CadenceWeekly weekday \<Rightarrow>
          lit ''v1;weekly;'' @ u8_to_string weekday @ lit '';'' @ schedule_time_text s
      | CadenceMonthly d \<Rightarrow>
          lit ''v1;monthly;'' @ u8_to_string d @ lit '';'' @ schedule_time_text s)"

definition validate_schedule_length :: "rstr \<Rightarrow> automation_schedule_error + unit" where
  "validate_schedule_length value =
     and_then (fail_if (value = []) ScheduleInvalidCanonical) (\<lambda>_.
     fail_if (max_automation_schedule_bytes < str_len value) ScheduleTooLong)"

text \<open>\<open>parse_time\<close> reads the five bytes of the text; with all of them ASCII the bytes are the
  characters.\<close>

definition parse_time :: "rstr \<Rightarrow> automation_schedule_error + (u8 \<times> u8)" where
  "parse_time value =
     and_then (fail_if
         (let bytes = str_bytes value in
          length bytes \<noteq> 5 \<or> bytes ! 2 \<noteq> 58 \<or>
          \<not> list_all (\<lambda>b. 48 \<le> b \<and> b \<le> 57) (take 2 bytes) \<or>
          \<not> list_all (\<lambda>b. 48 \<le> b \<and> b \<le> 57) (drop 3 bytes))
       ScheduleInvalidCanonical) (\<lambda>_.
     and_then (ok_or (u8_parse (take 2 value)) ScheduleInvalidCanonical) (\<lambda>hour.
     and_then (ok_or (u8_parse (drop 3 value)) ScheduleInvalidCanonical) (\<lambda>minute.
     Inr (hour, minute))))"

definition parse_canonical_u8 :: "rstr \<Rightarrow> automation_schedule_error + u8" where
  "parse_canonical_u8 value =
     and_then (ok_or (u8_parse value) ScheduleInvalidCanonical) (\<lambda>parsed.
     and_then (fail_if (u8_to_string parsed \<noteq> value) ScheduleInvalidCanonical) (\<lambda>_.
     Inr parsed))"

definition parse_canonical_fields ::
  "rstr list \<Rightarrow> automation_schedule_error + automation_schedule" where
  "parse_canonical_fields parts =
     (case parts of
        [version, name, time] \<Rightarrow>
          if version = lit ''v1'' \<and> name = lit ''daily'' then
            and_then (parse_time time) (\<lambda>(hour, minute). schedule_new CadenceDaily hour minute)
          else if version = lit ''v1'' \<and> name = lit ''weekdays'' then
            and_then (parse_time time) (\<lambda>(hour, minute). schedule_new CadenceWeekdays hour minute)
          else Inl ScheduleInvalidCanonical
      | [version, name, number, time] \<Rightarrow>
          if version = lit ''v1'' \<and> name = lit ''weekly'' then
            and_then (parse_time time) (\<lambda>(hour, minute).
            and_then (parse_canonical_u8 number) (\<lambda>weekday.
            schedule_new (CadenceWeekly weekday) hour minute))
          else if version = lit ''v1'' \<and> name = lit ''monthly'' then
            and_then (parse_time time) (\<lambda>(hour, minute).
            and_then (parse_canonical_u8 number) (\<lambda>day_of_month.
            schedule_new (CadenceMonthly day_of_month) hour minute))
          else Inl ScheduleInvalidCanonical
      | _ \<Rightarrow> Inl ScheduleInvalidCanonical)"

definition parse_canonical :: "rstr \<Rightarrow> automation_schedule_error + automation_schedule" where
  "parse_canonical value =
     and_then (validate_schedule_length value) (\<lambda>_.
     and_then (parse_canonical_fields (split_on 59 value)) (\<lambda>schedule.
     and_then (fail_if (to_canonical_string schedule \<noteq> value) ScheduleInvalidCanonical) (\<lambda>_.
     Inr schedule)))"

section \<open>Normalization of legacy formats\<close>

text \<open>What the code reads of a \<open>serde_json::Value\<close>: objects, strings and the result of \<open>as_u64\<close> on a
  number; every other value is \<open>JOther\<close>. \<open>json_parse\<close> is \<open>serde_json::from_str\<close>.\<close>

datatype json = JObject "(rstr \<times> json) list" | JString rstr | JNumber "u64 option" | JOther

type_synonym json_parse = "rstr \<Rightarrow> json option"

fun json_as_str :: "json \<Rightarrow> rstr option" where
  "json_as_str (JString s) = Some s"
| "json_as_str _ = None"

fun json_as_u64 :: "json \<Rightarrow> u64 option" where
  "json_as_u64 (JNumber n) = n"
| "json_as_u64 _ = None"

datatype local_result = LocalNone | LocalSingle int | LocalAmbiguous int int

text \<open>
  The calendar and time-zone operations the code calls. A \<open>NaiveDate\<close> is a value of \<open>'d\<close>, a \<open>Tz\<close> of
  \<open>'z\<close>, an instant its Unix time in milliseconds, and a local date-time a date with the
  millisecond of its day. Dates compare by \<open>cal_day_number\<close>, their chronological order.
\<close>

record ('d, 'z) calendar =
  cal_from_ymd :: "int \<Rightarrow> nat \<Rightarrow> nat \<Rightarrow> 'd option"
  cal_ymd :: "'d \<Rightarrow> int \<times> nat \<times> nat"
  cal_day_number :: "'d \<Rightarrow> int"
  cal_weekday :: "'d \<Rightarrow> nat"
  cal_succ :: "'d \<Rightarrow> 'd option"
  cal_from_millis :: "int \<Rightarrow> int option"
  tz_parse :: "rstr \<Rightarrow> 'z option"
  tz_name :: "'z \<Rightarrow> rstr"
  tz_local :: "'z \<Rightarrow> int \<Rightarrow> 'd \<times> nat"
  tz_resolve :: "'z \<Rightarrow> 'd \<times> nat \<Rightarrow> local_result"

definition parse_timezone ::
  "('d, 'z) calendar \<Rightarrow> rstr \<Rightarrow> automation_schedule_error + 'z" where
  "parse_timezone cal value = ok_or (tz_parse cal value) ScheduleInvalidTimezone"

definition required_string ::
  "(rstr \<times> json) list \<Rightarrow> rstr \<Rightarrow> automation_schedule_error + rstr" where
  "required_string object key =
     ok_or (Option.bind (hm_get object key) json_as_str) ScheduleInvalidNormalization"

definition u8_try_from :: "u64 \<Rightarrow> u8 option" where
  "u8_try_from n = (if n < 256 then Some (ucast n) else None)"

definition optional_json_u8 ::
  "(rstr \<times> json) list \<Rightarrow> rstr \<Rightarrow> automation_schedule_error + u8 option" where
  "optional_json_u8 object key =
     (case hm_get object key of
        None \<Rightarrow> Inr None
      | Some value \<Rightarrow>
          map_ok Some (ok_or (Option.bind (json_as_u64 value) u8_try_from)
            ScheduleInvalidNormalization))"

definition renderer_cadence ::
  "rstr \<Rightarrow> u8 option \<Rightarrow> u8 option \<Rightarrow> automation_cadence option" where
  "renderer_cadence frequency weekday day_of_month =
     (case (weekday, day_of_month) of
        (None, None) \<Rightarrow>
          if frequency = lit ''daily'' then Some CadenceDaily
          else if frequency = lit ''weekdays'' then Some CadenceWeekdays else None
      | (Some w, None) \<Rightarrow> if frequency = lit ''weekly'' then Some (CadenceWeekly w) else None
      | (None, Some d) \<Rightarrow> if frequency = lit ''monthly'' then Some (CadenceMonthly d) else None
      | _ \<Rightarrow> None)"

definition parse_renderer_json ::
  "('d, 'z) calendar \<Rightarrow> json_parse \<Rightarrow> rstr \<Rightarrow> rstr \<Rightarrow>
   automation_schedule_error + automation_schedule" where
  "parse_renderer_json cal json value timezone =
     and_then (ok_or (json value) ScheduleInvalidNormalization) (\<lambda>value.
     and_then (case value of JObject obj \<Rightarrow> Inr obj | _ \<Rightarrow> Inl ScheduleInvalidNormalization) (\<lambda>object.
     and_then (fail_if (list_ex (\<lambda>(key, _). key \<notin> set renderer_json_fields) object)
       ScheduleInvalidNormalization) (\<lambda>_.
     and_then (required_string object (lit ''timeZoneIana'')) (\<lambda>json_timezone.
     and_then (parse_timezone cal json_timezone) (\<lambda>json_tz.
     and_then (parse_timezone cal timezone) (\<lambda>tz.
     and_then (fail_if (tz_name cal json_tz \<noteq> tz_name cal tz) ScheduleInvalidNormalization) (\<lambda>_.
     and_then
       (case hm_get object (lit ''timeZoneWindows'') of
          None \<Rightarrow> Inr ()
        | Some v \<Rightarrow>
            and_then (ok_or (json_as_str v) ScheduleInvalidNormalization) (\<lambda>name.
            fail_if (str_trim name = [] \<or> 128 < str_len name \<or> list_ex char_is_control name)
              ScheduleInvalidNormalization)) (\<lambda>_.
     and_then (required_string object (lit ''localTime'')) (\<lambda>local_time.
     and_then (map_err (\<lambda>_. ScheduleInvalidNormalization) (parse_time local_time)) (\<lambda>(hour, minute).
     and_then (optional_json_u8 object (lit ''weekday'')) (\<lambda>weekday.
     and_then (optional_json_u8 object (lit ''dayOfMonth'')) (\<lambda>day_of_month.
     and_then (required_string object (lit ''frequency'')) (\<lambda>frequency.
     and_then (ok_or (renderer_cadence frequency weekday day_of_month)
       ScheduleInvalidNormalization) (\<lambda>cadence.
     map_err (\<lambda>_. ScheduleInvalidNormalization) (schedule_new cadence hour minute)))))))))))))))"

definition parse_cron_number :: "rstr \<Rightarrow> u8 \<Rightarrow> u8 \<Rightarrow> automation_schedule_error + u8" where
  "parse_cron_number value minimum maximum =
     and_then (ok_or (u8_parse value) ScheduleInvalidNormalization) (\<lambda>parsed.
     and_then (fail_if (\<not> (minimum \<le> parsed \<and> parsed \<le> maximum) \<or> u8_to_string parsed \<noteq> value)
       ScheduleInvalidNormalization) (\<lambda>_.
     Inr parsed))"

definition parse_limited_cron :: "rstr \<Rightarrow> automation_schedule_error + automation_schedule" where
  "parse_limited_cron value =
     (case split_ascii_whitespace value of
        [minute, hour, day_of_month, month, weekday] \<Rightarrow>
          and_then (parse_cron_number minute 0 59) (\<lambda>minute.
          and_then (parse_cron_number hour 0 23) (\<lambda>hour.
          and_then (fail_if (month \<noteq> lit ''*'') ScheduleInvalidNormalization) (\<lambda>_.
          and_then
            (if day_of_month = lit ''*'' then
               if weekday = lit ''*'' then Inr CadenceDaily
               else if weekday = lit ''1-5'' then Inr CadenceWeekdays
               else map_ok CadenceWeekly (parse_cron_number weekday 0 6)
             else if weekday = lit ''*'' then
               map_ok CadenceMonthly (parse_cron_number day_of_month 1 31)
             else Inl ScheduleInvalidNormalization) (\<lambda>cadence.
          map_err (\<lambda>_. ScheduleInvalidNormalization) (schedule_new cadence hour minute)))))
      | _ \<Rightarrow> Inl ScheduleInvalidNormalization)"

definition parse_for_normalization ::
  "('d, 'z) calendar \<Rightarrow> json_parse \<Rightarrow> rstr \<Rightarrow> rstr \<Rightarrow>
   automation_schedule_error + automation_schedule" where
  "parse_for_normalization cal json value timezone =
     and_then (validate_schedule_length value) (\<lambda>_.
     and_then (fail_if (list_ex char_is_control value) ScheduleInvalidNormalization) (\<lambda>_.
     and_then (parse_timezone cal timezone) (\<lambda>_.
     if str_starts_with value (lit ''v1;'') then parse_canonical value
     else if str_starts_with value (lit ''{'') then parse_renderer_json cal json value timezone
     else parse_limited_cron value)))"

section \<open>The calendar calculator\<close>

record automation_local_date_time =
  ld_year :: int
  ld_month :: u8
  ld_day :: u8
  ld_hour :: u8
  ld_minute :: u8

datatype automation_schedule_decision =
    DecisionDue automation_local_date_time unix_millis
  | DecisionSkippedNonexistentLocalTime automation_local_date_time

fun decision_nominal_local :: "automation_schedule_decision \<Rightarrow> automation_local_date_time" where
  "decision_nominal_local (DecisionDue nominal _) = nominal"
| "decision_nominal_local (DecisionSkippedNonexistentLocalTime nominal) = nominal"

fun decision_scheduled_for :: "automation_schedule_decision \<Rightarrow> unix_millis option" where
  "decision_scheduled_for (DecisionDue _ at) = Some at"
| "decision_scheduled_for (DecisionSkippedNonexistentLocalTime _) = None"

record automation_schedule_evaluation =
  ev_decisions :: "automation_schedule_decision list"
  ev_truncated :: bool

text \<open>The millisecond of the day of a wall-clock time, \<open>and_hms_opt\<close> with zero seconds.\<close>

definition and_hms :: "u8 \<Rightarrow> u8 \<Rightarrow> nat option" where
  "and_hms hour minute =
     (if hour < 24 \<and> minute < 60 then Some ((unat hour * 60 + unat minute) * 60000) else None)"

definition local_to_naive ::
  "('d, 'z) calendar \<Rightarrow> automation_local_date_time \<Rightarrow> automation_schedule_error + ('d \<times> nat)" where
  "local_to_naive cal l =
     ok_or (Option.bind (cal_from_ymd cal (ld_year l) (unat (ld_month l)) (unat (ld_day l)))
              (\<lambda>date. map_option (Pair date) (and_hms (ld_hour l) (ld_minute l))))
       ScheduleInvalidLocalDateTime"

definition local_new ::
  "('d, 'z) calendar \<Rightarrow> int \<Rightarrow> u8 \<Rightarrow> u8 \<Rightarrow> u8 \<Rightarrow> u8 \<Rightarrow>
   automation_schedule_error + automation_local_date_time" where
  "local_new cal year month day hour minute =
     (let value = \<lparr>ld_year = year, ld_month = month, ld_day = day, ld_hour = hour,
                   ld_minute = minute\<rparr>
      in and_then (local_to_naive cal value) (\<lambda>_. Inr value))"

definition local_from_date ::
  "('d, 'z) calendar \<Rightarrow> 'd \<Rightarrow> u8 \<Rightarrow> u8 \<Rightarrow> automation_local_date_time" where
  "local_from_date cal date hour minute =
     (case cal_ymd cal date of
        (year, month, day) \<Rightarrow>
          \<lparr>ld_year = year, ld_month = of_nat month, ld_day = of_nat day, ld_hour = hour,
           ld_minute = minute\<rparr>)"

definition schedule_matches :: "('d, 'z) calendar \<Rightarrow> automation_schedule \<Rightarrow> 'd \<Rightarrow> bool" where
  "schedule_matches cal s date =
     (case as_cadence s of
        CadenceDaily \<Rightarrow> True
      | CadenceWeekdays \<Rightarrow> \<not> (cal_weekday cal date = 6 \<or> cal_weekday cal date = 0)
      | CadenceWeekly weekday \<Rightarrow> cal_weekday cal date = unat weekday
      | CadenceMonthly day_of_month \<Rightarrow> snd (snd (cal_ymd cal date)) = unat day_of_month)"

definition utc_from_millis ::
  "('d, 'z) calendar \<Rightarrow> unix_millis \<Rightarrow> automation_schedule_error + int" where
  "utc_from_millis cal value =
     and_then (fail_if (2 ^ 63 \<le> unat value) ScheduleTimestampOutOfRange) (\<lambda>_.
     ok_or (cal_from_millis cal (int (unat value))) ScheduleTimestampOutOfRange)"

definition positive_timestamp :: "int \<Rightarrow> automation_schedule_error + unix_millis" where
  "positive_timestamp value =
     (if 0 \<le> value \<and> value < 2 ^ 63 then Inr (of_int value) else Inl ScheduleTimestampOutOfRange)"

definition push_resolved_decision ::
  "automation_schedule_decision list \<Rightarrow> automation_local_date_time \<Rightarrow> int \<Rightarrow> unix_millis \<Rightarrow>
   unix_millis \<Rightarrow> automation_schedule_error + automation_schedule_decision list" where
  "push_resolved_decision decisions nominal value after_exclusive through_inclusive =
     and_then (positive_timestamp value) (\<lambda>scheduled_for.
     Inr (if after_exclusive < scheduled_for \<and> scheduled_for \<le> through_inclusive
          then decisions @ [DecisionDue nominal scheduled_for] else decisions))"

text \<open>The order of local date-times: by date, then by the time of the day.\<close>

definition local_less :: "('d, 'z) calendar \<Rightarrow> 'd \<times> nat \<Rightarrow> 'd \<times> nat \<Rightarrow> bool" where
  "local_less cal a b \<longleftrightarrow>
     cal_day_number cal (fst a) < cal_day_number cal (fst b) \<or>
     cal_day_number cal (fst a) = cal_day_number cal (fst b) \<and> snd a < snd b"

text \<open>A bounded evaluation window: its UTC bounds and their local readings.\<close>

record 'd schedule_window =
  sw_after :: unix_millis
  sw_through :: unix_millis
  sw_after_local :: "'d \<times> nat"
  sw_through_local :: "'d \<times> nat"

definition evaluate_date ::
  "('d, 'z) calendar \<Rightarrow> automation_schedule \<Rightarrow> 'z \<Rightarrow> 'd schedule_window \<Rightarrow> 'd \<Rightarrow>
   automation_schedule_decision list \<Rightarrow>
   automation_schedule_error + automation_schedule_decision list" where
  "evaluate_date cal s tz w date decisions =
     (let nominal = local_from_date cal date (as_hour s) (as_minute s)
      in and_then (local_to_naive cal nominal) (\<lambda>local.
         (case tz_resolve cal tz local of
            LocalSingle value \<Rightarrow>
              push_resolved_decision decisions nominal value (sw_after w) (sw_through w)
          | LocalAmbiguous first second \<Rightarrow>
              push_resolved_decision decisions nominal (if first \<le> second then first else second)
                (sw_after w) (sw_through w)
          | LocalNone \<Rightarrow>
              Inr (if local_less cal (sw_after_local w) local \<and>
                      \<not> local_less cal (sw_through_local w) local
                   then decisions @ [DecisionSkippedNonexistentLocalTime nominal]
                   else decisions))))"

text \<open>The loop over the calendar days; \<open>None\<close> would be a run that does not end.\<close>

partial_function (option) decisions_loop ::
  "('d, 'z) calendar \<Rightarrow> automation_schedule \<Rightarrow> 'z \<Rightarrow> 'd schedule_window \<Rightarrow> nat \<Rightarrow> 'd \<Rightarrow>
   automation_schedule_decision list \<Rightarrow>
   (automation_schedule_error + automation_schedule_evaluation) option" where
  "decisions_loop cal s tz w limit date decisions =
     (if cal_day_number cal date \<le> cal_day_number cal (fst (sw_through_local w)) then
        (case (if schedule_matches cal s date then evaluate_date cal s tz w date decisions
               else Inr decisions) of
           Inl e \<Rightarrow> Some (Inl e)
         | Inr decisions' \<Rightarrow>
             if schedule_matches cal s date \<and> limit < length decisions'
             then Some (Inr \<lparr>ev_decisions = take limit decisions', ev_truncated = True\<rparr>)
             else (case cal_succ cal date of
                     None \<Rightarrow> Some (Inl ScheduleTimestampOutOfRange)
                   | Some date' \<Rightarrow> decisions_loop cal s tz w limit date' decisions'))
      else Some (Inr \<lparr>ev_decisions = decisions, ev_truncated = False\<rparr>))"

definition evaluation_window ::
  "('d, 'z) calendar \<Rightarrow> rstr \<Rightarrow> unix_millis \<Rightarrow> unix_millis \<Rightarrow> nat \<Rightarrow>
   automation_schedule_error + ('z \<times> 'd schedule_window)" where
  "evaluation_window cal timezone after_exclusive through_inclusive limit =
     and_then (fail_if (\<not> (1 \<le> limit \<and> limit \<le> max_automation_schedule_decisions))
       ScheduleInvalidLimit) (\<lambda>_.
     and_then (ok_or (checked_sub through_inclusive after_exclusive) ScheduleInvalidWindow) (\<lambda>span.
     and_then (fail_if (max_automation_schedule_window_days * millis_per_day < span)
       ScheduleInvalidWindow) (\<lambda>_.
     and_then (parse_timezone cal timezone) (\<lambda>tz.
     and_then (utc_from_millis cal after_exclusive) (\<lambda>after_utc.
     and_then (utc_from_millis cal through_inclusive) (\<lambda>through_utc.
     Inr (tz, \<lparr>sw_after = after_exclusive, sw_through = through_inclusive,
               sw_after_local = tz_local cal tz after_utc,
               sw_through_local = tz_local cal tz through_utc\<rparr>)))))))"

definition decisions_between ::
  "('d, 'z) calendar \<Rightarrow> automation_schedule \<Rightarrow> rstr \<Rightarrow> unix_millis \<Rightarrow> unix_millis \<Rightarrow> nat \<Rightarrow>
   (automation_schedule_error + automation_schedule_evaluation) option" where
  "decisions_between cal s timezone after_exclusive through_inclusive limit =
     (case evaluation_window cal timezone after_exclusive through_inclusive limit of
        Inl e \<Rightarrow> Some (Inl e)
      | Inr (tz, w) \<Rightarrow> decisions_loop cal s tz w limit (fst (sw_after_local w)) [])"

definition next_decision_after ::
  "('d, 'z) calendar \<Rightarrow> automation_schedule \<Rightarrow> rstr \<Rightarrow> unix_millis \<Rightarrow>
   (automation_schedule_error + automation_schedule_decision) option" where
  "next_decision_after cal s timezone after =
     (case ok_or (checked_add after (max_automation_schedule_window_days * millis_per_day))
             ScheduleTimestampOutOfRange of
        Inl e \<Rightarrow> Some (Inl e)
      | Inr through \<Rightarrow>
          map_option (\<lambda>result.
              and_then result (\<lambda>evaluation.
              (case ev_decisions evaluation of
                 [] \<Rightarrow> Inl ScheduleTimestampOutOfRange | d # _ \<Rightarrow> Inr d)))
            (decisions_between cal s timezone after through 1))"

definition decision_for_nominal ::
  "('d, 'z) calendar \<Rightarrow> automation_schedule \<Rightarrow> rstr \<Rightarrow> automation_local_date_time \<Rightarrow>
   automation_schedule_error + automation_schedule_decision" where
  "decision_for_nominal cal s timezone nominal =
     and_then (local_to_naive cal nominal) (\<lambda>local.
     and_then (fail_if (ld_hour nominal \<noteq> as_hour s \<or> ld_minute nominal \<noteq> as_minute s \<or>
                        \<not> schedule_matches cal s (fst local)) ScheduleInvalidLocalDateTime) (\<lambda>_.
     and_then (parse_timezone cal timezone) (\<lambda>tz.
     (case tz_resolve cal tz local of
        LocalSingle value \<Rightarrow> map_ok (DecisionDue nominal) (positive_timestamp value)
      | LocalAmbiguous first second \<Rightarrow>
          map_ok (DecisionDue nominal)
            (positive_timestamp (if first \<le> second then first else second))
      | LocalNone \<Rightarrow> Inr (DecisionSkippedNonexistentLocalTime nominal)))))"

text \<open>The hashed bytes of \<open>fingerprint\<close>; SHA-256 is the parameter \<open>sha\<close>.\<close>

datatype automation_schedule_fingerprint = ScheduleFingerprint (fingerprint_bytes: "u8 list")

definition u32_to_be_bytes :: "u32 \<Rightarrow> u8 list" where
  "u32_to_be_bytes w = map (\<lambda>i. ucast (drop_bit (8 * i) w)) [3, 2, 1, 0]"

definition fingerprint_preimage :: "automation_schedule \<Rightarrow> rstr \<Rightarrow> u8 list" where
  "fingerprint_preimage s tz =
     str_bytes (lit ''grok-desktop/automation-schedule'') @ [0] @
     u32_to_be_bytes automation_schedule_calculator_version @ [0] @
     str_bytes (to_canonical_string s) @ [0] @ str_bytes tz"

definition schedule_fingerprint ::
  "('d, 'z) calendar \<Rightarrow> (u8 list \<Rightarrow> u8 list) \<Rightarrow> automation_schedule \<Rightarrow> rstr \<Rightarrow>
   automation_schedule_error + automation_schedule_fingerprint" where
  "schedule_fingerprint cal sha s timezone =
     and_then (parse_timezone cal timezone) (\<lambda>tz.
     Inr (ScheduleFingerprint (sha (fingerprint_preimage s (tz_name cal tz)))))"

section \<open>Round trip of the canonical form\<close>

definition schedule_valid :: "automation_schedule \<Rightarrow> bool" where
  "schedule_valid s \<longleftrightarrow> schedule_new (as_cadence s) (as_hour s) (as_minute s) = Inr s"

lemma schedule_new_Inr [result_simps]:
  "schedule_new c h m = Inr s \<longleftrightarrow>
     s = \<lparr>as_cadence = c, as_hour = h, as_minute = m\<rparr> \<and> schedule_valid s"
  by (auto simp: schedule_new_def schedule_valid_def result_simps)

lemma schedule_valid_bounds: "schedule_valid s \<Longrightarrow> as_hour s \<le> 23 \<and> as_minute s \<le> 59"
  by (auto simp: schedule_valid_def schedule_new_def result_simps)

lemma digits_value_snoc: "digits_value (s @ [c]) = 10 * digits_value s + (c - 48)"
  by (simp add: digits_value_def)

lemma digits_value_zero: "digits_value (48 # s) = digits_value s"
  by (simp add: digits_value_def)

lemma digits_value_nat_to_dec: "digits_value (nat_to_dec n) = n"
proof (induction n rule: nat_to_dec.induct)
  case (1 n)
  show ?case
  proof (cases "n < 10")
    case True
    then show ?thesis by (simp add: nat_to_dec.simps [of n] digits_value_def)
  next
    case False
    with 1 show ?thesis by (simp add: nat_to_dec.simps [of n] digits_value_snoc)
  qed
qed

lemma nat_to_dec_digits: "list_all char_is_digit (nat_to_dec n)"
  using nat_to_dec_ascii by (simp add: list_all_iff char_is_digit_def)

lemma u8_parse_digits:
  assumes "ds \<noteq> []" "list_all char_is_digit ds"
  shows "u8_parse ds = (if digits_value ds < 256 then Some (of_nat (digits_value ds)) else None)"
  using assms by (cases ds) (auto simp: u8_parse_def char_is_digit_def Let_def)

lemma u8_bound: "unat (w :: u8) < 256"
  using unsigned_less [of w, where 'a = nat] by simp

lemma u8_parse_to_string: "u8_parse (u8_to_string w) = Some w"
  using u8_parse_digits [OF nat_to_dec_neq_Nil nat_to_dec_digits, of "unat w"] u8_bound [of w]
  by (simp add: u8_to_string_def digits_value_nat_to_dec)

lemma format_02_digits: "list_all char_is_digit (format_02 w)"
  using nat_to_dec_digits [of "unat w"] by (simp add: format_02_def u8_to_string_def char_is_digit_def)

lemma u8_parse_format_02: "u8_parse (format_02 w) = Some w"
proof -
  have "digits_value (format_02 w) = unat w"
    by (simp add: format_02_def u8_to_string_def digits_value_zero digits_value_nat_to_dec)
  moreover have "format_02 w \<noteq> []" by (simp add: format_02_def u8_to_string_def nat_to_dec_neq_Nil)
  ultimately show ?thesis using u8_parse_digits [OF _ format_02_digits, of w] u8_bound [of w] by simp
qed

lemma length_format_02: "unat w < 100 \<Longrightarrow> length (format_02 w) = 2"
  by (cases "unat w < 10") (simp_all add: format_02_def u8_to_string_def nat_to_dec.simps)

lemma str_bytes_ascii: "list_all (\<lambda>c. c < 128) s \<Longrightarrow> str_bytes s = map of_nat s"
  by (induction s) (simp_all add: str_bytes_def utf8_encode_def)

lemma byte_digit: "char_is_digit c \<Longrightarrow> (48 :: u8) \<le> of_nat c \<and> (of_nat c :: u8) \<le> 57"
  by (simp add: char_is_digit_def word_le_nat_alt unat_of_nat)

lemma parse_time_format:
  assumes "unat h < 100" "unat m < 100"
  shows "parse_time (format_02 h @ lit '':'' @ format_02 m) = Inr (h, m)"
proof -
  obtain a b where h: "format_02 h = [a, b]"
    using length_format_02 [OF assms(1)] by (auto simp: length_Suc_conv numeral_2_eq_2)
  obtain c d where m: "format_02 m = [c, d]"
    using length_format_02 [OF assms(2)] by (auto simp: length_Suc_conv numeral_2_eq_2)
  have digits: "char_is_digit a" "char_is_digit b" "char_is_digit c" "char_is_digit d"
    using format_02_digits [of h] format_02_digits [of m] by (simp_all add: h m)
  then have "str_bytes [a, b, 58, c, d] = map of_nat [a, b, 58, c, d]"
    by (intro str_bytes_ascii) (simp add: char_is_digit_def)
  with digits byte_digit u8_parse_format_02 [of h] u8_parse_format_02 [of m] show ?thesis
    by (simp add: parse_time_def h m)
qed

lemma split_on_none: "sep \<notin> set s \<Longrightarrow> split_on sep s = [s]"
  by (induction s) auto

lemma split_on_append: "sep \<notin> set s \<Longrightarrow> split_on sep (s @ sep # t) = s # split_on sep t"
  by (induction s) auto

lemma digits_no_separator: "list_all char_is_digit s \<Longrightarrow> 59 \<notin> set s"
  by (auto simp: list_all_iff char_is_digit_def)

lemma schedule_time_text_props:
  assumes "schedule_valid s"
  shows "parse_time (schedule_time_text s) = Inr (as_hour s, as_minute s)"
    and "59 \<notin> set (schedule_time_text s)" and "list_all (\<lambda>c. c < 128) (schedule_time_text s)"
    and "length (schedule_time_text s) = 5"
proof -
  have "unat (as_hour s) < 100" "unat (as_minute s) < 100"
    using schedule_valid_bounds [OF assms] by (auto simp: word_le_nat_alt)
  note b = this
  show "parse_time (schedule_time_text s) = Inr (as_hour s, as_minute s)"
    unfolding schedule_time_text_def by (rule parse_time_format [OF b])
  show "length (schedule_time_text s) = 5"
    by (simp add: schedule_time_text_def length_format_02 b)
  have d: "list_all char_is_digit (format_02 w)" for w by (rule format_02_digits)
  show "59 \<notin> set (schedule_time_text s)"
    using digits_no_separator [OF d] by (simp add: schedule_time_text_def)
  have "list_all (\<lambda>c. c < 128) (format_02 w)" for w
    using d [of w] by (auto simp: list_all_iff char_is_digit_def)
  then show "list_all (\<lambda>c. c < 128) (schedule_time_text s)" by (simp add: schedule_time_text_def)
qed

lemma parse_fields_canonical:
  assumes "schedule_valid s"
  shows "parse_canonical_fields (split_on 59 (to_canonical_string s)) = Inr s"
proof -
  note time = schedule_time_text_props [OF assms]
  have new: "schedule_new (as_cadence s) (as_hour s) (as_minute s) = Inr s"
    using assms by (simp add: schedule_valid_def)
  have number: "59 \<notin> set (u8_to_string w)" "parse_canonical_u8 (u8_to_string w) = Inr w" for w
    using digits_no_separator [OF nat_to_dec_digits] u8_parse_to_string
    by (simp_all add: u8_to_string_def parse_canonical_u8_def)
  show ?thesis
  proof (cases "as_cadence s")
    case CadenceDaily
    with new time show ?thesis
      by (simp add: to_canonical_string_def split_on_none parse_canonical_fields_def)
  next
    case CadenceWeekdays
    with new time show ?thesis
      by (simp add: to_canonical_string_def split_on_none parse_canonical_fields_def)
  next
    case (CadenceWeekly w)
    with new time number [of w] show ?thesis
      by (simp add: to_canonical_string_def split_on_none split_on_append parse_canonical_fields_def)
  next
    case (CadenceMonthly d)
    with new time number [of d] show ?thesis
      by (simp add: to_canonical_string_def split_on_none split_on_append parse_canonical_fields_def)
  qed
qed

lemma u8_to_string_ascii: "list_all (\<lambda>c. c < 128) (u8_to_string w)"
  using nat_to_dec_digits [of "unat w"] by (auto simp: u8_to_string_def list_all_iff char_is_digit_def)

lemma length_u8_to_string: "length (u8_to_string w) \<le> 3"
proof -
  have "n < 256 \<Longrightarrow> length (nat_to_dec n) \<le> 3" for n
    by (cases "n < 10"; cases "n < 100") (simp_all add: nat_to_dec.simps)
  then show ?thesis using u8_bound [of w] by (simp add: u8_to_string_def)
qed

lemma canonical_length:
  assumes "schedule_valid s"
  shows "validate_schedule_length (to_canonical_string s) = Inr ()"
proof -
  note time = schedule_time_text_props [OF assms]
  have "list_all (\<lambda>c. c < 128) (to_canonical_string s)"
    using time u8_to_string_ascii by (cases "as_cadence s") (simp_all add: to_canonical_string_def)
  moreover have "length (to_canonical_string s) \<le> 40"
  proof (cases "as_cadence s")
    case (CadenceWeekly w)
    then show ?thesis using time(4) length_u8_to_string [of w] by (simp add: to_canonical_string_def)
  next
    case (CadenceMonthly d)
    then show ?thesis using time(4) length_u8_to_string [of d] by (simp add: to_canonical_string_def)
  qed (use time(4) in \<open>simp_all add: to_canonical_string_def\<close>)
  ultimately have "str_len (to_canonical_string s) \<le> 40"
    by (simp add: str_len_ascii list_all_iff)
  moreover have "to_canonical_string s \<noteq> []"
    by (cases "as_cadence s") (simp_all add: to_canonical_string_def)
  ultimately show ?thesis
    by (simp add: validate_schedule_length_def max_automation_schedule_bytes_def result_simps)
qed

lemma parse_canonical_fields_valid: "parse_canonical_fields parts = Inr s \<Longrightarrow> schedule_valid s"
  by (auto simp: parse_canonical_fields_def result_simps
      split: list.splits if_splits)

lemma parse_canonical_iff: "parse_canonical v = Inr s \<longleftrightarrow> schedule_valid s \<and> v = to_canonical_string s"
proof
  assume "parse_canonical v = Inr s"
  then show "schedule_valid s \<and> v = to_canonical_string s"
    by (auto simp: parse_canonical_def result_simps dest: parse_canonical_fields_valid)
next
  assume "schedule_valid s \<and> v = to_canonical_string s"
  then show "parse_canonical v = Inr s"
    by (simp add: parse_canonical_def parse_fields_canonical canonical_length)
qed

text \<open>C37. The canonical text form is exact: a text is parsed to a schedule if and only if the schedule's
  fields are valid and the text is the one form the schedule prints to; so printing and parsing
  are inverse to each other and no alias, padding or whitespace variant is accepted.\<close>

theorem canonical_schedule_round_trip:
  "parse_canonical v = Inr s \<longleftrightarrow> schedule_valid s \<and> v = to_canonical_string s"
  by (rule parse_canonical_iff)

section \<open>Normalization\<close>

lemma map_err_schedule_new: "map_err f (schedule_new c h m) = Inr s \<Longrightarrow> schedule_valid s"
  by (auto simp: result_simps)

lemma parse_for_normalization_valid:
  "parse_for_normalization cal json v timezone = Inr s \<Longrightarrow> schedule_valid s"
proof -
  assume norm: "parse_for_normalization cal json v timezone = Inr s"
  have "parse_limited_cron v = Inr s \<Longrightarrow> schedule_valid s"
    by (auto simp: parse_limited_cron_def result_simps split: list.splits)
  moreover have "parse_renderer_json cal json v timezone = Inr s \<Longrightarrow> schedule_valid s"
    unfolding parse_renderer_json_def and_then_Inr
    by (auto simp: and_then_Inr dest!: map_err_schedule_new)
  ultimately show ?thesis
    using norm by (auto simp: parse_for_normalization_def result_simps parse_canonical_iff
        split: if_splits)
qed

lemma canonical_no_control: "schedule_valid s \<Longrightarrow> \<not> list_ex char_is_control (to_canonical_string s)"
proof -
  have digits: "list_all char_is_digit ds \<Longrightarrow> \<not> list_ex char_is_control ds" for ds
    by (auto simp: list_all_iff list_ex_iff char_is_digit_def char_is_control_def)
  note d = digits [OF format_02_digits] digits [OF nat_to_dec_digits]
  show ?thesis
    by (cases "as_cadence s")
       (simp_all add: to_canonical_string_def schedule_time_text_def u8_to_string_def d
          char_is_control_def)
qed

lemma canonical_prefix: "str_starts_with (to_canonical_string s) (lit ''v1;'')"
  by (cases "as_cadence s") (simp_all add: to_canonical_string_def str_starts_with_def)

text \<open>Normalization always ends in canonical text: whatever accepted format a schedule came in
  (canonical, renderer JSON or limited cron), its canonical text is restored by the strict parser
  to the same schedule, and normalizing it again changes nothing.\<close>

theorem normalization_idempotent:
  assumes "parse_for_normalization cal json v timezone = Inr s"
  shows "parse_canonical (to_canonical_string s) = Inr s \<and>
    parse_for_normalization cal json (to_canonical_string s) timezone = Inr s"
proof -
  have valid: "schedule_valid s" using assms by (rule parse_for_normalization_valid)
  then have "parse_canonical (to_canonical_string s) = Inr s" by (simp add: parse_canonical_iff)
  moreover from assms obtain tz where "parse_timezone cal timezone = Inr tz"
    by (auto simp: parse_for_normalization_def result_simps)
  ultimately show ?thesis
    using canonical_length [OF valid] canonical_no_control [OF valid] canonical_prefix [of s]
    by (simp add: parse_for_normalization_def)
qed

section \<open>The calculator\<close>

text \<open>
  What the code relies on of the calendar, as \<open>chrono\<close> documents it: \<open>succ_opt\<close> is the next day, and a
  date is rebuilt from its own year, month and day, which fit one byte.
\<close>

definition calendar_laws :: "('d, 'z) calendar \<Rightarrow> bool" where
  "calendar_laws cal \<longleftrightarrow>
     (\<forall>d d'. cal_succ cal d = Some d' \<longrightarrow> cal_day_number cal d' = cal_day_number cal d + 1) \<and>
     (\<forall>d. case cal_ymd cal d of
            (y, m, n) \<Rightarrow> m < 256 \<and> n < 256 \<and> cal_from_ymd cal y m n = Some d)"

definition in_window ::
  "('d, 'z) calendar \<Rightarrow> 'd schedule_window \<Rightarrow> automation_schedule_decision \<Rightarrow> bool" where
  "in_window cal w decision =
     (case decision of
        DecisionDue nominal at \<Rightarrow> sw_after w < at \<and> at \<le> sw_through w
      | DecisionSkippedNonexistentLocalTime nominal \<Rightarrow>
          (case local_to_naive cal nominal of
             Inl _ \<Rightarrow> False
           | Inr local \<Rightarrow> local_less cal (sw_after_local w) local \<and>
                          \<not> local_less cal (sw_through_local w) local))"

lemma local_from_date_naive:
  assumes "calendar_laws cal"
  shows "local_to_naive cal (local_from_date cal d h m) = Inr l \<longleftrightarrow>
    (\<exists>t. and_hms h m = Some t \<and> l = (d, t))"
proof -
  obtain y mo n where ymd: "cal_ymd cal d = (y, mo, n)" by (cases "cal_ymd cal d")
  with assms have "mo < 256" "n < 256" "cal_from_ymd cal y mo n = Some d"
    by (auto simp: calendar_laws_def dest!: spec [of _ d])
  moreover from this have "unat (of_nat mo :: u8) = mo" "unat (of_nat n :: u8) = n"
    by (simp_all add: unat_of_nat)
  ultimately show ?thesis
    by (auto simp: local_to_naive_def local_from_date_def ymd result_simps)
qed

lemma evaluate_date_eq:
  assumes laws: "calendar_laws cal" and tz: "parse_timezone cal timezone = Inr tz"
    and "schedule_matches cal s d"
  shows "evaluate_date cal s tz w d ds =
    and_then (decision_for_nominal cal s timezone (local_from_date cal d (as_hour s) (as_minute s)))
      (\<lambda>decision. Inr (if in_window cal w decision then ds @ [decision] else ds))"
proof (cases "local_to_naive cal (local_from_date cal d (as_hour s) (as_minute s))")
  case (Inl e)
  then show ?thesis by (simp add: evaluate_date_def decision_for_nominal_def)
next
  case (Inr l)
  then have l: "fst l = d" using local_from_date_naive [OF laws] by auto
  have hm: "ld_hour (local_from_date cal d h m) = h" "ld_minute (local_from_date cal d h m) = m" for h m
    by (cases "cal_ymd cal d"; simp add: local_from_date_def)+
  have push: "push_resolved_decision ds n v (sw_after w) (sw_through w) =
      and_then (map_ok (DecisionDue n) (positive_timestamp v))
        (\<lambda>decision. Inr (if in_window cal w decision then ds @ [decision] else ds))" for n v
    by (cases "positive_timestamp v") (simp_all add: push_resolved_decision_def in_window_def)
  show ?thesis
    using Inr assms(3) tz
    by (cases "tz_resolve cal tz l")
       (simp_all add: evaluate_date_def decision_for_nominal_def hm l push in_window_def)
qed

abbreviation next_day :: "('d, 'z) calendar \<Rightarrow> 'd \<Rightarrow> 'd \<Rightarrow> bool" where
  "next_day cal a b \<equiv> cal_succ cal a = Some b"

lemma next_day_number:
  "calendar_laws cal \<Longrightarrow> next_day cal a b \<Longrightarrow> cal_day_number cal b = cal_day_number cal a + 1"
  by (auto simp: calendar_laws_def)

lemma next_days_number:
  assumes "calendar_laws cal" "(next_day cal)\<^sup>*\<^sup>* a b"
  shows "cal_day_number cal a \<le> cal_day_number cal b"
  using assms(2) by (induction rule: rtranclp_induct) (auto simp: next_day_number [OF assms(1)])

text \<open>The loop ends: each iteration moves to the next day and the last day is fixed.\<close>

lemma decisions_loop_returns:
  assumes laws: "calendar_laws cal"
  shows "\<exists>r. decisions_loop cal s tz w limit d ds = Some r"
proof (induction "nat (cal_day_number cal (fst (sw_through_local w)) + 1 - cal_day_number cal d)"
    arbitrary: d ds rule: less_induct)
  case less
  show ?case
  proof (cases "cal_day_number cal d \<le> cal_day_number cal (fst (sw_through_local w))")
    case True
    have "\<exists>r. decisions_loop cal s tz w limit d' ds' = Some r" if "next_day cal d d'" for d' ds'
      using less next_day_number [OF laws that] True by simp
    then show ?thesis
      by (subst decisions_loop.simps) (auto split: sum.split option.split)
  qed (subst decisions_loop.simps, simp)
qed

text \<open>A date of the schedule with the decision the calculator owes for it in a window.\<close>

definition owed ::
  "('d, 'z) calendar \<Rightarrow> automation_schedule \<Rightarrow> rstr \<Rightarrow> 'd schedule_window \<Rightarrow> 'd \<Rightarrow>
   automation_schedule_decision \<Rightarrow> bool" where
  "owed cal s timezone w d decision \<longleftrightarrow> schedule_matches cal s d \<and>
     decision_for_nominal cal s timezone (local_from_date cal d (as_hour s) (as_minute s)) = Inr decision \<and>
     in_window cal w decision"

definition owed_from ::
  "('d, 'z) calendar \<Rightarrow> automation_schedule \<Rightarrow> rstr \<Rightarrow> 'd schedule_window \<Rightarrow> 'd \<Rightarrow> 'd list \<Rightarrow>
   automation_schedule_decision list \<Rightarrow> bool" where
  "owed_from cal s timezone w d dates decisions \<longleftrightarrow>
     list_all2 (owed cal s timezone w) dates decisions \<and>
     sorted_wrt (\<lambda>a b. cal_day_number cal a < cal_day_number cal b) dates \<and>
     (\<forall>x \<in> set dates. cal_day_number cal d \<le> cal_day_number cal x)"

definition owed_all ::
  "('d, 'z) calendar \<Rightarrow> automation_schedule \<Rightarrow> rstr \<Rightarrow> 'd schedule_window \<Rightarrow> 'd \<Rightarrow>
   automation_schedule_decision list \<Rightarrow> bool" where
  "owed_all cal s timezone w d decisions \<longleftrightarrow>
     (\<forall>x decision. (next_day cal)\<^sup>*\<^sup>* d x \<longrightarrow>
        cal_day_number cal x \<le> cal_day_number cal (fst (sw_through_local w)) \<longrightarrow>
        owed cal s timezone w x decision \<longrightarrow> decision \<in> set decisions)"

lemma owed_from_Cons:
  assumes "owed cal s timezone w d decision" "owed_from cal s timezone w d' dates decisions"
    and "cal_day_number cal d < cal_day_number cal d'"
  shows "owed_from cal s timezone w d (d # dates) (decision # decisions)"
  using assms by (fastforce simp: owed_from_def)

lemma owed_from_skip:
  assumes "owed_from cal s timezone w d' dates decisions"
    and "cal_day_number cal d < cal_day_number cal d'"
  shows "owed_from cal s timezone w d dates decisions"
  using assms by (fastforce simp: owed_from_def)

lemma owed_all_step:
  assumes "owed_all cal s timezone w d' decisions" "next_day cal d d'"
    and "\<And>decision. owed cal s timezone w d decision \<Longrightarrow> decision \<in> set decisions'"
    and "set decisions \<subseteq> set decisions'"
  shows "owed_all cal s timezone w d decisions'"
  unfolding owed_all_def
proof (intro allI impI)
  fix x decision
  assume x: "(next_day cal)\<^sup>*\<^sup>* d x" "cal_day_number cal x \<le> cal_day_number cal (fst (sw_through_local w))"
    "owed cal s timezone w x decision"
  from x(1) show "decision \<in> set decisions'"
  proof (cases rule: converse_rtranclpE)
    case base
    with x(3) assms(3) show ?thesis by simp
  next
    case (step y)
    then have "y = d'" using assms(2) by simp
    with step x assms(1,4) show ?thesis unfolding owed_all_def by blast
  qed
qed

definition loop_result ::
  "('d, 'z) calendar \<Rightarrow> automation_schedule \<Rightarrow> rstr \<Rightarrow> 'd schedule_window \<Rightarrow> nat \<Rightarrow> 'd \<Rightarrow>
   automation_schedule_decision list \<Rightarrow> automation_schedule_evaluation \<Rightarrow> bool" where
  "loop_result cal s timezone w limit d ds ev \<longleftrightarrow>
     (\<exists>dates new. owed_from cal s timezone w d dates new \<and>
        ev_decisions ev = take limit (ds @ new) \<and>
        (ev_truncated ev \<longleftrightarrow> limit < length (ds @ new)) \<and>
        (ev_truncated ev \<or> owed_all cal s timezone w d new))"

lemma loop_result_next:
  assumes laws: "calendar_laws cal" and "next_day cal d d'"
    and rest: "loop_result cal s timezone w limit d' ds ev"
    and none: "\<And>decision. \<not> owed cal s timezone w d decision"
  shows "loop_result cal s timezone w limit d ds ev"
proof -
  have less: "cal_day_number cal d < cal_day_number cal d'"
    using next_day_number [OF laws assms(2)] by simp
  from rest obtain dates new where r: "owed_from cal s timezone w d' dates new"
    "ev_decisions ev = take limit (ds @ new)" "ev_truncated ev \<longleftrightarrow> limit < length (ds @ new)"
    "ev_truncated ev \<or> owed_all cal s timezone w d' new"
    unfolding loop_result_def by blast
  have "owed_all cal s timezone w d new" if "owed_all cal s timezone w d' new"
    using owed_all_step [OF that assms(2)] none by blast
  with r owed_from_skip [OF r(1) less] show ?thesis unfolding loop_result_def by blast
qed

lemma loop_result_push:
  assumes laws: "calendar_laws cal" and "next_day cal d d'"
    and rest: "loop_result cal s timezone w limit d' (ds @ [decision]) ev"
    and owed: "owed cal s timezone w d decision"
  shows "loop_result cal s timezone w limit d ds ev"
proof -
  have less: "cal_day_number cal d < cal_day_number cal d'"
    using next_day_number [OF laws assms(2)] by simp
  from rest obtain dates new where r: "owed_from cal s timezone w d' dates new"
    "ev_decisions ev = take limit (ds @ decision # new)"
    "ev_truncated ev \<longleftrightarrow> limit < length (ds @ decision # new)"
    "ev_truncated ev \<or> owed_all cal s timezone w d' new"
    unfolding loop_result_def by auto
  have "owed_all cal s timezone w d (decision # new)" if "owed_all cal s timezone w d' new"
    using owed_all_step [OF that assms(2), of "decision # new"] owed by (auto simp: owed_def)
  with r owed_from_Cons [OF owed r(1) less] show ?thesis unfolding loop_result_def by blast
qed

lemma decisions_loop_sound:
  assumes laws: "calendar_laws cal" and tz: "parse_timezone cal timezone = Inr tz"
    and "decisions_loop cal s tz w limit d ds = Some (Inr ev)" and "length ds \<le> limit"
  shows "loop_result cal s timezone w limit d ds ev"
  using assms(3,4)
proof (induction "nat (cal_day_number cal (fst (sw_through_local w)) + 1 - cal_day_number cal d)"
    arbitrary: d ds rule: less_induct)
  case less
  note run = less.prems(1) [unfolded decisions_loop.simps [of cal s tz w limit d ds]]
  show ?case
  proof (cases "cal_day_number cal d \<le> cal_day_number cal (fst (sw_through_local w))")
    case False
    then have "owed_all cal s timezone w d []"
      using next_days_number [OF laws, of d] by (fastforce simp: owed_all_def)
    with run False less.prems(2) show ?thesis
      by (auto simp: loop_result_def owed_from_def intro!: exI [of _ "[]"])
  next
    case True
    have IH: "loop_result cal s timezone w limit d' ds' ev"
      if "next_day cal d d'" "decisions_loop cal s tz w limit d' ds' = Some (Inr ev)"
        "length ds' \<le> limit" for d' ds'
      using less.hyps [of d' ds'] that next_day_number [OF laws that(1)] True by simp
    show ?thesis
    proof (cases "schedule_matches cal s d")
      case no: False
      then have "\<not> owed cal s timezone w d decision" for decision by (simp add: owed_def)
      with run True no IH less.prems(2) show ?thesis
        by (auto split: option.splits intro: loop_result_next [OF laws])
    next
      case yes: True
      with run True obtain decision where D: "decision_for_nominal cal s timezone
          (local_from_date cal d (as_hour s) (as_minute s)) = Inr decision"
        unfolding evaluate_date_eq [OF laws tz yes]
        by (cases "decision_for_nominal cal s timezone
              (local_from_date cal d (as_hour s) (as_minute s))") auto
      show ?thesis
      proof (cases "in_window cal w decision")
        case False
        then have "\<not> owed cal s timezone w d x" for x using D by (auto simp: owed_def)
        with run True yes D False IH less.prems(2) show ?thesis
          unfolding evaluate_date_eq [OF laws tz yes]
          by (auto split: option.splits if_splits intro: loop_result_next [OF laws])
      next
        case inw: True
        then have owed: "owed cal s timezone w d decision" using D yes by (simp add: owed_def)
        show ?thesis
        proof (cases "limit < length (ds @ [decision])")
          case full: True
          then have "loop_result cal s timezone w limit d ds ev"
            using run True yes D inw owed unfolding evaluate_date_eq [OF laws tz yes] loop_result_def
            by (auto simp: owed_from_def intro!: exI [of _ "[d]"] exI [of _ "[decision]"])
          then show ?thesis .
        next
          case more: False
          then show ?thesis
            using run True yes D inw IH unfolding evaluate_date_eq [OF laws tz yes]
            by (auto split: option.splits intro: loop_result_push [OF laws _ _ owed])
        qed
      qed
    qed
  qed
qed

lemma decisions_between_Inr:
  assumes laws: "calendar_laws cal"
    and "decisions_between cal s timezone after through limit = Some (Inr ev)"
  obtains tz w where "evaluation_window cal timezone after through limit = Inr (tz, w)"
    "sw_after w = after" "sw_through w = through"
    "loop_result cal s timezone w limit (fst (sw_after_local w)) [] ev"
proof -
  from assms(2) obtain tz w where w: "evaluation_window cal timezone after through limit = Inr (tz, w)"
    and loop: "decisions_loop cal s tz w limit (fst (sw_after_local w)) [] = Some (Inr ev)"
    by (auto simp: decisions_between_def split: sum.splits)
  then have tz: "parse_timezone cal timezone = Inr tz" and "sw_after w = after" "sw_through w = through"
    by (auto simp: evaluation_window_def result_simps)
  with that [OF w] decisions_loop_sound [OF laws tz loop] show ?thesis by simp
qed

text \<open>C36. The calculator always returns: for every schedule, time zone, window and limit the loop over
  the calendar days ends, with a result or an error, provided that the calendar's \<open>succ_opt\<close> moves
  to the next day.\<close>

theorem decisions_between_returns:
  assumes "calendar_laws cal"
  shows "\<exists>r. decisions_between cal s timezone after through limit = Some r"
  using decisions_loop_returns [OF assms]
  by (auto simp: decisions_between_def split: sum.split)


text \<open>
  A calendar that satisfies the laws, with months of thirty days and one time zone: it shows that
  the hypotheses above can hold and evaluates the calculator on concrete windows.
\<close>

definition plain_calendar :: "(int, unit) calendar" where
  "plain_calendar =
     \<lparr>cal_from_ymd = (\<lambda>y m n. if 1 \<le> m \<and> m \<le> 12 \<and> 1 \<le> n \<and> n \<le> 30
        then Some (360 * y + 30 * (int m - 1) + (int n - 1)) else None),
      cal_ymd = (\<lambda>d. (d div 360, nat (d mod 360 div 30) + 1, nat (d mod 30) + 1)),
      cal_day_number = id, cal_weekday = (\<lambda>d. nat ((d + 4) mod 7)), cal_succ = (\<lambda>d. Some (d + 1)),
      cal_from_millis = Some, tz_parse = (\<lambda>name. if name = lit ''UTC'' then Some () else None),
      tz_name = (\<lambda>_. lit ''UTC''), tz_local = (\<lambda>_ t. (t div 86400000, nat (t mod 86400000))),
      tz_resolve = (\<lambda>_ (d, t). LocalSingle (86400000 * d + int t))\<rparr>"

lemma plain_calendar_laws: "calendar_laws plain_calendar"
proof -
  have "360 * (d div 360) + 30 * (d mod 360 div 30) + d mod 30 = d" for d :: int
  proof -
    have "30 * (d mod 360 div 30) + d mod 360 mod 30 = d mod 360" by simp
    moreover have "d mod 360 mod 30 = d mod 30" by (simp add: mod_mod_cancel)
    moreover have "360 * (d div 360) + d mod 360 = d" by simp
    ultimately show ?thesis by linarith
  qed
  moreover have "0 \<le> d mod 360 div 30" "d mod 360 div 30 \<le> 11" "0 \<le> d mod 30" "d mod 30 \<le> 29"
    for d :: int by presburger+
  ultimately show ?thesis
    by (auto simp: calendar_laws_def plain_calendar_def nat_le_iff)
qed

definition morning :: automation_schedule where
  "morning = \<lparr>as_cadence = CadenceDaily, as_hour = 9, as_minute = 30\<rparr>"

definition first_morning :: automation_schedule_decision where
  "first_morning = DecisionDue \<lparr>ld_year = 0, ld_month = 1, ld_day = 1, ld_hour = 9, ld_minute = 30\<rparr>
     34200000"

definition first_day :: "int schedule_window" where
  "first_day = \<lparr>sw_after = 0, sw_through = 86400000, sw_after_local = (0, 0), sw_through_local = (1, 0)\<rparr>"

lemma first_day_window:
  "evaluation_window plain_calendar (lit ''UTC'') 0 86400000 5 = Inr ((), first_day)"
  by (simp add: evaluation_window_def plain_calendar_def max_automation_schedule_decisions_def
        checked_sub_def max_automation_schedule_window_days_def millis_per_day_def
        parse_timezone_def utc_from_millis_def first_day_def)

lemma first_day_dates:
  "schedule_matches plain_calendar morning d"
  "evaluate_date plain_calendar morning () first_day 0 [] = Inr [first_morning]"
  "evaluate_date plain_calendar morning () first_day 1 [first_morning] = Inr [first_morning]"
  by (simp_all add: schedule_matches_def morning_def evaluate_date_def plain_calendar_def
        local_from_date_def local_to_naive_def and_hms_def push_resolved_decision_def
        positive_timestamp_def first_day_def first_morning_def)

lemma first_day_decisions:
  "decisions_between plain_calendar morning (lit ''UTC'') 0 86400000 5 =
     Some (Inr \<lparr>ev_decisions = [first_morning], ev_truncated = False\<rparr>)"
proof -
  have day: "cal_day_number plain_calendar d = d" "cal_succ plain_calendar d = Some (d + 1)" for d
    by (simp_all add: plain_calendar_def)
  have last: "fst (sw_through_local first_day) = 1" "fst (sw_after_local first_day) = 0"
    by (simp_all add: first_day_def)
  have "decisions_loop plain_calendar morning () first_day 5 2 [first_morning] =
      Some (Inr \<lparr>ev_decisions = [first_morning], ev_truncated = False\<rparr>)"
    by (subst decisions_loop.simps) (simp add: day last)
  then have "decisions_loop plain_calendar morning () first_day 5 1 [first_morning] =
      Some (Inr \<lparr>ev_decisions = [first_morning], ev_truncated = False\<rparr>)"
    by (subst decisions_loop.simps) (simp add: day last first_day_dates)
  then have "decisions_loop plain_calendar morning () first_day 5 0 [] =
      Some (Inr \<lparr>ev_decisions = [first_morning], ev_truncated = False\<rparr>)"
    by (subst decisions_loop.simps) (simp add: day last first_day_dates)
  then show ?thesis unfolding decisions_between_def first_day_window by (simp add: last)
qed


theorem decisions_between_returns_witness:
  "\<exists>r. decisions_between plain_calendar morning (lit ''UTC'') 0 31536000000 370 = Some r"
  by (rule decisions_between_returns [OF plain_calendar_laws])

theorem normalization_idempotent_witness:
  "parse_canonical (to_canonical_string \<lparr>as_cadence = CadenceWeekdays, as_hour = 9, as_minute = 30\<rparr>) =
     Inr \<lparr>as_cadence = CadenceWeekdays, as_hour = 9, as_minute = 30\<rparr>"
proof -
  have "parse_for_normalization plain_calendar (\<lambda>_. None) (lit ''30 9 * * 1-5'') (lit ''UTC'') =
      Inr \<lparr>as_cadence = CadenceWeekdays, as_hour = 9, as_minute = 30\<rparr>"
    by (simp add: parse_for_normalization_def validate_schedule_length_def str_len_def
          utf8_width_def max_automation_schedule_bytes_def char_is_control_def parse_timezone_def
          plain_calendar_def str_starts_with_def parse_limited_cron_def char_is_ascii_whitespace_def
          parse_cron_number_def u8_parse_def char_is_digit_def digits_value_def u8_to_string_def
          nat_to_dec.simps schedule_new_def)
  from normalization_idempotent [OF this] show ?thesis by simp
qed

end
