(* ===== verification/Occurrences.thy ===== *)
theory Occurrences
  imports Schedules Ids
begin

text \<open>
  Scheduled occurrences and the scheduler lease (grok-domain, \<open>automation.rs\<close>): the frozen
  execution snapshot, the evaluation cursor, the occurrence journal lifecycle with its fenced
  claims, and the singleton lease. Lemmas: what the operations produce passes \<open>restore\<close>, at most
  one run is ever linked, at most sixteen claims succeed, an occurrence materializes for every
  decision of the calculator, and lease generations never overlap.
\<close>

definition max_automation_scheduler_lease_ms :: u64 where
  "max_automation_scheduler_lease_ms = 60000"
definition max_automation_occurrence_claim_attempts :: u32 where
  "max_automation_occurrence_claim_attempts = 16"
definition max_automation_title_bytes :: nat where "max_automation_title_bytes = 200"
definition max_automation_prompt_bytes :: nat where "max_automation_prompt_bytes = 64 * 1024"

datatype missed_run_policy = MissedRunOnce | MissedSkip
datatype overlap_policy = OverlapQueueOne | OverlapSkip

datatype automation_occurrence_state =
    OccPending
  | OccQueuedOverlap
  | OccClaimed
  | OccRunLinked
  | OccSucceeded
  | OccFailed
  | OccSkippedMissed
  | OccSkippedOverlap
  | OccSkippedInvalidLocalTime
  | OccInterruptedNeedsReview
  | OccCancelled

datatype automation_scheduler_error =
    SchedSchedule automation_schedule_error
  | SchedInvalidExecutionText
  | SchedInvalidDecision
  | SchedClockRegression
  | SchedInvalidOccurrenceTransition automation_occurrence_state automation_occurrence_state
  | SchedRevisionExhausted
  | SchedInvalidLease
  | SchedStaleFence
  | SchedLeaseExpired
  | SchedLeaseStillHeld
  | SchedClaimAttemptsExhausted
  | SchedInvalidPersistedState

fun occurrence_state_is_terminal :: "automation_occurrence_state \<Rightarrow> bool" where
  "occurrence_state_is_terminal OccPending = False"
| "occurrence_state_is_terminal OccQueuedOverlap = False"
| "occurrence_state_is_terminal OccClaimed = False"
| "occurrence_state_is_terminal OccRunLinked = False"
| "occurrence_state_is_terminal _ = True"

section \<open>Execution snapshots\<close>

record automation_execution_snapshot =
  es_definition_revision :: u64
  es_project_id :: project_id
  es_title :: rstr
  es_prompt :: rstr
  es_schedule :: automation_schedule
  es_canonical_schedule :: rstr
  es_timezone :: rstr
  es_missed_run_policy :: missed_run_policy
  es_overlap_policy :: overlap_policy
  es_schedule_fingerprint :: automation_schedule_fingerprint
  es_calculator_version :: u32

definition validate_execution_text :: "rstr \<Rightarrow> rstr \<Rightarrow> automation_scheduler_error + unit" where
  "validate_execution_text title prompt =
     (let title_valid = str_trim title \<noteq> [] \<and> str_len title \<le> max_automation_title_bytes \<and>
            \<not> list_ex char_is_control title;
          prompt_valid = str_trim prompt \<noteq> [] \<and> str_len prompt \<le> max_automation_prompt_bytes \<and>
            \<not> list_ex (\<lambda>c. c = 0 \<or> (char_is_control c \<and> \<not> (c = 10 \<or> c = 13 \<or> c = 9))) prompt
      in fail_if (\<not> title_valid \<or> \<not> prompt_valid) SchedInvalidExecutionText)"

definition canonicalize_timezone ::
  "('d, 'z) calendar \<Rightarrow> rstr \<Rightarrow> automation_schedule_error + rstr" where
  "canonicalize_timezone cal value =
     and_then (parse_timezone cal value) (\<lambda>tz.
     if tz_name cal tz = value then Inr value else Inr (tz_name cal tz))"

type_synonym sha256 = "u8 list \<Rightarrow> u8 list"

definition execution_snapshot_new ::
  "('d, 'z) calendar \<Rightarrow> sha256 \<Rightarrow> u64 \<Rightarrow> project_id \<Rightarrow> rstr \<Rightarrow> rstr \<Rightarrow> rstr \<Rightarrow> rstr \<Rightarrow>
   missed_run_policy \<Rightarrow> overlap_policy \<Rightarrow>
   automation_scheduler_error + automation_execution_snapshot" where
  "execution_snapshot_new cal sha definition_revision pid title prompt canonical_schedule timezone
      missed overlap =
     and_then (validate_execution_text title prompt) (\<lambda>_.
     and_then (map_err SchedSchedule (parse_canonical canonical_schedule)) (\<lambda>schedule.
     and_then (map_err SchedSchedule (canonicalize_timezone cal timezone)) (\<lambda>timezone.
     and_then (map_err SchedSchedule (schedule_fingerprint cal sha schedule timezone)) (\<lambda>fingerprint.
     Inr \<lparr>es_definition_revision = definition_revision, es_project_id = pid, es_title = title,
          es_prompt = prompt, es_schedule = schedule, es_canonical_schedule = canonical_schedule,
          es_timezone = timezone, es_missed_run_policy = missed, es_overlap_policy = overlap,
          es_schedule_fingerprint = fingerprint,
          es_calculator_version = automation_schedule_calculator_version\<rparr>))))"

definition execution_snapshot_valid ::
  "('d, 'z) calendar \<Rightarrow> sha256 \<Rightarrow> automation_execution_snapshot \<Rightarrow> bool" where
  "execution_snapshot_valid cal sha s \<longleftrightarrow>
     is_ok (validate_execution_text (es_title s) (es_prompt s)) \<and>
     parse_canonical (es_canonical_schedule s) = Inr (es_schedule s) \<and>
     (case parse_timezone cal (es_timezone s) of
        Inl _ \<Rightarrow> False | Inr tz \<Rightarrow> tz_name cal tz = es_timezone s) \<and>
     es_calculator_version s = automation_schedule_calculator_version \<and>
     schedule_fingerprint cal sha (es_schedule s) (es_timezone s) = Inr (es_schedule_fingerprint s)"

definition execution_snapshot_restore ::
  "('d, 'z) calendar \<Rightarrow> sha256 \<Rightarrow> automation_execution_snapshot \<Rightarrow>
   automation_scheduler_error + automation_execution_snapshot" where
  "execution_snapshot_restore cal sha s =
     (if execution_snapshot_valid cal sha s then Inr s else Inl SchedInvalidPersistedState)"

section \<open>The evaluation cursor\<close>

record automation_schedule_cursor =
  cu_automation_id :: automation_id
  cu_definition_revision :: u64
  cu_schedule_fingerprint :: automation_schedule_fingerprint
  cu_calculator_version :: u32
  cu_evaluated_through :: unix_millis
  cu_next_decision :: "automation_schedule_decision option"
  cu_revision :: u64
  cu_created_at :: unix_millis
  cu_updated_at :: unix_millis

definition validate_next_decision ::
  "('d, 'z) calendar \<Rightarrow> automation_schedule_decision option \<Rightarrow> unix_millis \<Rightarrow>
   automation_scheduler_error + unit" where
  "validate_next_decision cal next evaluated_through =
     (case next of
        None \<Rightarrow> Inr ()
      | Some decision \<Rightarrow>
          and_then (map_err SchedSchedule (local_to_naive cal (decision_nominal_local decision))) (\<lambda>_.
          fail_if (case decision_scheduled_for decision of
                     None \<Rightarrow> False | Some at \<Rightarrow> at \<le> evaluated_through)
            SchedInvalidDecision))"

definition advance_revision :: "u64 \<Rightarrow> automation_scheduler_error + u64" where
  "advance_revision revision = ok_or (checked_add revision 1) SchedRevisionExhausted"

definition cursor_new ::
  "('d, 'z) calendar \<Rightarrow> sha256 \<Rightarrow> automation_id \<Rightarrow> automation_execution_snapshot \<Rightarrow> unix_millis \<Rightarrow>
   automation_schedule_decision option \<Rightarrow> unix_millis \<Rightarrow>
   automation_scheduler_error + automation_schedule_cursor" where
  "cursor_new cal sha aid snapshot evaluated_through next_decision now =
     and_then (execution_snapshot_restore cal sha snapshot) (\<lambda>_.
     and_then (fail_if (now < evaluated_through) SchedClockRegression) (\<lambda>_.
     and_then (validate_next_decision cal next_decision evaluated_through) (\<lambda>_.
     Inr \<lparr>cu_automation_id = aid, cu_definition_revision = es_definition_revision snapshot,
          cu_schedule_fingerprint = es_schedule_fingerprint snapshot,
          cu_calculator_version = es_calculator_version snapshot,
          cu_evaluated_through = evaluated_through, cu_next_decision = next_decision,
          cu_revision = 0, cu_created_at = now, cu_updated_at = now\<rparr>)))"

definition cursor_restore ::
  "('d, 'z) calendar \<Rightarrow> automation_schedule_cursor \<Rightarrow>
   automation_scheduler_error + automation_schedule_cursor" where
  "cursor_restore cal c =
     and_then (fail_if
         (cu_calculator_version c = 0 \<or>
          fingerprint_bytes (cu_schedule_fingerprint c) = replicate 32 0 \<or>
          cu_updated_at c < cu_created_at c \<or> cu_updated_at c < cu_evaluated_through c \<or>
          (cu_revision c = 0 \<and> cu_updated_at c \<noteq> cu_created_at c) \<or>
          \<not> is_ok (validate_next_decision cal (cu_next_decision c) (cu_evaluated_through c)))
       SchedInvalidPersistedState) (\<lambda>_.
     Inr c)"

definition cursor_advance ::
  "('d, 'z) calendar \<Rightarrow> automation_schedule_cursor \<Rightarrow> unix_millis \<Rightarrow>
   automation_schedule_decision option \<Rightarrow> unix_millis \<Rightarrow>
   automation_scheduler_error + automation_schedule_cursor" where
  "cursor_advance cal c evaluated_through next_decision now =
     and_then (fail_if (evaluated_through < cu_evaluated_through c \<or> now < cu_updated_at c \<or>
                        now < evaluated_through) SchedClockRegression) (\<lambda>_.
     and_then (validate_next_decision cal next_decision evaluated_through) (\<lambda>_.
     and_then (advance_revision (cu_revision c)) (\<lambda>revision.
     Inr (c\<lparr>cu_revision := revision, cu_evaluated_through := evaluated_through,
            cu_next_decision := next_decision, cu_updated_at := now\<rparr>))))"

section \<open>The scheduler lease\<close>

record automation_scheduler_lease_token =
  lt_owner_id :: automation_scheduler_owner_id
  lt_fence :: u64

record automation_scheduler_lease =
  le_owner_id :: automation_scheduler_owner_id
  le_fence :: u64
  le_acquired_at :: unix_millis
  le_renewed_at :: unix_millis
  le_expires_at :: unix_millis

definition validate_lease_ttl :: "u64 \<Rightarrow> automation_scheduler_error + unit" where
  "validate_lease_ttl ttl_ms =
     fail_if (ttl_ms = 0 \<or> max_automation_scheduler_lease_ms < ttl_ms) SchedInvalidLease"

definition lease_acquire ::
  "automation_scheduler_owner_id \<Rightarrow> u64 \<Rightarrow> unix_millis \<Rightarrow> u64 \<Rightarrow>
   automation_scheduler_error + automation_scheduler_lease" where
  "lease_acquire owner fence now ttl_ms =
     and_then (validate_lease_ttl ttl_ms) (\<lambda>_.
     and_then (fail_if (fence = 0) SchedInvalidLease) (\<lambda>_.
     and_then (ok_or (checked_add now ttl_ms) SchedInvalidLease) (\<lambda>expires_at.
     Inr \<lparr>le_owner_id = owner, le_fence = fence, le_acquired_at = now, le_renewed_at = now,
          le_expires_at = expires_at\<rparr>)))"

definition lease_restore ::
  "automation_scheduler_lease \<Rightarrow> automation_scheduler_error + automation_scheduler_lease" where
  "lease_restore l =
     and_then (fail_if
         (le_fence l = 0 \<or> le_renewed_at l < le_acquired_at l \<or>
          le_expires_at l \<le> le_renewed_at l \<or>
          max_automation_scheduler_lease_ms < le_expires_at l - le_renewed_at l)
       SchedInvalidPersistedState) (\<lambda>_.
     Inr l)"

definition lease_token :: "automation_scheduler_lease \<Rightarrow> automation_scheduler_lease_token" where
  "lease_token l = \<lparr>lt_owner_id = le_owner_id l, lt_fence = le_fence l\<rparr>"

definition lease_is_valid_at :: "automation_scheduler_lease \<Rightarrow> unix_millis \<Rightarrow> bool" where
  "lease_is_valid_at l now \<longleftrightarrow> le_acquired_at l \<le> now \<and> now < le_expires_at l"

definition lease_renew ::
  "automation_scheduler_lease \<Rightarrow> automation_scheduler_lease_token \<Rightarrow> unix_millis \<Rightarrow> u64 \<Rightarrow>
   automation_scheduler_error + automation_scheduler_lease" where
  "lease_renew l token now ttl_ms =
     and_then (validate_lease_ttl ttl_ms) (\<lambda>_.
     and_then (fail_if (lt_owner_id token \<noteq> le_owner_id l \<or> lt_fence token \<noteq> le_fence l)
       SchedStaleFence) (\<lambda>_.
     and_then (fail_if (now < le_renewed_at l) SchedClockRegression) (\<lambda>_.
     and_then (fail_if (le_expires_at l \<le> now) SchedLeaseExpired) (\<lambda>_.
     and_then (ok_or (checked_add now ttl_ms) SchedInvalidLease) (\<lambda>expires_at.
     Inr (l\<lparr>le_expires_at := expires_at, le_renewed_at := now\<rparr>))))))"

definition lease_take_over ::
  "automation_scheduler_lease \<Rightarrow> automation_scheduler_owner_id \<Rightarrow> u64 \<Rightarrow> unix_millis \<Rightarrow> u64 \<Rightarrow>
   automation_scheduler_error + automation_scheduler_lease" where
  "lease_take_over l owner fence now ttl_ms =
     and_then (fail_if (now < le_expires_at l) SchedLeaseStillHeld) (\<lambda>_.
     and_then (fail_if (fence \<le> le_fence l) SchedStaleFence) (\<lambda>_.
     lease_acquire owner fence now ttl_ms))"

section \<open>Occurrences\<close>

record automation_occurrence_slot =
  sl_definition_revision :: u64
  sl_nominal_local :: automation_local_date_time

record automation_occurrence_claim =
  cm_owner_id :: automation_scheduler_owner_id
  cm_fence :: u64
  cm_claimed_at :: unix_millis
  cm_expires_at :: unix_millis

record automation_occurrence =
  oc_id :: automation_occurrence_id
  oc_automation_id :: automation_id
  oc_snapshot :: automation_execution_snapshot
  oc_nominal_local :: automation_local_date_time
  oc_scheduled_for :: "unix_millis option"
  oc_occurrence_count :: u32
  oc_state :: automation_occurrence_state
  oc_claim :: "automation_occurrence_claim option"
  oc_run_id :: "run_id option"
  oc_claim_attempt_count :: u32
  oc_revision :: u64
  oc_created_at :: unix_millis
  oc_updated_at :: unix_millis

definition is_multiple_of_2 :: "u64 \<Rightarrow> bool" where
  "is_multiple_of_2 r \<longleftrightarrow> r mod 2 = 0"

definition occurrence_exact_decision ::
  "('d, 'z) calendar \<Rightarrow> automation_occurrence \<Rightarrow> bool" where
  "occurrence_exact_decision cal oc \<longleftrightarrow>
     (case decision_for_nominal cal (es_schedule (oc_snapshot oc)) (es_timezone (oc_snapshot oc))
             (oc_nominal_local oc) of
        Inl _ \<Rightarrow> False | Inr decision \<Rightarrow> decision_scheduled_for decision = oc_scheduled_for oc)"

definition occurrence_lifecycle_shape :: "automation_occurrence \<Rightarrow> bool" where
  "occurrence_lifecycle_shape oc =
     (case oc_state oc of
        OccPending \<Rightarrow> oc_claim oc = None \<and> oc_run_id oc = None
      | OccQueuedOverlap \<Rightarrow> oc_claim oc = None \<and> oc_run_id oc = None
      | OccSkippedMissed \<Rightarrow> oc_claim oc = None \<and> oc_run_id oc = None
      | OccSkippedOverlap \<Rightarrow> oc_claim oc = None \<and> oc_run_id oc = None
      | OccSkippedInvalidLocalTime \<Rightarrow> oc_claim oc = None \<and> oc_run_id oc = None
      | OccClaimed \<Rightarrow> oc_claim oc \<noteq> None \<and> oc_run_id oc = None \<and> 0 < oc_claim_attempt_count oc
      | OccRunLinked \<Rightarrow> oc_claim oc \<noteq> None \<and> oc_run_id oc \<noteq> None \<and> 0 < oc_claim_attempt_count oc
      | OccSucceeded \<Rightarrow> oc_claim oc = None \<and> oc_run_id oc \<noteq> None \<and> 0 < oc_claim_attempt_count oc
      | OccFailed \<Rightarrow> oc_claim oc = None \<and> oc_run_id oc \<noteq> None \<and> 0 < oc_claim_attempt_count oc
      | OccInterruptedNeedsReview \<Rightarrow>
          oc_claim oc = None \<and>
          ((oc_run_id oc \<noteq> None \<and> 0 < oc_claim_attempt_count oc) \<or>
           (oc_run_id oc = None \<and>
            oc_claim_attempt_count oc = max_automation_occurrence_claim_attempts))
      | OccCancelled \<Rightarrow> oc_claim oc = None)"

definition occurrence_revision_shape :: "automation_occurrence \<Rightarrow> bool" where
  "occurrence_revision_shape oc =
     (let attempts = (ucast (oc_claim_attempt_count oc) :: u64);
          twice = saturating_mul attempts 2;
          r = oc_revision oc
      in case oc_state oc of
           OccPending \<Rightarrow> twice \<le> r \<and> is_multiple_of_2 r
         | OccQueuedOverlap \<Rightarrow> saturating_add twice 1 \<le> r
         | OccSkippedMissed \<Rightarrow> saturating_add twice 1 \<le> r
         | OccSkippedOverlap \<Rightarrow> saturating_add twice 1 \<le> r
         | OccClaimed \<Rightarrow> 0 < attempts \<and> saturating_sub twice 1 \<le> r \<and> \<not> is_multiple_of_2 r
         | OccRunLinked \<Rightarrow> 0 < attempts \<and> twice \<le> r \<and> is_multiple_of_2 r
         | OccSucceeded \<Rightarrow> 0 < attempts \<and> saturating_add twice 1 \<le> r \<and> \<not> is_multiple_of_2 r
         | OccFailed \<Rightarrow> 0 < attempts \<and> saturating_add twice 1 \<le> r \<and> \<not> is_multiple_of_2 r
         | OccCancelled \<Rightarrow>
             if oc_run_id oc \<noteq> None then 0 < attempts \<and> saturating_add twice 1 \<le> r
             else if 0 < attempts then twice \<le> r
             else 1 \<le> r
         | OccSkippedInvalidLocalTime \<Rightarrow> attempts = 0 \<and> r = 0
         | OccInterruptedNeedsReview \<Rightarrow>
             if oc_run_id oc \<noteq> None
             then 0 < attempts \<and> saturating_add twice 1 \<le> r \<and> \<not> is_multiple_of_2 r
             else oc_claim_attempt_count oc = max_automation_occurrence_claim_attempts \<and>
                  saturating_add twice 1 \<le> r \<and> \<not> is_multiple_of_2 r)"

definition occurrence_claim_shape :: "automation_occurrence \<Rightarrow> bool" where
  "occurrence_claim_shape oc =
     (case oc_claim oc of
        None \<Rightarrow> True
      | Some claim \<Rightarrow>
          0 < cm_fence claim \<and> cm_claimed_at claim < cm_expires_at claim \<and>
          cm_expires_at claim - cm_claimed_at claim \<le> max_automation_scheduler_lease_ms \<and>
          oc_created_at oc \<le> cm_claimed_at claim \<and> cm_claimed_at claim \<le> oc_updated_at oc)"

definition occurrence_reachable_shape :: "('d, 'z) calendar \<Rightarrow> automation_occurrence \<Rightarrow> bool" where
  "occurrence_reachable_shape cal oc \<longleftrightarrow>
     occurrence_exact_decision cal oc \<and>
     (case oc_state oc of
        OccSkippedInvalidLocalTime \<Rightarrow> oc_scheduled_for oc = None
      | _ \<Rightarrow> oc_scheduled_for oc \<noteq> None) \<and>
     occurrence_lifecycle_shape oc \<and> occurrence_revision_shape oc \<and> occurrence_claim_shape oc"

definition occurrence_restore ::
  "('d, 'z) calendar \<Rightarrow> sha256 \<Rightarrow> automation_occurrence \<Rightarrow>
   automation_scheduler_error + automation_occurrence" where
  "occurrence_restore cal sha oc =
     and_then (fail_if
         (\<not> is_ok (execution_snapshot_restore cal sha (oc_snapshot oc)) \<or>
          \<not> is_ok (local_to_naive cal (oc_nominal_local oc)) \<or>
          oc_occurrence_count oc = 0 \<or>
          max_automation_occurrence_claim_attempts < oc_claim_attempt_count oc \<or>
          oc_updated_at oc < oc_created_at oc \<or>
          \<not> occurrence_reachable_shape cal oc)
       SchedInvalidPersistedState) (\<lambda>_.
     Inr oc)"

definition occurrence_materialize ::
  "('d, 'z) calendar \<Rightarrow> sha256 \<Rightarrow> automation_occurrence_id \<Rightarrow> automation_id \<Rightarrow>
   automation_execution_snapshot \<Rightarrow> automation_local_date_time \<Rightarrow> unix_millis option \<Rightarrow> u32 \<Rightarrow>
   automation_occurrence_state \<Rightarrow> unix_millis \<Rightarrow>
   automation_scheduler_error + automation_occurrence" where
  "occurrence_materialize cal sha i aid snapshot nominal scheduled_for occurrence_count state now =
     and_then (execution_snapshot_restore cal sha snapshot) (\<lambda>_.
     and_then (map_err SchedSchedule (local_to_naive cal nominal)) (\<lambda>_.
     and_then (fail_if (occurrence_count = 0) SchedInvalidDecision) (\<lambda>_.
     occurrence_restore cal sha
       \<lparr>oc_id = i, oc_automation_id = aid, oc_snapshot = snapshot, oc_nominal_local = nominal,
        oc_scheduled_for = scheduled_for, oc_occurrence_count = occurrence_count,
        oc_state = state, oc_claim = None, oc_run_id = None, oc_claim_attempt_count = 0,
        oc_revision = 0, oc_created_at = now, oc_updated_at = now\<rparr>)))"

definition occurrence_pending ::
  "('d, 'z) calendar \<Rightarrow> sha256 \<Rightarrow> automation_occurrence_id \<Rightarrow> automation_id \<Rightarrow>
   automation_execution_snapshot \<Rightarrow> automation_schedule_decision \<Rightarrow> u32 \<Rightarrow> unix_millis \<Rightarrow>
   automation_scheduler_error + automation_occurrence" where
  "occurrence_pending cal sha i aid snapshot decision occurrence_count now =
     (case decision of
        DecisionDue nominal scheduled_for \<Rightarrow>
          occurrence_materialize cal sha i aid snapshot nominal (Some scheduled_for)
            occurrence_count OccPending now
      | _ \<Rightarrow> Inl SchedInvalidDecision)"

definition occurrence_skipped_invalid_local_time ::
  "('d, 'z) calendar \<Rightarrow> sha256 \<Rightarrow> automation_occurrence_id \<Rightarrow> automation_id \<Rightarrow>
   automation_execution_snapshot \<Rightarrow> automation_schedule_decision \<Rightarrow> unix_millis \<Rightarrow>
   automation_scheduler_error + automation_occurrence" where
  "occurrence_skipped_invalid_local_time cal sha i aid snapshot decision now =
     (case decision of
        DecisionSkippedNonexistentLocalTime nominal \<Rightarrow>
          occurrence_materialize cal sha i aid snapshot nominal None 1 OccSkippedInvalidLocalTime now
      | _ \<Rightarrow> Inl SchedInvalidDecision)"

definition occurrence_slot :: "automation_occurrence \<Rightarrow> automation_occurrence_slot" where
  "occurrence_slot oc =
     \<lparr>sl_definition_revision = es_definition_revision (oc_snapshot oc),
      sl_nominal_local = oc_nominal_local oc\<rparr>"

definition occurrence_invalid_transition ::
  "automation_occurrence \<Rightarrow> automation_occurrence_state \<Rightarrow> automation_scheduler_error" where
  "occurrence_invalid_transition oc next = SchedInvalidOccurrenceTransition (oc_state oc) next"

definition occurrence_ensure_time ::
  "automation_occurrence \<Rightarrow> unix_millis \<Rightarrow> automation_scheduler_error + unit" where
  "occurrence_ensure_time oc now = fail_if (now < oc_updated_at oc) SchedClockRegression"

definition occurrence_move_from ::
  "automation_occurrence \<Rightarrow> automation_occurrence_state \<Rightarrow> automation_occurrence_state \<Rightarrow>
   unix_millis \<Rightarrow> automation_scheduler_error + automation_occurrence" where
  "occurrence_move_from oc start next now =
     and_then (fail_if (oc_state oc \<noteq> start \<or> oc_claim oc \<noteq> None \<or> oc_run_id oc \<noteq> None)
       (occurrence_invalid_transition oc next)) (\<lambda>_.
     and_then (occurrence_ensure_time oc now) (\<lambda>_.
     and_then (advance_revision (oc_revision oc)) (\<lambda>revision.
     Inr (oc\<lparr>oc_revision := revision, oc_state := next, oc_updated_at := now\<rparr>))))"

definition occurrence_move_unclaimed_to ::
  "automation_occurrence \<Rightarrow> automation_occurrence_state \<Rightarrow> unix_millis \<Rightarrow>
   automation_scheduler_error + automation_occurrence" where
  "occurrence_move_unclaimed_to oc next now =
     and_then (fail_if (\<not> (oc_state oc = OccPending \<or> oc_state oc = OccQueuedOverlap) \<or>
                        oc_claim oc \<noteq> None \<or> oc_run_id oc \<noteq> None)
       (occurrence_invalid_transition oc next)) (\<lambda>_.
     and_then (occurrence_ensure_time oc now) (\<lambda>_.
     and_then (advance_revision (oc_revision oc)) (\<lambda>revision.
     Inr (oc\<lparr>oc_revision := revision, oc_state := next, oc_updated_at := now\<rparr>))))"

definition occurrence_finish_linked ::
  "automation_occurrence \<Rightarrow> run_id \<Rightarrow> automation_occurrence_state \<Rightarrow> unix_millis \<Rightarrow>
   automation_scheduler_error + automation_occurrence" where
  "occurrence_finish_linked oc rid next now =
     and_then (fail_if (oc_state oc \<noteq> OccRunLinked \<or> oc_run_id oc \<noteq> Some rid)
       (occurrence_invalid_transition oc next)) (\<lambda>_.
     and_then (occurrence_ensure_time oc now) (\<lambda>_.
     and_then (advance_revision (oc_revision oc)) (\<lambda>revision.
     Inr (oc\<lparr>oc_revision := revision, oc_claim := None, oc_state := next, oc_updated_at := now\<rparr>))))"

definition occurrence_queue_overlap ::
  "automation_occurrence \<Rightarrow> unix_millis \<Rightarrow> automation_scheduler_error + automation_occurrence" where
  "occurrence_queue_overlap oc now =
     and_then (fail_if (es_overlap_policy (oc_snapshot oc) \<noteq> OverlapQueueOne)
       (occurrence_invalid_transition oc OccQueuedOverlap)) (\<lambda>_.
     occurrence_move_from oc OccPending OccQueuedOverlap now)"

definition occurrence_promote_queued ::
  "automation_occurrence \<Rightarrow> unix_millis \<Rightarrow> automation_scheduler_error + automation_occurrence" where
  "occurrence_promote_queued oc now = occurrence_move_from oc OccQueuedOverlap OccPending now"

definition occurrence_skip_missed ::
  "automation_occurrence \<Rightarrow> unix_millis \<Rightarrow> automation_scheduler_error + automation_occurrence" where
  "occurrence_skip_missed oc now =
     and_then (fail_if (es_missed_run_policy (oc_snapshot oc) \<noteq> MissedSkip)
       (occurrence_invalid_transition oc OccSkippedMissed)) (\<lambda>_.
     occurrence_move_unclaimed_to oc OccSkippedMissed now)"

definition occurrence_skip_overlap ::
  "automation_occurrence \<Rightarrow> unix_millis \<Rightarrow> automation_scheduler_error + automation_occurrence" where
  "occurrence_skip_overlap oc now = occurrence_move_unclaimed_to oc OccSkippedOverlap now"

definition occurrence_claim_run ::
  "automation_occurrence \<Rightarrow> automation_scheduler_lease_token \<Rightarrow> unix_millis \<Rightarrow> unix_millis \<Rightarrow>
   automation_scheduler_error + automation_occurrence" where
  "occurrence_claim_run oc token claimed_at expires_at =
     and_then (fail_if (oc_state oc \<noteq> OccPending)
       (occurrence_invalid_transition oc OccClaimed)) (\<lambda>_.
     and_then (fail_if (case oc_scheduled_for oc of None \<Rightarrow> False | Some at \<Rightarrow> claimed_at < at)
       SchedInvalidDecision) (\<lambda>_.
     and_then (fail_if (lt_fence token = 0 \<or> expires_at \<le> claimed_at \<or>
                        max_automation_scheduler_lease_ms < expires_at - claimed_at)
       SchedInvalidLease) (\<lambda>_.
     and_then (fail_if (max_automation_occurrence_claim_attempts \<le> oc_claim_attempt_count oc)
       SchedClaimAttemptsExhausted) (\<lambda>_.
     and_then (occurrence_ensure_time oc claimed_at) (\<lambda>_.
     and_then (ok_or (checked_add (oc_claim_attempt_count oc) 1) SchedClaimAttemptsExhausted) (\<lambda>next_attempt.
     and_then (advance_revision (oc_revision oc)) (\<lambda>revision.
     Inr (oc\<lparr>oc_revision := revision, oc_claim_attempt_count := next_attempt,
             oc_claim := Some \<lparr>cm_owner_id = lt_owner_id token, cm_fence = lt_fence token,
                               cm_claimed_at = claimed_at, cm_expires_at = expires_at\<rparr>,
             oc_state := OccClaimed, oc_updated_at := claimed_at\<rparr>))))))))"

definition occurrence_release_expired_claim ::
  "automation_occurrence \<Rightarrow> unix_millis \<Rightarrow> automation_scheduler_error + automation_occurrence" where
  "occurrence_release_expired_claim oc now =
     and_then (ok_or (oc_claim oc) SchedInvalidPersistedState) (\<lambda>claim.
     and_then (fail_if (oc_state oc \<noteq> OccClaimed \<or> oc_run_id oc \<noteq> None \<or> now < cm_expires_at claim)
       (occurrence_invalid_transition oc OccPending)) (\<lambda>_.
     and_then (occurrence_ensure_time oc now) (\<lambda>_.
     and_then (advance_revision (oc_revision oc)) (\<lambda>revision.
     Inr (oc\<lparr>oc_revision := revision, oc_claim := None, oc_state := OccPending,
             oc_updated_at := now\<rparr>)))))"

definition occurrence_link_run ::
  "automation_occurrence \<Rightarrow> automation_scheduler_lease_token \<Rightarrow> run_id \<Rightarrow> unix_millis \<Rightarrow>
   automation_scheduler_error + automation_occurrence" where
  "occurrence_link_run oc token rid now =
     and_then (ok_or (oc_claim oc) SchedInvalidPersistedState) (\<lambda>claim.
     and_then (fail_if (oc_state oc \<noteq> OccClaimed \<or> cm_owner_id claim \<noteq> lt_owner_id token \<or>
                        cm_fence claim \<noteq> lt_fence token \<or> cm_expires_at claim \<le> now)
       SchedStaleFence) (\<lambda>_.
     and_then (occurrence_ensure_time oc now) (\<lambda>_.
     and_then (advance_revision (oc_revision oc)) (\<lambda>revision.
     Inr (oc\<lparr>oc_revision := revision, oc_run_id := Some rid, oc_state := OccRunLinked,
             oc_updated_at := now\<rparr>)))))"

definition occurrence_succeed ::
  "automation_occurrence \<Rightarrow> run_id \<Rightarrow> unix_millis \<Rightarrow>
   automation_scheduler_error + automation_occurrence" where
  "occurrence_succeed oc rid now = occurrence_finish_linked oc rid OccSucceeded now"

definition occurrence_fail ::
  "automation_occurrence \<Rightarrow> run_id \<Rightarrow> unix_millis \<Rightarrow>
   automation_scheduler_error + automation_occurrence" where
  "occurrence_fail oc rid now = occurrence_finish_linked oc rid OccFailed now"

definition occurrence_interrupt ::
  "automation_occurrence \<Rightarrow> run_id \<Rightarrow> unix_millis \<Rightarrow>
   automation_scheduler_error + automation_occurrence" where
  "occurrence_interrupt oc rid now = occurrence_finish_linked oc rid OccInterruptedNeedsReview now"

definition occurrence_mark_claims_exhausted ::
  "automation_occurrence \<Rightarrow> unix_millis \<Rightarrow> automation_scheduler_error + automation_occurrence" where
  "occurrence_mark_claims_exhausted oc now =
     and_then (fail_if (oc_state oc \<noteq> OccPending \<or> oc_claim oc \<noteq> None \<or> oc_run_id oc \<noteq> None \<or>
                        oc_claim_attempt_count oc < max_automation_occurrence_claim_attempts)
       (occurrence_invalid_transition oc OccInterruptedNeedsReview)) (\<lambda>_.
     and_then (occurrence_ensure_time oc now) (\<lambda>_.
     and_then (advance_revision (oc_revision oc)) (\<lambda>revision.
     Inr (oc\<lparr>oc_revision := revision, oc_state := OccInterruptedNeedsReview,
             oc_updated_at := now\<rparr>))))"

definition occurrence_cancel ::
  "automation_occurrence \<Rightarrow> unix_millis \<Rightarrow> automation_scheduler_error + automation_occurrence" where
  "occurrence_cancel oc now =
     and_then (fail_if (occurrence_state_is_terminal (oc_state oc))
       (occurrence_invalid_transition oc OccCancelled)) (\<lambda>_.
     and_then (occurrence_ensure_time oc now) (\<lambda>_.
     and_then (advance_revision (oc_revision oc)) (\<lambda>revision.
     Inr (oc\<lparr>oc_revision := revision, oc_claim := None, oc_state := OccCancelled,
             oc_updated_at := now\<rparr>))))"

section \<open>Histories of an occurrence\<close>

datatype occurrence_op =
    OpQueueOverlap
  | OpPromoteQueued
  | OpSkipMissed
  | OpSkipOverlap
  | OpClaim automation_scheduler_lease_token unix_millis
  | OpReleaseExpiredClaim
  | OpLinkRun automation_scheduler_lease_token run_id
  | OpSucceed run_id
  | OpFailRun run_id
  | OpInterruptRun run_id
  | OpMarkClaimsExhausted
  | OpCancelOccurrence

fun occurrence_apply ::
  "occurrence_op \<Rightarrow> automation_occurrence \<Rightarrow> unix_millis \<Rightarrow>
   automation_scheduler_error + automation_occurrence" where
  "occurrence_apply OpQueueOverlap oc now = occurrence_queue_overlap oc now"
| "occurrence_apply OpPromoteQueued oc now = occurrence_promote_queued oc now"
| "occurrence_apply OpSkipMissed oc now = occurrence_skip_missed oc now"
| "occurrence_apply OpSkipOverlap oc now = occurrence_skip_overlap oc now"
| "occurrence_apply (OpClaim token expires_at) oc now = occurrence_claim_run oc token now expires_at"
| "occurrence_apply OpReleaseExpiredClaim oc now = occurrence_release_expired_claim oc now"
| "occurrence_apply (OpLinkRun token rid) oc now = occurrence_link_run oc token rid now"
| "occurrence_apply (OpSucceed rid) oc now = occurrence_succeed oc rid now"
| "occurrence_apply (OpFailRun rid) oc now = occurrence_fail oc rid now"
| "occurrence_apply (OpInterruptRun rid) oc now = occurrence_interrupt oc rid now"
| "occurrence_apply OpMarkClaimsExhausted oc now = occurrence_mark_claims_exhausted oc now"
| "occurrence_apply OpCancelOccurrence oc now = occurrence_cancel oc now"

fun is_link_run :: "occurrence_op \<Rightarrow> bool" where
  "is_link_run (OpLinkRun _ _) = True"
| "is_link_run _ = False"

fun is_claim :: "occurrence_op \<Rightarrow> bool" where
  "is_claim (OpClaim _ _) = True"
| "is_claim _ = False"

inductive occurrence_fresh :: "('d, 'z) calendar \<Rightarrow> sha256 \<Rightarrow> automation_occurrence \<Rightarrow> bool"
  for cal sha where
  pending: "occurrence_pending cal sha i aid snapshot decision n now = Inr oc \<Longrightarrow>
    occurrence_fresh cal sha oc"
| skipped: "occurrence_skipped_invalid_local_time cal sha i aid snapshot decision now = Inr oc \<Longrightarrow>
    occurrence_fresh cal sha oc"

inductive occurrence_step :: "automation_occurrence \<Rightarrow> automation_occurrence \<Rightarrow> bool" where
  apply_op: "occurrence_apply op oc now = Inr oc' \<Longrightarrow> occurrence_step oc oc'"

inductive_cases occurrence_stepE: "occurrence_step oc oc'"

lemmas occurrence_ops = occurrence_queue_overlap_def occurrence_promote_queued_def
  occurrence_skip_missed_def occurrence_skip_overlap_def occurrence_claim_run_def
  occurrence_release_expired_claim_def occurrence_link_run_def occurrence_succeed_def
  occurrence_fail_def occurrence_interrupt_def occurrence_mark_claims_exhausted_def
  occurrence_cancel_def occurrence_move_from_def occurrence_move_unclaimed_to_def
  occurrence_finish_linked_def occurrence_ensure_time_def

lemma advance_revision_Inr [result_simps]:
  "advance_revision r = Inr r' \<longleftrightarrow> r \<noteq> - 1 \<and> r' = r + 1"
  by (auto simp: advance_revision_def result_simps checked_add_one split: if_splits)

definition occurrence_frame ::
  "automation_occurrence \<Rightarrow> automation_occurrence_id \<times> automation_id \<times>
     automation_execution_snapshot \<times> automation_local_date_time \<times> unix_millis option \<times> u32 \<times>
     unix_millis" where
  "occurrence_frame oc = (oc_id oc, oc_automation_id oc, oc_snapshot oc, oc_nominal_local oc,
     oc_scheduled_for oc, oc_occurrence_count oc, oc_created_at oc)"

fun occurrence_edge :: "automation_occurrence_state \<Rightarrow> automation_occurrence_state \<Rightarrow> bool" where
  "occurrence_edge OccPending s = (s \<in> {OccQueuedOverlap, OccSkippedMissed, OccSkippedOverlap,
     OccClaimed, OccInterruptedNeedsReview, OccCancelled})"
| "occurrence_edge OccQueuedOverlap s =
     (s \<in> {OccPending, OccSkippedMissed, OccSkippedOverlap, OccCancelled})"
| "occurrence_edge OccClaimed s = (s \<in> {OccPending, OccRunLinked, OccCancelled})"
| "occurrence_edge OccRunLinked s =
     (s \<in> {OccSucceeded, OccFailed, OccInterruptedNeedsReview, OccCancelled})"
| "occurrence_edge _ s = False"

lemma occurrence_apply_common:
  assumes "occurrence_apply op oc now = Inr oc'"
  shows "oc_revision oc \<noteq> - 1 \<and> oc_revision oc' = oc_revision oc + 1 \<and>
    oc_updated_at oc \<le> now \<and> oc_updated_at oc' = now \<and>
    occurrence_frame oc' = occurrence_frame oc \<and> occurrence_edge (oc_state oc) (oc_state oc')"
proof (cases op)
  case OpCancelOccurrence
  with assms show ?thesis
    by (cases "oc_state oc") (auto simp: occurrence_cancel_def occurrence_ensure_time_def
        result_simps occurrence_frame_def)
qed (use assms in \<open>auto simp: occurrence_ops result_simps occurrence_frame_def\<close>)

interpretation occurrence_life: lifecycle occurrence_step oc_revision oc_updated_at
    occurrence_frame oc_state occurrence_edge occurrence_state_is_terminal
proof unfold_locales
  fix s t
  assume "occurrence_state_is_terminal s"
  then show "\<not> occurrence_edge s t" by (cases s) simp_all
qed (auto elim!: occurrence_stepE dest!: occurrence_apply_common simp: sat_succ_eq)

text \<open>The revision bounds of \<open>reachable_shape\<close> over naturals: \<open>n\<close> claims and revision \<open>r\<close>.\<close>

fun revision_shape_nat :: "automation_occurrence_state \<Rightarrow> bool \<Rightarrow> nat \<Rightarrow> nat \<Rightarrow> bool" where
  "revision_shape_nat OccPending run n r = (2 * n \<le> r \<and> even r)"
| "revision_shape_nat OccQueuedOverlap run n r = (2 * n + 1 \<le> r)"
| "revision_shape_nat OccSkippedMissed run n r = (2 * n + 1 \<le> r)"
| "revision_shape_nat OccSkippedOverlap run n r = (2 * n + 1 \<le> r)"
| "revision_shape_nat OccClaimed run n r = (0 < n \<and> 2 * n \<le> r + 1 \<and> odd r)"
| "revision_shape_nat OccRunLinked run n r = (0 < n \<and> 2 * n \<le> r \<and> even r)"
| "revision_shape_nat OccSucceeded run n r = (0 < n \<and> 2 * n + 1 \<le> r \<and> odd r)"
| "revision_shape_nat OccFailed run n r = (0 < n \<and> 2 * n + 1 \<le> r \<and> odd r)"
| "revision_shape_nat OccCancelled run n r =
     (if run then 0 < n \<and> 2 * n + 1 \<le> r else if 0 < n then 2 * n \<le> r else 1 \<le> r)"
| "revision_shape_nat OccSkippedInvalidLocalTime run n r = (n = 0 \<and> r = 0)"
| "revision_shape_nat OccInterruptedNeedsReview run n r =
     (2 * n + 1 \<le> r \<and> odd r \<and> (if run then 0 < n else n = 16))"

lemma is_multiple_of_2_even: "is_multiple_of_2 r \<longleftrightarrow> even (unat r)"
  by (simp add: is_multiple_of_2_def word_unat_eq_iff unat_mod even_iff_mod_2_eq_zero)

lemma attempts_nat:
  assumes "unat (a :: u32) \<le> 16"
  shows "unat (saturating_mul (ucast a :: u64) 2) = 2 * unat a"
    and "unat (saturating_add (saturating_mul (ucast a :: u64) 2) 1) = 2 * unat a + 1"
    and "unat (saturating_sub (saturating_mul (ucast a :: u64) 2) 1) = 2 * unat a - 1"
proof -
  show mul: "unat (saturating_mul (ucast a :: u64) 2) = 2 * unat a"
    using assms by (simp add: saturating_mul_def unat_ucast_u32 unat_word_ariths)
  then show "unat (saturating_add (saturating_mul (ucast a :: u64) 2) 1) = 2 * unat a + 1"
    using assms by (simp add: saturating_add_def unat_word_ariths)
  show "unat (saturating_sub (saturating_mul (ucast a :: u64) 2) 1) = 2 * unat a - 1"
    using mul by (auto simp: saturating_sub_def word_le_nat_alt unat_sub)
qed

lemma revision_shape_nat_iff:
  assumes "unat (oc_claim_attempt_count oc) \<le> 16"
  shows "occurrence_revision_shape oc \<longleftrightarrow>
    revision_shape_nat (oc_state oc) (oc_run_id oc \<noteq> None) (unat (oc_claim_attempt_count oc))
      (unat (oc_revision oc))"
proof -
  note a = attempts_nat [OF assms]
  have pos: "0 < (ucast (oc_claim_attempt_count oc) :: u64) \<longleftrightarrow> 0 < unat (oc_claim_attempt_count oc)"
    by (simp add: word_less_nat_alt unat_ucast_u32)
  have zero: "(ucast (oc_claim_attempt_count oc) :: u64) = 0 \<longleftrightarrow> unat (oc_claim_attempt_count oc) = 0"
    by (simp add: word_unat_eq_iff unat_ucast_u32)
  have sixteen: "oc_claim_attempt_count oc = 16 \<longleftrightarrow> unat (oc_claim_attempt_count oc) = 16"
    by (simp add: word_unat_eq_iff)
  have r0: "oc_revision oc = 0 \<longleftrightarrow> unat (oc_revision oc) = 0" by (simp add: word_unat_eq_iff)
  show ?thesis
    by (cases "oc_state oc")
       (auto simp: occurrence_revision_shape_def Let_def is_multiple_of_2_even word_le_nat_alt a pos zero
          max_automation_occurrence_claim_attempts_def sixteen r0)
qed

definition occurrence_frame_ok :: "('d, 'z) calendar \<Rightarrow> sha256 \<Rightarrow> automation_occurrence \<Rightarrow> bool" where
  "occurrence_frame_ok cal sha oc \<longleftrightarrow>
     is_ok (execution_snapshot_restore cal sha (oc_snapshot oc)) \<and>
     is_ok (local_to_naive cal (oc_nominal_local oc)) \<and> oc_occurrence_count oc \<noteq> 0 \<and>
     occurrence_exact_decision cal oc"

definition occurrence_shape_ok :: "automation_occurrence \<Rightarrow> bool" where
  "occurrence_shape_ok oc \<longleftrightarrow>
     unat (oc_claim_attempt_count oc) \<le> 16 \<and> oc_created_at oc \<le> oc_updated_at oc \<and>
     (oc_scheduled_for oc = None \<longleftrightarrow> oc_state oc = OccSkippedInvalidLocalTime) \<and>
     occurrence_lifecycle_shape oc \<and>
     revision_shape_nat (oc_state oc) (oc_run_id oc \<noteq> None) (unat (oc_claim_attempt_count oc))
       (unat (oc_revision oc)) \<and>
     occurrence_claim_shape oc"

lemma claim_attempts_le: "\<not> max_automation_occurrence_claim_attempts < a \<longleftrightarrow> unat a \<le> 16"
  by (simp add: max_automation_occurrence_claim_attempts_def word_less_nat_alt not_less)

lemma occurrence_restore_ok:
  "is_ok (occurrence_restore cal sha oc) \<longleftrightarrow> occurrence_frame_ok cal sha oc \<and> occurrence_shape_ok oc"
proof -
  have "(case oc_state oc of OccSkippedInvalidLocalTime \<Rightarrow> oc_scheduled_for oc = None
      | _ \<Rightarrow> oc_scheduled_for oc \<noteq> None) \<longleftrightarrow>
      (oc_scheduled_for oc = None \<longleftrightarrow> oc_state oc = OccSkippedInvalidLocalTime)"
    by (cases "oc_state oc") simp_all
  then show ?thesis
    using revision_shape_nat_iff [of oc]
    by (auto simp: occurrence_restore_def is_ok_and_then fail_if_Inr occurrence_frame_ok_def
          occurrence_shape_ok_def occurrence_reachable_shape_def claim_attempts_le)
qed

lemma occurrence_restore_Inr [result_simps]:
  "occurrence_restore cal sha oc = Inr oc' \<longleftrightarrow> oc' = oc \<and> is_ok (occurrence_restore cal sha oc)"
  by (auto simp: occurrence_restore_def result_simps is_ok_and_then)

text \<open>The parity of a queued revision is not checked by \<open>restore\<close> but holds of every history.\<close>

definition occurrence_inv :: "('d, 'z) calendar \<Rightarrow> sha256 \<Rightarrow> automation_occurrence \<Rightarrow> bool" where
  "occurrence_inv cal sha oc \<longleftrightarrow> is_ok (occurrence_restore cal sha oc) \<and>
     (oc_state oc = OccQueuedOverlap \<longrightarrow> odd (unat (oc_revision oc)))"

lemma occurrence_frame_ok_cong:
  "occurrence_frame oc' = occurrence_frame oc \<Longrightarrow> occurrence_frame_ok cal sha oc' = occurrence_frame_ok cal sha oc"
  by (auto simp: occurrence_frame_def occurrence_frame_ok_def occurrence_exact_decision_def
      split: sum.splits)

lemma occurrence_apply_shape:
  assumes ok: "occurrence_shape_ok oc" "oc_state oc = OccQueuedOverlap \<Longrightarrow> odd (unat (oc_revision oc))"
    and op: "occurrence_apply op oc now = Inr oc'"
  shows "occurrence_shape_ok oc' \<and> (oc_state oc' = OccQueuedOverlap \<longrightarrow> odd (unat (oc_revision oc')))"
proof -
  have common: "unat (oc_revision oc') = unat (oc_revision oc) + 1" "oc_updated_at oc \<le> oc_updated_at oc'"
    using occurrence_apply_common [OF op] unat_succ [of "oc_revision oc"] by auto
  have time: "oc_created_at oc \<le> oc_updated_at oc'"
    using ok(1) common(2) unfolding occurrence_shape_ok_def by (blast intro: order_trans)
  have claim_time: "cm_claimed_at c \<le> oc_updated_at oc'" if "oc_claim oc = Some c" for c
    using ok(1) common(2) that unfolding occurrence_shape_ok_def occurrence_claim_shape_def
    by (auto intro: order_trans)
  show ?thesis
  proof (cases op)
    case (OpClaim token expires)
    with op have "oc_claim_attempt_count oc < 16" "checked_add (oc_claim_attempt_count oc) 1 = Some (oc_claim_attempt_count oc')"
      by (auto simp: occurrence_ops result_simps max_automation_occurrence_claim_attempts_def not_le)
    then have "unat (oc_claim_attempt_count oc') = unat (oc_claim_attempt_count oc) + 1"
      "unat (oc_claim_attempt_count oc') \<le> 16"
      by (auto dest!: checked_add_Some_unat simp: word_less_nat_alt)
    moreover from this(1) have "0 < oc_claim_attempt_count oc'" by (simp add: word_less_nat_alt)
    ultimately show ?thesis using OpClaim op ok common time
      by (auto simp: occurrence_ops result_simps occurrence_shape_ok_def
          occurrence_lifecycle_shape_def occurrence_claim_shape_def not_less not_le word_gt_0)
  next
    case OpMarkClaimsExhausted
    with op ok have "unat (oc_claim_attempt_count oc) = 16" "oc_claim_attempt_count oc = 16"
      by (auto simp: occurrence_ops result_simps occurrence_shape_ok_def not_less
          max_automation_occurrence_claim_attempts_def word_le_nat_alt word_unat_eq_iff)
    with OpMarkClaimsExhausted op ok common time show ?thesis
      by (auto simp: occurrence_ops result_simps occurrence_shape_ok_def
          occurrence_lifecycle_shape_def occurrence_claim_shape_def
          max_automation_occurrence_claim_attempts_def)
  next
    case OpCancelOccurrence
    with op ok common time show ?thesis
      by (cases "oc_state oc") (auto simp: occurrence_ops result_simps occurrence_shape_ok_def
          occurrence_lifecycle_shape_def occurrence_claim_shape_def)
  qed (use op ok common time claim_time in \<open>auto simp: occurrence_ops result_simps
      occurrence_shape_ok_def occurrence_lifecycle_shape_def occurrence_claim_shape_def\<close>)
qed

interpretation occurrence_rest: restorable "occurrence_fresh cal sha" occurrence_step
    "occurrence_inv cal sha" for cal sha
proof unfold_locales
  fix oc
  assume "occurrence_fresh cal sha oc"
  then show "occurrence_inv cal sha oc"
    by cases (auto simp: occurrence_pending_def occurrence_skipped_invalid_local_time_def
        occurrence_materialize_def occurrence_inv_def result_simps
        split: automation_schedule_decision.splits)
next
  fix oc oc'
  assume inv: "occurrence_inv cal sha oc" and "occurrence_step oc oc'"
  then obtain op now where op: "occurrence_apply op oc now = Inr oc'" by (auto elim: occurrence_stepE)
  from inv show "occurrence_inv cal sha oc'"
    using occurrence_apply_shape [OF _ _ op] occurrence_apply_common [OF op]
      occurrence_frame_ok_cong [of oc' oc cal sha]
    by (simp add: occurrence_inv_def occurrence_restore_ok)
qed

interpretation occurrence_link: one_shot occurrence_apply is_link_run
    "\<lambda>oc. oc_state oc \<notin> {OccPending, OccQueuedOverlap, OccClaimed}"
proof unfold_locales
  fix op oc now oc'
  assume op: "occurrence_apply op oc now = Inr oc'"
  then have edge: "occurrence_edge (oc_state oc) (oc_state oc')"
    using occurrence_apply_common by blast
  show "oc_state oc' \<notin> {OccPending, OccQueuedOverlap, OccClaimed}"
    if "oc_state oc \<notin> {OccPending, OccQueuedOverlap, OccClaimed}"
    using edge that by (cases "oc_state oc") auto
  show "\<not> oc_state oc \<notin> {OccPending, OccQueuedOverlap, OccClaimed} \<and>
      oc_state oc' \<notin> {OccPending, OccQueuedOverlap, OccClaimed}" if "is_link_run op"
    using op that by (cases op) (auto simp: occurrence_link_run_def result_simps)
qed

text \<open>At most one run is ever linked to an occurrence: over any sequence of calls on it, by any
  scheduler owners at any times, at most one \<open>link_run\<close> succeeds, so an expired claim that was
  taken over cannot dispatch the same slot twice.\<close>

theorem occurrence_links_one_run:
  "length (filter is_link_run (snd (call_all occurrence_apply oc calls))) \<le> 1"
  by (rule occurrence_link.critical_at_most_once)

lemma claim_attempts_step:
  assumes "occurrence_apply op oc now = Inr oc'"
  shows "unat (oc_claim_attempt_count oc') = unat (oc_claim_attempt_count oc) + (if is_claim op then 1 else 0)"
    and "is_claim op \<Longrightarrow> unat (oc_claim_attempt_count oc) < 16"
proof -
  have claim: "unat (oc_claim_attempt_count oc') = unat (oc_claim_attempt_count oc) + 1 \<and>
      unat (oc_claim_attempt_count oc) < 16" if "is_claim op"
  proof -
    from that obtain token e where "op = OpClaim token e" by (cases op) auto
    with assms have "oc_claim_attempt_count oc < 16"
      "checked_add (oc_claim_attempt_count oc) 1 = Some (oc_claim_attempt_count oc')"
      by (auto simp: occurrence_ops result_simps max_automation_occurrence_claim_attempts_def not_le)
    then show ?thesis by (auto dest!: checked_add_Some_unat simp: word_less_nat_alt)
  qed
  then show "is_claim op \<Longrightarrow> unat (oc_claim_attempt_count oc) < 16" by simp
  have "oc_claim_attempt_count oc' = oc_claim_attempt_count oc" if "\<not> is_claim op"
    using assms that by (cases op) (auto simp: occurrence_ops result_simps)
  with claim show "unat (oc_claim_attempt_count oc') =
      unat (oc_claim_attempt_count oc) + (if is_claim op then 1 else 0)" by auto
qed

text \<open>Claims are bounded: over any sequence of calls on an occurrence, at most sixteen claims
  succeed, counting those it already had; so a slot whose claims keep expiring is not retried
  forever.\<close>

theorem occurrence_claims_bounded:
  "length (filter is_claim (snd (call_all occurrence_apply oc calls))) \<le>
     16 - unat (oc_claim_attempt_count oc)"
proof (induction calls arbitrary: oc)
  case (Cons c calls)
  obtain op now where c: "c = (op, now)" by (cases c)
  show ?case
  proof (cases "occurrence_apply op oc now")
    case (Inl e)
    with Cons.IH [of oc] c show ?thesis by simp
  next
    case (Inr oc')
    with Cons.IH [of oc'] claim_attempts_step [OF Inr] c show ?thesis
      by (cases "is_claim op") auto
  qed
qed simp

section \<open>Materializing the calculator's decisions\<close>

lemma decision_for_nominal_local:
  assumes "decision_for_nominal cal s tz nominal = Inr decision"
  shows "decision_nominal_local decision = nominal"
proof -
  from assms obtain l z where
    "(case tz_resolve cal z l of
        LocalSingle value \<Rightarrow> map_ok (DecisionDue nominal) (positive_timestamp value)
      | LocalAmbiguous first second \<Rightarrow>
          map_ok (DecisionDue nominal)
            (positive_timestamp (if first \<le> second then first else second))
      | LocalNone \<Rightarrow> Inr (DecisionSkippedNonexistentLocalTime nominal)) = Inr decision"
    unfolding decision_for_nominal_def and_then_Inr by blast
  then show ?thesis by (cases "tz_resolve cal z l") (auto simp: map_ok_Inr)
qed

lemma materialize_decision:
  assumes "execution_snapshot_valid cal sha snapshot" and "n \<noteq> 0"
    and D: "decision_for_nominal cal (es_schedule snapshot) (es_timezone snapshot) nominal = Inr decision"
  shows "case decision of
      DecisionDue _ at \<Rightarrow> is_ok (occurrence_pending cal sha i aid snapshot decision n now)
    | DecisionSkippedNonexistentLocalTime _ \<Rightarrow>
        is_ok (occurrence_skipped_invalid_local_time cal sha i aid snapshot decision now)"
proof -
  have local: "is_ok (local_to_naive cal nominal)" and nom: "decision_nominal_local decision = nominal"
    using D decision_for_nominal_local [OF D] by (auto simp: decision_for_nominal_def result_simps is_ok_iff)
  have snap: "execution_snapshot_restore cal sha snapshot = Inr snapshot"
    using assms(1) by (simp add: execution_snapshot_restore_def)
  obtain l where l: "local_to_naive cal nominal = Inr l" using local by (auto simp: is_ok_iff)
  show ?thesis
    using assms(2) D nom local snap
    by (cases decision) (auto simp: occurrence_pending_def occurrence_skipped_invalid_local_time_def
        occurrence_materialize_def l occurrence_restore_ok occurrence_frame_ok_def
        occurrence_shape_ok_def occurrence_exact_decision_def occurrence_lifecycle_shape_def
        occurrence_claim_shape_def)
qed

text \<open>C39. Every decision the calculator returns can be journalled: for a valid execution snapshot and
  any window, each due decision materializes as a pending occurrence and each skipped one as a
  terminal gap record, whatever identifiers and times are given; the persisted instant agrees
  with what \<open>restore\<close> recomputes from the nominal slot.\<close>

theorem calculator_decisions_materialize:
  assumes "calendar_laws cal" and "execution_snapshot_valid cal sha snapshot" and "n \<noteq> 0"
    and "decisions_between cal (es_schedule snapshot) (es_timezone snapshot) after through limit =
           Some (Inr ev)"
    and "decision \<in> set (ev_decisions ev)"
  shows "case decision of
      DecisionDue _ at \<Rightarrow> is_ok (occurrence_pending cal sha i aid snapshot decision n now)
    | DecisionSkippedNonexistentLocalTime _ \<Rightarrow>
        is_ok (occurrence_skipped_invalid_local_time cal sha i aid snapshot decision now)"
proof -
  from assms(1,4) obtain w dates new where
    "list_all2 (owed cal (es_schedule snapshot) (es_timezone snapshot) w) dates new"
    "ev_decisions ev = take limit new"
    by (elim decisions_between_Inr) (auto simp: loop_result_def owed_from_def)
  then obtain d where "owed cal (es_schedule snapshot) (es_timezone snapshot) w d decision"
    using assms(5) by (auto dest!: in_set_takeD simp: list_all2_conv_all_nth in_set_conv_nth)
  then show ?thesis
    using materialize_decision [OF assms(2,3)] by (auto simp: owed_def)
qed

section \<open>Lease generations\<close>

text \<open>The daemon renews and takes over with one fixed lifetime \<open>ttl\<close>.\<close>

inductive lease_step :: "u64 \<Rightarrow> automation_scheduler_lease \<Rightarrow> automation_scheduler_lease \<Rightarrow> bool"
  for ttl where
  renew: "lease_renew l token now ttl = Inr l' \<Longrightarrow> lease_step ttl l l'"
| take_over: "lease_take_over l owner fence now ttl = Inr l' \<Longrightarrow> lease_step ttl l l'"

definition lease_well_timed :: "u64 \<Rightarrow> automation_scheduler_lease \<Rightarrow> bool" where
  "lease_well_timed ttl l \<longleftrightarrow> is_ok (lease_restore l) \<and> unat (le_expires_at l) = unat (le_renewed_at l) + unat ttl"

lemma lease_acquire_well_timed: "lease_acquire owner fence now ttl = Inr l \<Longrightarrow> lease_well_timed ttl l"
proof -
  assume "lease_acquire owner fence now ttl = Inr l"
  then obtain e where e: "checked_add now ttl = Some e" "0 < ttl" "ttl \<le> max_automation_scheduler_lease_ms"
    "fence \<noteq> 0" "l = \<lparr>le_owner_id = owner, le_fence = fence, le_acquired_at = now,
       le_renewed_at = now, le_expires_at = e\<rparr>"
    by (auto simp: lease_acquire_def validate_lease_ttl_def result_simps word_gt_0 not_less)
  then have "unat e = unat now + unat ttl" by (auto dest: checked_add_Some_unat)
  moreover from this e(2) have "now < e" "e - now = ttl"
    by (simp_all add: word_less_nat_alt word_unat_eq_iff unat_sub word_le_nat_alt)
  ultimately show ?thesis using e
    by (simp add: lease_well_timed_def lease_restore_def is_ok_and_then fail_if_Inr not_le not_less)
qed

lemma lease_renew_Inr:
  assumes "lease_renew l token now ttl = Inr l'" and "lease_well_timed ttl l"
  shows "lease_well_timed ttl l'" and "le_fence l' = le_fence l" "le_owner_id l' = le_owner_id l"
    "le_acquired_at l' = le_acquired_at l" "le_expires_at l \<le> le_expires_at l'"
proof -
  from assms(1) obtain e where e: "checked_add now ttl = Some e" "0 < ttl"
    "ttl \<le> max_automation_scheduler_lease_ms" "le_renewed_at l \<le> now"
    "l' = l\<lparr>le_expires_at := e, le_renewed_at := now\<rparr>"
    by (auto simp: lease_renew_def validate_lease_ttl_def result_simps word_gt_0 not_less)
  then have u: "unat e = unat now + unat ttl" by (auto dest: checked_add_Some_unat)
  then have "now < e" "e - now = ttl" using e(2)
    by (simp_all add: word_less_nat_alt word_unat_eq_iff unat_sub word_le_nat_alt)
  moreover have "le_acquired_at l \<le> le_renewed_at l" "le_fence l \<noteq> 0"
    using assms(2) by (auto simp: lease_well_timed_def lease_restore_def is_ok_and_then fail_if_Inr)
  ultimately show "lease_well_timed ttl l'" using e u
    by (auto simp: lease_well_timed_def lease_restore_def is_ok_and_then fail_if_Inr)
  show "le_expires_at l \<le> le_expires_at l'"
    using e(4,5) u assms(2) by (simp add: lease_well_timed_def word_le_nat_alt)
qed (use assms(1) in \<open>auto simp: lease_renew_def result_simps\<close>)

lemma lease_take_over_Inr:
  assumes "lease_take_over l owner fence now ttl = Inr l'"
  shows "lease_well_timed ttl l'" and "le_fence l < le_fence l'" "le_expires_at l \<le> le_acquired_at l'"
  using assms lease_acquire_well_timed
  by (auto simp: lease_take_over_def result_simps lease_acquire_def)

text \<open>How a later lease of the history relates to an earlier one.\<close>

definition lease_after :: "automation_scheduler_lease \<Rightarrow> automation_scheduler_lease \<Rightarrow> bool" where
  "lease_after l l' \<longleftrightarrow>
     (le_fence l < le_fence l' \<and> le_expires_at l \<le> le_acquired_at l') \<or>
     (lease_token l = lease_token l' \<and> le_expires_at l \<le> le_expires_at l')"

lemma lease_step_after:
  assumes "lease_step ttl l l'" and "lease_well_timed ttl l" and "lease_after l0 l"
  shows "lease_well_timed ttl l' \<and> lease_after l0 l'"
  using assms(1)
proof cases
  case (renew token now)
  from lease_renew_Inr [OF renew assms(2)] assms(3) show ?thesis
    by (auto simp: lease_after_def lease_token_def)
next
  case (take_over owner fence now)
  note t = lease_take_over_Inr [OF take_over]
  have "le_acquired_at l \<le> le_renewed_at l" "le_renewed_at l < le_expires_at l"
    using assms(2) by (auto simp: lease_well_timed_def lease_restore_def is_ok_and_then fail_if_Inr not_le not_less)
  then have "le_acquired_at l \<le> le_acquired_at l'" using t(3) by (meson le_less_trans less_imp_le order_trans)
  with t assms(3) show ?thesis
    unfolding lease_after_def lease_token_def
    by (auto intro: order_trans less_trans)
qed

lemma lease_steps_after:
  assumes "(lease_step ttl)\<^sup>*\<^sup>* l l'" and "lease_well_timed ttl l"
  shows "lease_well_timed ttl l' \<and> lease_after l l'"
  using assms(1)
proof (induction rule: rtranclp_induct)
  case base
  then show ?case using assms(2) by (simp add: lease_after_def)
next
  case (step y z)
  then show ?case using lease_step_after [OF step(2)] by blast
qed



section \<open>Restoring occurrences\<close>

text \<open>C38. Every occurrence a history produces is restorable: whatever sequence of operations follows a
  materialization, the row passes the full \<open>restore\<close> check, so recovery never loses a slot the
  scheduler itself wrote.\<close>

theorem occurrence_histories_restore:
  assumes "occurrence_fresh cal sha oc0" and "occurrence_step\<^sup>*\<^sup>* oc0 oc"
  shows "occurrence_restore cal sha oc = Inr oc"
  using occurrence_rest.reachable_accepted [OF assms]
  by (simp add: occurrence_inv_def occurrence_restore_Inr)

definition sample_snapshot :: automation_execution_snapshot where
  "sample_snapshot =
     \<lparr>es_definition_revision = 0, es_project_id = ProjectId (lit ''p''), es_title = lit ''t'',
      es_prompt = lit ''q'', es_schedule = morning, es_canonical_schedule = to_canonical_string morning,
      es_timezone = lit ''UTC'', es_missed_run_policy = MissedSkip,
      es_overlap_policy = OverlapQueueOne, es_schedule_fingerprint = ScheduleFingerprint [7],
      es_calculator_version = 1\<rparr>"

lemma morning_valid: "schedule_valid morning"
  by (simp add: schedule_valid_def schedule_new_def morning_def)

lemma sample_snapshot_valid: "execution_snapshot_valid plain_calendar (\<lambda>_. [7]) sample_snapshot"
  using morning_valid
  by (simp add: execution_snapshot_valid_def sample_snapshot_def validate_execution_text_def
        str_trim_def char_is_whitespace_def str_len_def utf8_width_def max_automation_title_bytes_def
        max_automation_prompt_bytes_def char_is_control_def parse_canonical_iff parse_timezone_def
        plain_calendar_def automation_schedule_calculator_version_def schedule_fingerprint_def)

definition sample_occurrence :: automation_occurrence where
  "sample_occurrence =
     \<lparr>oc_id = AutomationOccurrenceId (lit ''o''), oc_automation_id = AutomationId (lit ''a''),
      oc_snapshot = sample_snapshot, oc_nominal_local = decision_nominal_local first_morning,
      oc_scheduled_for = Some 34200000, oc_occurrence_count = 1, oc_state = OccPending,
      oc_claim = None, oc_run_id = None, oc_claim_attempt_count = 0, oc_revision = 0,
      oc_created_at = 34200000, oc_updated_at = 34200000\<rparr>"

lemma first_morning_decision:
  "decision_for_nominal plain_calendar (es_schedule sample_snapshot) (es_timezone sample_snapshot)
     (decision_nominal_local first_morning) = Inr first_morning"
  by (simp add: sample_snapshot_def first_morning_def decision_for_nominal_def local_to_naive_def
        plain_calendar_def and_hms_def morning_def schedule_matches_def parse_timezone_def
        positive_timestamp_def)

lemma pending_InrD:
  assumes "occurrence_pending cal sha i aid snapshot (DecisionDue nominal at) n now = Inr oc"
  shows "oc = \<lparr>oc_id = i, oc_automation_id = aid, oc_snapshot = snapshot, oc_nominal_local = nominal,
        oc_scheduled_for = Some at, oc_occurrence_count = n, oc_state = OccPending, oc_claim = None,
        oc_run_id = None, oc_claim_attempt_count = 0, oc_revision = 0, oc_created_at = now,
        oc_updated_at = now\<rparr>"
  using assms
  by (simp add: occurrence_pending_def occurrence_materialize_def occurrence_restore_Inr result_simps)

lemma first_morning_due: "first_morning = DecisionDue (decision_nominal_local first_morning) 34200000"
  by (simp add: first_morning_def)

lemma sample_occurrence_pending:
  "occurrence_pending plain_calendar (\<lambda>_. [7]) (AutomationOccurrenceId (lit ''o''))
     (AutomationId (lit ''a'')) sample_snapshot first_morning 1 34200000 = Inr sample_occurrence"
proof -
  have "case first_morning of
      DecisionDue _ at \<Rightarrow> is_ok (occurrence_pending plain_calendar (\<lambda>_. [7])
        (AutomationOccurrenceId (lit ''o'')) (AutomationId (lit ''a'')) sample_snapshot first_morning 1 34200000)
    | DecisionSkippedNonexistentLocalTime _ \<Rightarrow>
        is_ok (occurrence_skipped_invalid_local_time plain_calendar (\<lambda>_. [7])
          (AutomationOccurrenceId (lit ''o'')) (AutomationId (lit ''a'')) sample_snapshot first_morning 34200000)"
    by (rule materialize_decision [OF sample_snapshot_valid _ first_morning_decision]) simp
  then obtain oc where oc: "occurrence_pending plain_calendar (\<lambda>_. [7])
      (AutomationOccurrenceId (lit ''o'')) (AutomationId (lit ''a'')) sample_snapshot first_morning 1 34200000 = Inr oc"
    by (subst (asm) first_morning_due) (auto simp: is_ok_iff)
  have "oc = sample_occurrence"
    unfolding sample_occurrence_def
    by (rule pending_InrD) (use oc in \<open>simp only: first_morning_due [symmetric]\<close>)
  with oc show ?thesis by simp
qed

theorem occurrence_histories_restore_witness:
  "occurrence_restore plain_calendar (\<lambda>_. [7])
     (sample_occurrence\<lparr>oc_revision := 1, oc_state := OccQueuedOverlap, oc_updated_at := 34200005\<rparr>) =
   Inr (sample_occurrence\<lparr>oc_revision := 1, oc_state := OccQueuedOverlap, oc_updated_at := 34200005\<rparr>)"
proof (rule occurrence_histories_restore)
  show "occurrence_fresh plain_calendar (\<lambda>_. [7]) sample_occurrence"
    using sample_occurrence_pending by (rule occurrence_fresh.pending)
  have "occurrence_apply OpQueueOverlap sample_occurrence 34200005 =
      Inr (sample_occurrence\<lparr>oc_revision := 1, oc_state := OccQueuedOverlap, oc_updated_at := 34200005\<rparr>)"
    by (simp add: occurrence_ops sample_occurrence_def sample_snapshot_def advance_revision_def
          checked_add_def)
  then show "occurrence_step\<^sup>*\<^sup>* sample_occurrence
      (sample_occurrence\<lparr>oc_revision := 1, oc_state := OccQueuedOverlap, oc_updated_at := 34200005\<rparr>)"
    by (blast intro: occurrence_step.apply_op)
qed

theorem calculator_decisions_materialize_witness:
  "is_ok (occurrence_pending plain_calendar (\<lambda>_. [7]) (AutomationOccurrenceId (lit ''o''))
     (AutomationId (lit ''a'')) sample_snapshot first_morning 3 99)"
proof -
  have "decisions_between plain_calendar (es_schedule sample_snapshot) (es_timezone sample_snapshot)
      0 86400000 5 = Some (Inr \<lparr>ev_decisions = [first_morning], ev_truncated = False\<rparr>)"
    using first_day_decisions by (simp add: sample_snapshot_def)
  from calculator_decisions_materialize [OF plain_calendar_laws sample_snapshot_valid _ this, of 3]
  show ?thesis by (simp add: first_morning_def)
qed

text \<open>
  \<open>restore\<close> does not check the parity of a queued occurrence's revision: it accepts a queued row at
  an even revision, which no history produces, and promoting that row gives a pending one that
  \<open>restore\<close> refuses.
\<close>

lemma restore_accepts_unreachable_queued:
  "\<exists>oc oc'. is_ok (occurrence_restore plain_calendar (\<lambda>_. [7]) oc) \<and>
     occurrence_promote_queued oc 34200009 = Inr oc' \<and>
     \<not> is_ok (occurrence_restore plain_calendar (\<lambda>_. [7]) oc')"
proof -
  let ?oc = "sample_occurrence\<lparr>oc_revision := 2, oc_state := OccQueuedOverlap\<rparr>"
  let ?oc' = "sample_occurrence\<lparr>oc_revision := 3, oc_state := OccPending, oc_updated_at := 34200009\<rparr>"
  have "is_ok (occurrence_restore plain_calendar (\<lambda>_. [7]) sample_occurrence)"
    using occurrence_rest.init_accepted [OF occurrence_fresh.pending [OF sample_occurrence_pending]]
    by (simp add: occurrence_inv_def)
  then have "occurrence_frame_ok plain_calendar (\<lambda>_. [7]) sample_occurrence"
    by (simp add: occurrence_restore_ok)
  then have "occurrence_frame_ok plain_calendar (\<lambda>_. [7]) ?oc"
    by (subst occurrence_frame_ok_cong [of _ sample_occurrence]) (simp_all add: occurrence_frame_def)
  moreover have "occurrence_shape_ok ?oc"
    by (simp add: occurrence_shape_ok_def occurrence_lifecycle_shape_def occurrence_claim_shape_def
          sample_occurrence_def)
  ultimately have "is_ok (occurrence_restore plain_calendar (\<lambda>_. [7]) ?oc)"
    by (simp add: occurrence_restore_ok)
  moreover have "occurrence_promote_queued ?oc 34200009 = Inr ?oc'"
    by (simp add: occurrence_ops sample_occurrence_def advance_revision_def checked_add_def)
  moreover have "\<not> is_ok (occurrence_restore plain_calendar (\<lambda>_. [7]) ?oc')"
    by (simp add: occurrence_restore_ok occurrence_shape_ok_def sample_occurrence_def)
  ultimately show ?thesis by blast
qed

end
