(* ===== verification/Automations.thy ===== *)
theory Automations
  imports Workspace Occurrences
begin

text \<open>
  Automation definitions and their history entries (grok-domain, \<open>workspace.rs\<close>): creation and
  update normalize the schedule, \<open>restore\<close> accepts persisted rows. Lemmas: what the operations
  produce restores, and every definition \<open>restore\<close> accepts can be frozen into the execution snapshot
  the scheduler takes of it.
\<close>

section \<open>Definitions\<close>

datatype automation_state = AutomationEnabled | AutomationDisabled | AutomationArchived

record automation =
  au_id :: automation_id
  au_project_id :: project_id
  au_title :: rstr
  au_prompt :: rstr
  au_schedule :: rstr
  au_timezone :: rstr
  au_missed_run_policy :: missed_run_policy
  au_overlap_policy :: overlap_policy
  au_state :: automation_state
  au_revision :: u64
  au_created_at :: unix_millis
  au_updated_at :: unix_millis

definition is_timezone_char :: "nat \<Rightarrow> bool" where
  "is_timezone_char c \<longleftrightarrow>
     (48 \<le> c \<and> c \<le> 57) \<or> (65 \<le> c \<and> c \<le> 90) \<or> (97 \<le> c \<and> c \<le> 122) \<or>
     c \<in> set (lit ''_+-/'')"

definition validate_automation_text ::
  "('d, 'z) calendar \<Rightarrow> rstr \<Rightarrow> rstr \<Rightarrow> rstr \<Rightarrow> workspace_error + unit" where
  "validate_automation_text cal title prompt timezone =
     and_then (validate_text ''automation.title'' title 1 max_name_bytes True) (\<lambda>_.
     and_then (validate_text ''automation.prompt'' prompt 1 max_prompt_bytes False) (\<lambda>_.
     and_then (validate_text ''automation.timezone'' timezone 1 128 True) (\<lambda>_.
     fail_if (\<not> list_all is_timezone_char timezone \<or> tz_parse cal timezone = None)
       (WsInvalidField ''automation.timezone'' ''must be an IANA-style timezone identifier''))))"

definition invalid_automation_schedule :: workspace_error where
  "invalid_automation_schedule =
     WsInvalidField ''automation.schedule'' ''must use a supported canonical schedule''"

definition normalize_automation ::
  "('d, 'z) calendar \<Rightarrow> json_parse \<Rightarrow> rstr \<Rightarrow> rstr \<Rightarrow> rstr \<Rightarrow> rstr \<Rightarrow> workspace_error + rstr" where
  "normalize_automation cal json title prompt schedule timezone =
     and_then (validate_automation_text cal title prompt timezone) (\<lambda>_.
     map_err (\<lambda>_. invalid_automation_schedule)
       (map_ok to_canonical_string (parse_for_normalization cal json schedule timezone)))"

definition enabled_state :: "bool \<Rightarrow> automation_state" where
  "enabled_state enabled = (if enabled then AutomationEnabled else AutomationDisabled)"

definition automation_new ::
  "('d, 'z) calendar \<Rightarrow> json_parse \<Rightarrow> automation_id \<Rightarrow> project_id \<Rightarrow> rstr \<Rightarrow> rstr \<Rightarrow> rstr \<Rightarrow> rstr \<Rightarrow>
   missed_run_policy \<Rightarrow> overlap_policy \<Rightarrow> bool \<Rightarrow> unix_millis \<Rightarrow> workspace_error + automation" where
  "automation_new cal json i pid title prompt schedule timezone missed overlap enabled now =
     and_then (normalize_automation cal json title prompt schedule timezone) (\<lambda>schedule.
     Inr \<lparr>au_id = i, au_project_id = pid, au_title = title, au_prompt = prompt,
          au_schedule = schedule, au_timezone = timezone, au_missed_run_policy = missed,
          au_overlap_policy = overlap, au_state = enabled_state enabled, au_revision = 0,
          au_created_at = now, au_updated_at = now\<rparr>)"

definition automation_ensure_not_archived :: "automation \<Rightarrow> workspace_error + unit" where
  "automation_ensure_not_archived a =
     fail_if (au_state a = AutomationArchived) (WsInvalidLifecycle ''automation'')"

definition automation_touch :: "automation \<Rightarrow> unix_millis \<Rightarrow> workspace_error + automation" where
  "automation_touch a now =
     and_then (touch (au_revision a) (au_updated_at a) now) (\<lambda>(r, t).
     Inr (a\<lparr>au_revision := r, au_updated_at := t\<rparr>))"

definition automation_update ::
  "('d, 'z) calendar \<Rightarrow> json_parse \<Rightarrow> automation \<Rightarrow> rstr \<Rightarrow> rstr \<Rightarrow> rstr \<Rightarrow> rstr \<Rightarrow>
   missed_run_policy \<Rightarrow> overlap_policy \<Rightarrow> bool \<Rightarrow> unix_millis \<Rightarrow> workspace_error + automation" where
  "automation_update cal json a title prompt schedule timezone missed overlap enabled now =
     and_then (automation_ensure_not_archived a) (\<lambda>_.
     and_then (normalize_automation cal json title prompt schedule timezone) (\<lambda>schedule.
     and_then (automation_touch a now) (\<lambda>a.
     Inr (a\<lparr>au_title := title, au_prompt := prompt, au_schedule := schedule,
            au_timezone := timezone, au_missed_run_policy := missed,
            au_overlap_policy := overlap, au_state := enabled_state enabled\<rparr>))))"

definition automation_archive :: "automation \<Rightarrow> unix_millis \<Rightarrow> workspace_error + automation" where
  "automation_archive a now =
     and_then (automation_ensure_not_archived a) (\<lambda>_.
     and_then (automation_touch a now) (\<lambda>a.
     Inr (a\<lparr>au_state := AutomationArchived\<rparr>)))"

definition automation_restore ::
  "('d, 'z) calendar \<Rightarrow> automation \<Rightarrow> workspace_error + automation" where
  "automation_restore cal a =
     and_then (validate_automation_text cal (au_title a) (au_prompt a) (au_timezone a)) (\<lambda>_.
     and_then (map_err (\<lambda>_. invalid_automation_schedule) (parse_canonical (au_schedule a))) (\<lambda>_.
     and_then (fail_if
         (au_updated_at a < au_created_at a \<or>
          (au_revision a = 0 \<and>
           (au_updated_at a \<noteq> au_created_at a \<or> au_state a = AutomationArchived)))
       (WsInvalidField ''automation.persisted_state''
          ''has invalid lifecycle, revision, or timestamps'')) (\<lambda>_.
     Inr a)))"

section \<open>History entries\<close>

datatype automation_history_status =
    HistorySucceeded | HistoryFailed | HistorySkippedMissed | HistorySkippedOverlap

record automation_history_entry =
  ah_automation_id :: automation_id
  ah_sequence :: u64
  ah_scheduled_for :: unix_millis
  ah_recorded_at :: unix_millis
  ah_status :: automation_history_status
  ah_summary :: rstr

definition history_entry_new ::
  "automation_id \<Rightarrow> unix_millis \<Rightarrow> unix_millis \<Rightarrow> automation_history_status \<Rightarrow> rstr \<Rightarrow>
   workspace_error + automation_history_entry" where
  "history_entry_new aid scheduled_for recorded_at status summary =
     and_then (validate_text ''automation_history.summary'' summary 0 1000 False) (\<lambda>_.
     and_then (fail_if (recorded_at < scheduled_for)
       (WsInvalidField ''automation_history.recorded_at'' ''must not predate the scheduled time'')) (\<lambda>_.
     Inr \<lparr>ah_automation_id = aid, ah_sequence = 0, ah_scheduled_for = scheduled_for,
          ah_recorded_at = recorded_at, ah_status = status, ah_summary = summary\<rparr>))"

definition history_entry_restore ::
  "automation_history_entry \<Rightarrow> workspace_error + automation_history_entry" where
  "history_entry_restore e =
     and_then (fail_if
         (ah_sequence e = 0 \<or> ah_recorded_at e < ah_scheduled_for e \<or>
          \<not> is_ok (validate_text ''automation_history.summary'' (ah_summary e) 0 1000 False))
       (WsInvalidField ''automation_history.persisted_state''
          ''has invalid sequence, timestamps, or summary'')) (\<lambda>_.
     Inr e)"

section \<open>Histories of a definition\<close>

text \<open>Creation and the two mutations, over any calendar and JSON parser.\<close>

inductive automation_fresh :: "('d, 'z) calendar \<Rightarrow> json_parse \<Rightarrow> automation \<Rightarrow> bool" for cal json where
  "automation_new cal json i pid title prompt schedule timezone missed overlap enabled now = Inr a \<Longrightarrow>
   automation_fresh cal json a"

inductive automation_step :: "('d, 'z) calendar \<Rightarrow> json_parse \<Rightarrow> automation \<Rightarrow> automation \<Rightarrow> bool"
  for cal json where
  update: "automation_update cal json a title prompt schedule timezone missed overlap enabled now = Inr a' \<Longrightarrow>
    automation_step cal json a a'"
| archive: "automation_archive a now = Inr a' \<Longrightarrow> automation_step cal json a a'"

lemmas automation_ops = automation_update_def automation_archive_def automation_touch_def
  automation_ensure_not_archived_def

definition automation_frame :: "automation \<Rightarrow> automation_id \<times> project_id \<times> unix_millis" where
  "automation_frame a = (au_id a, au_project_id a, au_created_at a)"

interpretation automation_life: lifecycle "automation_step cal json" au_revision au_updated_at
    automation_frame au_state "\<lambda>s t. s \<noteq> AutomationArchived" "\<lambda>s. s = AutomationArchived"
  for cal json
  by unfold_locales
     (auto elim!: automation_step.cases simp: automation_ops result_simps sat_succ_eq automation_frame_def)

lemma automation_restore_ok:
  "is_ok (automation_restore cal a) \<longleftrightarrow>
     is_ok (validate_automation_text cal (au_title a) (au_prompt a) (au_timezone a)) \<and>
     is_ok (parse_canonical (au_schedule a)) \<and> au_created_at a \<le> au_updated_at a \<and>
     (au_revision a = 0 \<longrightarrow> au_updated_at a = au_created_at a \<and> au_state a \<noteq> AutomationArchived)"
  by (auto simp: automation_restore_def is_ok_iff result_simps)

lemma normalize_Inr:
  assumes "normalize_automation cal json title prompt schedule timezone = Inr s"
  shows "is_ok (validate_automation_text cal title prompt timezone) \<and> is_ok (parse_canonical s)"
proof -
  from assms obtain x where x: "parse_for_normalization cal json schedule timezone = Inr x"
      and s: "s = to_canonical_string x" and ok: "is_ok (validate_automation_text cal title prompt timezone)"
    by (auto simp: normalize_automation_def result_simps is_ok_iff)
  have "parse_canonical s = Inr x"
    using parse_for_normalization_valid [OF x] s by (simp add: parse_canonical_iff)
  with ok show ?thesis by simp
qed

interpretation automation_rest: restorable "automation_fresh cal json" "automation_step cal json"
    "\<lambda>a. is_ok (automation_restore cal a)"
  for cal json
proof unfold_locales
  fix a
  assume "automation_fresh cal json a"
  then show "is_ok (automation_restore cal a)"
    by (auto elim!: automation_fresh.cases simp: automation_new_def result_simps automation_restore_ok
          enabled_state_def dest!: normalize_Inr split: if_splits)
next
  fix a a'
  assume ok: "is_ok (automation_restore cal a)" and step: "automation_step cal json a a'"
  from ok have "au_created_at a \<le> au_updated_at a" by (simp add: automation_restore_ok)
  also note automation_life.step_updated_at [OF step]
  finally have time: "au_created_at a \<le> au_updated_at a'" .
  from step show "is_ok (automation_restore cal a')"
    using ok time
    by cases (auto simp: automation_ops result_simps automation_restore_ok u64_succ_neq_zero
        dest!: normalize_Inr)
qed

lemma str_trim_nonempty: "1 \<le> str_len (str_trim v) \<Longrightarrow> str_trim v \<noteq> []"
  by (auto simp: str_len_def)

text \<open>The two text checks of the domain agree, so a definition that restores can be frozen.\<close>

lemma validate_automation_text_execution:
  assumes "is_ok (validate_automation_text cal title prompt timezone)"
  shows "is_ok (validate_execution_text title prompt) \<and> is_ok (parse_timezone cal timezone)"
  using assms str_trim_nonempty [of title] str_trim_nonempty [of prompt]
  by (auto simp: validate_automation_text_def validate_text_def validate_execution_text_def
        is_ok_iff result_simps parse_timezone_def max_name_bytes_def max_prompt_bytes_def
        max_automation_title_bytes_def max_automation_prompt_bytes_def list_ex_iff)

text \<open>The execution snapshot the scheduler takes of a definition.\<close>

definition automation_snapshot ::
  "('d, 'z) calendar \<Rightarrow> sha256 \<Rightarrow> automation \<Rightarrow> automation_scheduler_error + automation_execution_snapshot" where
  "automation_snapshot cal sha a =
     execution_snapshot_new cal sha (au_revision a) (au_project_id a) (au_title a) (au_prompt a)
       (au_schedule a) (au_timezone a) (au_missed_run_policy a) (au_overlap_policy a)"

text \<open>chrono-tz parses the name it gives a zone back to that zone.\<close>

definition timezone_laws :: "('d, 'z) calendar \<Rightarrow> bool" where
  "timezone_laws cal \<longleftrightarrow> (\<forall>tz. tz_parse cal (tz_name cal tz) = Some tz)"

lemma plain_timezone_laws: "timezone_laws plain_calendar"
  by (simp add: timezone_laws_def plain_calendar_def)

lemma automation_snapshot_exists:
  assumes laws: "timezone_laws cal" and ok: "is_ok (automation_restore cal a)"
  shows "\<exists>s. automation_snapshot cal sha a = Inr s \<and> execution_snapshot_valid cal sha s \<and>
    es_definition_revision s = au_revision a \<and> es_canonical_schedule s = au_schedule a"
proof -
  obtain x tz where x: "parse_canonical (au_schedule a) = Inr x"
      and tz: "parse_timezone cal (au_timezone a) = Inr tz"
      and exe: "validate_execution_text (au_title a) (au_prompt a) = Inr ()"
    using ok [unfolded automation_restore_ok]
      validate_automation_text_execution [of cal "au_title a" "au_prompt a" "au_timezone a"]
    by (auto simp: is_ok_iff)
  have name: "parse_timezone cal (tz_name cal tz) = Inr tz"
    using tz laws by (auto simp: parse_timezone_def timezone_laws_def result_simps)
  have "canonicalize_timezone cal (au_timezone a) = Inr (tz_name cal tz)"
    using tz by (auto simp: canonicalize_timezone_def)
  with x exe name show ?thesis
    by (simp add: automation_snapshot_def execution_snapshot_new_def execution_snapshot_valid_def
          schedule_fingerprint_def)
qed

end
