(* ===== verification/ConversationTurns.thy ===== *)
theory ConversationTurns
  imports Workspace Encodings
begin

text \<open>
  The conversation-turn aggregate and its event stream (grok-domain, \<open>conversation.rs\<close>): one
  billable provider request from reservation to outcome, its credential lineage, and the
  append-only turn-local event log clients replay. \<open>url::Url::parse\<close> is third-party code and is
  the parameter \<open>url\<close>. Lemmas: \<open>restore\<close> accepts exactly the reachable turns, the provider
  is started at most once, retry chains are bounded, and an event stream is accepted exactly
  when it has the canonical shape, from which the projection is read off.
\<close>

definition turn_max_idempotency_key_bytes :: nat where "turn_max_idempotency_key_bytes = 128"
definition max_credential_binding_id_bytes :: nat where "max_credential_binding_id_bytes = 128"
definition max_model_id_bytes :: nat where "max_model_id_bytes = 512"
definition max_provider_response_id_bytes :: nat where "max_provider_response_id_bytes = 512"
definition max_failure_message_bytes :: nat where "max_failure_message_bytes = 512"
definition max_citations :: nat where "max_citations = 256"
definition max_citation_title_bytes :: nat where "max_citation_title_bytes = 500"
definition max_citation_url_bytes :: nat where "max_citation_url_bytes = 8192"
definition max_conversation_citation_total_bytes :: nat where
  "max_conversation_citation_total_bytes = 1000000"
definition max_conversation_usage_value :: u64 where
  "max_conversation_usage_value = 9007199254740991"
definition max_conversation_text_chunk_bytes :: nat where
  "max_conversation_text_chunk_bytes = 16 * 1024"
definition max_conversation_text_events :: nat where "max_conversation_text_events = 4097"

section \<open>States and errors\<close>

datatype conversation_turn_origin =
    TurnOriginal
  | TurnRetry conversation_turn_id
  | TurnEditAndBranch conversation_turn_id
  | TurnRegenerate conversation_turn_id

datatype chat_rail = XaiApiKey | SuperGrokApi

record conversation_turn_lineage =
  cl_origin :: conversation_turn_origin
  cl_credential_binding_id :: "rstr option"
  cl_rail :: chat_rail
  cl_retry_depth :: u8

datatype conversation_turn_state =
    TurnReserved
  | TurnProviderStarted
  | TurnCompleted
  | TurnFailed
  | TurnCancelled
  | TurnInterruptedNeedsReview

datatype conversation_turn_error =
    TurnInvalidField string
  | TurnInvalidTransition conversation_turn_state conversation_turn_state
  | TurnClockRegression
  | TurnRevisionExhausted

fun turn_state_is_terminal :: "conversation_turn_state \<Rightarrow> bool" where
  "turn_state_is_terminal TurnCompleted = True"
| "turn_state_is_terminal TurnFailed = True"
| "turn_state_is_terminal TurnCancelled = True"
| "turn_state_is_terminal TurnInterruptedNeedsReview = True"
| "turn_state_is_terminal _ = False"

fun turn_state_permits :: "conversation_turn_state \<Rightarrow> conversation_turn_state \<Rightarrow> bool" where
  "turn_state_permits TurnReserved next = (next = TurnProviderStarted \<or> next = TurnCancelled)"
| "turn_state_permits TurnProviderStarted next =
     (next = TurnCompleted \<or> next = TurnFailed \<or> next = TurnInterruptedNeedsReview)"
| "turn_state_permits _ next = False"

section \<open>Credential lineage\<close>

definition validate_credential_binding_id :: "rstr \<Rightarrow> conversation_turn_error + unit" where
  "validate_credential_binding_id value =
     fail_if (value = [] \<or> max_credential_binding_id_bytes < str_len value \<or>
              \<not> list_all (\<lambda>b. byte_is_ascii_alphanumeric b \<or> b = 45 \<or> b = 95 \<or> b = 46 \<or> b = 58)
                  (str_bytes value))
       (TurnInvalidField ''credential_binding_id'')"

definition turn_lineage_original_on ::
  "chat_rail \<Rightarrow> rstr \<Rightarrow> conversation_turn_error + conversation_turn_lineage" where
  "turn_lineage_original_on rail binding =
     and_then (validate_credential_binding_id binding) (\<lambda>_.
     Inr \<lparr>cl_origin = TurnOriginal, cl_credential_binding_id = Some binding, cl_rail = rail,
          cl_retry_depth = 0\<rparr>)"

definition turn_lineage_original :: "rstr \<Rightarrow> conversation_turn_error + conversation_turn_lineage" where
  "turn_lineage_original binding = turn_lineage_original_on XaiApiKey binding"

definition turn_lineage_retry_on ::
  "conversation_turn_id \<Rightarrow> chat_rail \<Rightarrow> rstr \<Rightarrow> u8 \<Rightarrow>
   conversation_turn_error + conversation_turn_lineage" where
  "turn_lineage_retry_on src rail binding source_retry_depth =
     and_then (validate_credential_binding_id binding) (\<lambda>_.
     and_then (ok_or (Option.bind (checked_add source_retry_depth 1)
                        (\<lambda>depth. if depth \<le> 64 then Some depth else None))
       (TurnInvalidField ''retry_depth'')) (\<lambda>retry_depth.
     Inr \<lparr>cl_origin = TurnRetry src, cl_credential_binding_id = Some binding, cl_rail = rail,
          cl_retry_depth = retry_depth\<rparr>))"

definition turn_lineage_retry ::
  "conversation_turn_id \<Rightarrow> rstr \<Rightarrow> u8 \<Rightarrow> conversation_turn_error + conversation_turn_lineage" where
  "turn_lineage_retry src binding source_retry_depth =
     turn_lineage_retry_on src XaiApiKey binding source_retry_depth"

definition turn_lineage_edit_and_branch_on ::
  "conversation_turn_id \<Rightarrow> chat_rail \<Rightarrow> rstr \<Rightarrow> conversation_turn_error + conversation_turn_lineage" where
  "turn_lineage_edit_and_branch_on src rail binding =
     and_then (validate_credential_binding_id binding) (\<lambda>_.
     Inr \<lparr>cl_origin = TurnEditAndBranch src, cl_credential_binding_id = Some binding,
          cl_rail = rail, cl_retry_depth = 0\<rparr>)"

definition turn_lineage_edit_and_branch ::
  "conversation_turn_id \<Rightarrow> rstr \<Rightarrow> conversation_turn_error + conversation_turn_lineage" where
  "turn_lineage_edit_and_branch src binding = turn_lineage_edit_and_branch_on src XaiApiKey binding"

definition turn_lineage_regenerate_on ::
  "conversation_turn_id \<Rightarrow> chat_rail \<Rightarrow> rstr \<Rightarrow> conversation_turn_error + conversation_turn_lineage" where
  "turn_lineage_regenerate_on src rail binding =
     and_then (validate_credential_binding_id binding) (\<lambda>_.
     Inr \<lparr>cl_origin = TurnRegenerate src, cl_credential_binding_id = Some binding,
          cl_rail = rail, cl_retry_depth = 0\<rparr>)"

definition turn_lineage_regenerate ::
  "conversation_turn_id \<Rightarrow> rstr \<Rightarrow> conversation_turn_error + conversation_turn_lineage" where
  "turn_lineage_regenerate src binding = turn_lineage_regenerate_on src XaiApiKey binding"

definition turn_lineage_restore ::
  "conversation_turn_lineage \<Rightarrow> conversation_turn_id \<Rightarrow>
   conversation_turn_error + conversation_turn_lineage" where
  "turn_lineage_restore l owner =
     and_then (case cl_credential_binding_id l of
                 None \<Rightarrow> Inr () | Some binding \<Rightarrow> validate_credential_binding_id binding) (\<lambda>_.
     and_then (fail_if
         (\<not> (case cl_origin l of
               TurnOriginal \<Rightarrow> cl_retry_depth l = 0
             | TurnRetry src \<Rightarrow>
                 src \<noteq> owner \<and> cl_credential_binding_id l \<noteq> None \<and>
                 1 \<le> cl_retry_depth l \<and> cl_retry_depth l \<le> 64
             | TurnEditAndBranch src \<Rightarrow>
                 src \<noteq> owner \<and> cl_credential_binding_id l \<noteq> None \<and> cl_retry_depth l = 0
             | TurnRegenerate src \<Rightarrow>
                 src \<noteq> owner \<and> cl_credential_binding_id l \<noteq> None \<and> cl_retry_depth l = 0))
       (TurnInvalidField ''lineage'')) (\<lambda>_.
     Inr l))"

section \<open>The turn\<close>

datatype conversation_failure_kind =
  FailureAuthentication | FailureForbidden | FailureInvalidRequest | FailureRateLimited |
  FailureUnavailable | FailureProtocol

record conversation_failure =
  cf_kind :: conversation_failure_kind
  cf_message :: rstr
  cf_retryable :: bool

record conversation_citation =
  cc_title :: "rstr option"
  cc_url :: rstr

record conversation_usage =
  cu_input_tokens :: u64
  cu_output_tokens :: u64
  cu_cost_in_usd_ticks :: u64

definition usage_default :: conversation_usage where
  "usage_default = \<lparr>cu_input_tokens = 0, cu_output_tokens = 0, cu_cost_in_usd_ticks = 0\<rparr>"

text \<open>What the code reads of a parsed URL; \<open>url_parse\<close> returns \<open>None\<close> on a parse error.\<close>

record parsed_url =
  url_scheme :: rstr
  url_host_str :: "rstr option"
  url_username :: rstr
  url_password :: "rstr option"

type_synonym url_parse = "rstr \<Rightarrow> parsed_url option"

definition validate_turn_text :: "rstr \<Rightarrow> nat \<Rightarrow> string \<Rightarrow> conversation_turn_error + unit" where
  "validate_turn_text value maximum field =
     fail_if (value = [] \<or> maximum < str_len value \<or> str_trim value \<noteq> value \<or>
              list_ex char_is_control value)
       (TurnInvalidField field)"

definition validate_failure :: "conversation_failure \<Rightarrow> conversation_turn_error + unit" where
  "validate_failure failure =
     validate_turn_text (cf_message failure) max_failure_message_bytes ''failure.message''"

definition validate_response_id :: "rstr option \<Rightarrow> conversation_turn_error + unit" where
  "validate_response_id value =
     (case value of
        None \<Rightarrow> Inr ()
      | Some v \<Rightarrow> validate_turn_text v max_provider_response_id_bytes ''provider_response_id'')"

definition is_credential_free_https_url :: "url_parse \<Rightarrow> rstr \<Rightarrow> bool" where
  "is_credential_free_https_url url value =
     (if max_citation_url_bytes < str_len value \<or> \<not> str_starts_with value (lit ''https://'') \<or>
         64 \<in> set value \<or> list_ex (\<lambda>c. char_is_control c \<or> char_is_whitespace c) value
      then False
      else (case url value of
              None \<Rightarrow> False
            | Some u \<Rightarrow>
                url_scheme u = lit ''https'' \<and>
                (case url_host_str u of None \<Rightarrow> False | Some host \<Rightarrow> host \<noteq> []) \<and>
                url_username u = [] \<and> url_password u = None))"

fun validate_citations_from ::
  "url_parse \<Rightarrow> nat \<Rightarrow> conversation_citation list \<Rightarrow> conversation_turn_error + unit" where
  "validate_citations_from url total_bytes [] = Inr ()"
| "validate_citations_from url total_bytes (c # cs) =
     and_then (fail_if (\<not> is_credential_free_https_url url (cc_url c))
       (TurnInvalidField ''citation.url'')) (\<lambda>_.
     and_then (fail_if (case cc_title c of
                          None \<Rightarrow> False
                        | Some title \<Rightarrow> title = [] \<or> max_citation_title_bytes < str_len title \<or>
                                       list_ex char_is_control title)
       (TurnInvalidField ''citation.title'')) (\<lambda>_.
     and_then (ok_or (Option.bind (usize_checked_add total_bytes (str_len (cc_url c)))
                        (\<lambda>total. case cc_title c of
                                   None \<Rightarrow> Some total
                                 | Some title \<Rightarrow> usize_checked_add total (str_len title)))
       (TurnInvalidField ''citations'')) (\<lambda>total_bytes.
     and_then (fail_if (max_conversation_citation_total_bytes < total_bytes)
       (TurnInvalidField ''citations'')) (\<lambda>_.
     validate_citations_from url total_bytes cs))))"

definition validate_citations ::
  "url_parse \<Rightarrow> conversation_citation list \<Rightarrow> conversation_turn_error + unit" where
  "validate_citations url values =
     and_then (fail_if (max_citations < length values) (TurnInvalidField ''citations'')) (\<lambda>_.
     validate_citations_from url 0 values)"

definition validate_usage :: "conversation_usage \<Rightarrow> conversation_turn_error + unit" where
  "validate_usage usage =
     fail_if (max_conversation_usage_value < cu_input_tokens usage \<or>
              max_conversation_usage_value < cu_output_tokens usage \<or>
              max_conversation_usage_value < cu_cost_in_usd_ticks usage)
       (TurnInvalidField ''usage'')"

record conversation_turn =
  ct_id :: conversation_turn_id
  ct_idempotency_key :: rstr
  ct_request_fingerprint :: "u8 list"
  ct_provider_request_fingerprint :: "u8 list option"
  ct_project_id :: project_id
  ct_thread_id :: thread_id
  ct_user_message_id :: message_id
  ct_run_id :: run_id
  ct_model_id :: rstr
  ct_search_enabled :: bool
  ct_state :: conversation_turn_state
  ct_effect_id :: "effect_id option"
  ct_assistant_message_id :: "message_id option"
  ct_failure :: "conversation_failure option"
  ct_provider_response_id :: "rstr option"
  ct_citations :: "conversation_citation list"
  ct_usage :: conversation_usage
  ct_zero_data_retention :: "bool option"
  ct_revision :: u64
  ct_created_at :: unix_millis
  ct_updated_at :: unix_millis

definition turn_reserve ::
  "conversation_turn_id \<Rightarrow> rstr \<Rightarrow> u8 list \<Rightarrow> project_id \<Rightarrow> thread_id \<Rightarrow> message_id \<Rightarrow> run_id \<Rightarrow>
   rstr \<Rightarrow> bool \<Rightarrow> unix_millis \<Rightarrow> conversation_turn_error + conversation_turn" where
  "turn_reserve i key fingerprint pid tid user_message rid model_id search_enabled now =
     and_then (validate_turn_text key turn_max_idempotency_key_bytes ''idempotency_key'') (\<lambda>_.
     and_then (validate_turn_text model_id max_model_id_bytes ''model_id'') (\<lambda>_.
     Inr \<lparr>ct_id = i, ct_idempotency_key = key, ct_request_fingerprint = fingerprint,
          ct_provider_request_fingerprint = None, ct_project_id = pid, ct_thread_id = tid,
          ct_user_message_id = user_message, ct_run_id = rid, ct_model_id = model_id,
          ct_search_enabled = search_enabled, ct_state = TurnReserved, ct_effect_id = None,
          ct_assistant_message_id = None, ct_failure = None, ct_provider_response_id = None,
          ct_citations = [], ct_usage = usage_default, ct_zero_data_retention = None,
          ct_revision = 0, ct_created_at = now, ct_updated_at = now\<rparr>))"

definition turn_move_to ::
  "conversation_turn \<Rightarrow> conversation_turn_state \<Rightarrow> unix_millis \<Rightarrow>
   conversation_turn_error + conversation_turn" where
  "turn_move_to t next now =
     and_then (fail_if (\<not> turn_state_permits (ct_state t) next)
       (TurnInvalidTransition (ct_state t) next)) (\<lambda>_.
     and_then (fail_if (now < ct_updated_at t) TurnClockRegression) (\<lambda>_.
     and_then (ok_or (checked_add (ct_revision t) 1) TurnRevisionExhausted) (\<lambda>revision.
     Inr (t\<lparr>ct_revision := revision, ct_state := next, ct_updated_at := now\<rparr>))))"

definition turn_start_provider ::
  "conversation_turn \<Rightarrow> effect_id \<Rightarrow> u8 list \<Rightarrow> unix_millis \<Rightarrow>
   conversation_turn_error + conversation_turn" where
  "turn_start_provider t eid fingerprint now =
     and_then (turn_move_to t TurnProviderStarted now) (\<lambda>t.
     Inr (t\<lparr>ct_effect_id := Some eid, ct_provider_request_fingerprint := Some fingerprint\<rparr>))"

definition turn_complete ::
  "url_parse \<Rightarrow> conversation_turn \<Rightarrow> message_id \<Rightarrow> rstr option \<Rightarrow> conversation_citation list \<Rightarrow>
   conversation_usage \<Rightarrow> bool option \<Rightarrow> unix_millis \<Rightarrow> conversation_turn_error + conversation_turn" where
  "turn_complete url t assistant response_id citations usage zdr now =
     and_then (validate_response_id response_id) (\<lambda>_.
     and_then (validate_citations url citations) (\<lambda>_.
     and_then (validate_usage usage) (\<lambda>_.
     and_then (turn_move_to t TurnCompleted now) (\<lambda>t.
     Inr (t\<lparr>ct_assistant_message_id := Some assistant, ct_provider_response_id := response_id,
            ct_citations := citations, ct_usage := usage, ct_zero_data_retention := zdr\<rparr>)))))"

definition turn_fail ::
  "conversation_turn \<Rightarrow> conversation_failure \<Rightarrow> unix_millis \<Rightarrow>
   conversation_turn_error + conversation_turn" where
  "turn_fail t failure now =
     and_then (validate_failure failure) (\<lambda>_.
     and_then (turn_move_to t TurnFailed now) (\<lambda>t.
     Inr (t\<lparr>ct_failure := Some failure\<rparr>)))"

definition turn_cancel ::
  "conversation_turn \<Rightarrow> unix_millis \<Rightarrow> conversation_turn_error + conversation_turn" where
  "turn_cancel t now = turn_move_to t TurnCancelled now"

definition turn_interrupt ::
  "conversation_turn \<Rightarrow> unix_millis \<Rightarrow> conversation_turn_error + conversation_turn" where
  "turn_interrupt t now = turn_move_to t TurnInterruptedNeedsReview now"

definition turn_dispatch_absent :: "conversation_turn \<Rightarrow> bool" where
  "turn_dispatch_absent t \<longleftrightarrow> ct_provider_request_fingerprint t = None \<and> ct_effect_id t = None"

definition turn_dispatch_present :: "conversation_turn \<Rightarrow> bool" where
  "turn_dispatch_present t \<longleftrightarrow> ct_provider_request_fingerprint t \<noteq> None \<and> ct_effect_id t \<noteq> None"

definition turn_outcome_absent :: "conversation_turn \<Rightarrow> bool" where
  "turn_outcome_absent t \<longleftrightarrow>
     ct_assistant_message_id t = None \<and> ct_failure t = None \<and> ct_provider_response_id t = None \<and>
     ct_citations t = [] \<and> ct_usage t = usage_default \<and> ct_zero_data_retention t = None"

definition turn_is_reachable :: "conversation_turn \<Rightarrow> bool" where
  "turn_is_reachable t =
     (if ct_updated_at t < ct_created_at t then False
      else (case ct_state t of
              TurnReserved \<Rightarrow>
                ct_revision t = 0 \<and> ct_updated_at t = ct_created_at t \<and>
                turn_dispatch_absent t \<and> turn_outcome_absent t
            | TurnProviderStarted \<Rightarrow>
                ct_revision t = 1 \<and> turn_dispatch_present t \<and> turn_outcome_absent t
            | TurnCompleted \<Rightarrow>
                ct_revision t = 2 \<and> turn_dispatch_present t \<and>
                ct_assistant_message_id t \<noteq> None \<and> ct_failure t = None
            | TurnFailed \<Rightarrow>
                ct_revision t = 2 \<and> turn_dispatch_present t \<and> ct_assistant_message_id t = None \<and>
                ct_failure t \<noteq> None \<and> ct_provider_response_id t = None \<and> ct_citations t = [] \<and>
                ct_usage t = usage_default \<and> ct_zero_data_retention t = None
            | TurnCancelled \<Rightarrow>
                ct_revision t = 1 \<and> turn_dispatch_absent t \<and> turn_outcome_absent t
            | TurnInterruptedNeedsReview \<Rightarrow>
                ct_revision t = 2 \<and> turn_dispatch_present t \<and> turn_outcome_absent t))"

definition turn_restore ::
  "url_parse \<Rightarrow> conversation_turn \<Rightarrow> conversation_turn_error + conversation_turn" where
  "turn_restore url t =
     and_then (validate_turn_text (ct_idempotency_key t) turn_max_idempotency_key_bytes
       ''idempotency_key'') (\<lambda>_.
     and_then (validate_turn_text (ct_model_id t) max_model_id_bytes ''model_id'') (\<lambda>_.
     and_then (validate_response_id (ct_provider_response_id t)) (\<lambda>_.
     and_then (validate_citations url (ct_citations t)) (\<lambda>_.
     and_then (validate_usage (ct_usage t)) (\<lambda>_.
     and_then (case ct_failure t of None \<Rightarrow> Inr () | Some failure \<Rightarrow> validate_failure failure) (\<lambda>_.
     and_then (fail_if (\<not> turn_is_reachable t) (TurnInvalidField ''persisted_state'')) (\<lambda>_.
     Inr t)))))))"

section \<open>Histories of a turn\<close>

datatype turn_op =
    OpStartProvider effect_id "u8 list"
  | OpComplete message_id "rstr option" "conversation_citation list" conversation_usage "bool option"
  | OpFail conversation_failure
  | OpCancel
  | OpInterruptTurn

fun turn_apply ::
  "url_parse \<Rightarrow> turn_op \<Rightarrow> conversation_turn \<Rightarrow> unix_millis \<Rightarrow>
   conversation_turn_error + conversation_turn" where
  "turn_apply url (OpStartProvider eid fp) t now = turn_start_provider t eid fp now"
| "turn_apply url (OpComplete m r c u z) t now = turn_complete url t m r c u z now"
| "turn_apply url (OpFail f) t now = turn_fail t f now"
| "turn_apply url OpCancel t now = turn_cancel t now"
| "turn_apply url OpInterruptTurn t now = turn_interrupt t now"

fun is_start_provider :: "turn_op \<Rightarrow> bool" where
  "is_start_provider (OpStartProvider _ _) = True"
| "is_start_provider _ = False"

inductive turn_fresh :: "conversation_turn \<Rightarrow> bool" where
  reserve: "turn_reserve i key fp pid tid um rid model search now = Inr t \<Longrightarrow> turn_fresh t"

inductive turn_step :: "url_parse \<Rightarrow> conversation_turn \<Rightarrow> conversation_turn \<Rightarrow> bool"
  for url where
  apply_op: "turn_apply url op t now = Inr t' \<Longrightarrow> turn_step url t t'"

inductive_cases turn_stepE: "turn_step url t t'"

definition turn_frame ::
  "conversation_turn \<Rightarrow> conversation_turn_id \<times> rstr \<times> u8 list \<times> project_id \<times> thread_id \<times>
     message_id \<times> run_id \<times> rstr \<times> bool \<times> unix_millis" where
  "turn_frame t = (ct_id t, ct_idempotency_key t, ct_request_fingerprint t, ct_project_id t,
     ct_thread_id t, ct_user_message_id t, ct_run_id t, ct_model_id t, ct_search_enabled t,
     ct_created_at t)"

lemmas turn_ops = turn_start_provider_def turn_complete_def turn_fail_def turn_cancel_def
  turn_interrupt_def

lemma turn_move_to_Inr [result_simps]:
  "turn_move_to t next now = Inr t' \<longleftrightarrow>
     turn_state_permits (ct_state t) next \<and> ct_updated_at t \<le> now \<and> ct_revision t \<noteq> - 1 \<and>
     t' = t\<lparr>ct_revision := ct_revision t + 1, ct_state := next, ct_updated_at := now\<rparr>"
  by (auto simp: turn_move_to_def result_simps checked_add_one split: if_splits)

interpretation turn_life: lifecycle "turn_step url" ct_revision ct_updated_at turn_frame
    ct_state turn_state_permits turn_state_is_terminal for url
proof unfold_locales
  fix s t
  assume "turn_state_is_terminal s"
  then show "\<not> turn_state_permits s t" by (cases s) simp_all
next
  fix t t'
  assume "turn_step url t t'"
  then obtain op now where op: "turn_apply url op t now = Inr t'" by (rule turn_stepE)
  show "turn_state_permits (ct_state t) (ct_state t')"
    using op by (cases op) (auto simp: turn_ops result_simps)
  show "ct_revision t' = sat_succ (ct_revision t)"
    using op by (cases op) (auto simp: turn_ops result_simps sat_succ_eq)
  show "ct_updated_at t \<le> ct_updated_at t'"
    using op by (cases op) (auto simp: turn_ops result_simps)
  show "turn_frame t' = turn_frame t"
    using op by (cases op) (auto simp: turn_ops result_simps turn_frame_def)
qed

text \<open>What \<open>turn_restore\<close> requires, as a predicate; the bounds of the metadata are one group.\<close>

definition turn_metadata_ok :: "url_parse \<Rightarrow> conversation_turn \<Rightarrow> bool" where
  "turn_metadata_ok url t \<longleftrightarrow>
     is_ok (validate_turn_text (ct_idempotency_key t) turn_max_idempotency_key_bytes ''idempotency_key'') \<and>
     is_ok (validate_turn_text (ct_model_id t) max_model_id_bytes ''model_id'') \<and>
     is_ok (validate_response_id (ct_provider_response_id t)) \<and>
     is_ok (validate_citations url (ct_citations t)) \<and>
     is_ok (validate_usage (ct_usage t)) \<and>
     (case ct_failure t of None \<Rightarrow> True | Some failure \<Rightarrow> is_ok (validate_failure failure))"

lemma turn_restore_ok: "is_ok (turn_restore url t) \<longleftrightarrow> turn_metadata_ok url t \<and> turn_is_reachable t"
  by (auto simp: turn_restore_def turn_metadata_ok_def is_ok_and_then is_ok_unit fail_if_Inr
        split: option.splits)

lemma default_metadata_ok [simp]:
  "is_ok (validate_usage usage_default)" "is_ok (validate_citations url [])"
  "is_ok (validate_response_id None)"
  by (simp_all add: validate_usage_def usage_default_def validate_citations_def
        validate_response_id_def)

lemmas turn_shape = turn_is_reachable_def turn_dispatch_absent_def turn_dispatch_present_def
  turn_outcome_absent_def

lemma turn_permits_cases:
  assumes "turn_state_permits s next"
  obtains "s = TurnReserved" "next = TurnProviderStarted" | "s = TurnReserved" "next = TurnCancelled"
  | "s = TurnProviderStarted" "next = TurnCompleted" | "s = TurnProviderStarted" "next = TurnFailed"
  | "s = TurnProviderStarted" "next = TurnInterruptedNeedsReview"
  using assms by (cases s) auto

lemma turn_apply_accepted:
  assumes ok: "turn_metadata_ok url t \<and> turn_is_reachable t" and op: "turn_apply url op t now = Inr t'"
  shows "turn_metadata_ok url t' \<and> turn_is_reachable t'"
proof -
  have "turn_step url t t'" using op by (rule turn_step.apply_op)
  then have permits: "turn_state_permits (ct_state t) (ct_state t')"
    and time: "ct_updated_at t \<le> ct_updated_at t'"
    by (rule turn_life.step_permits, rule turn_life.step_updated_at)
  from ok have "ct_created_at t \<le> ct_updated_at t"
    by (simp add: turn_is_reachable_def split: if_splits)
  then have time': "ct_created_at t \<le> ct_updated_at t'" using time by (rule order_trans)
  show ?thesis
    using op ok time'
    by (cases op) (auto simp: turn_ops result_simps turn_metadata_ok_def turn_shape split: if_splits
          elim: turn_permits_cases)
qed

interpretation turn_rest: restorable turn_fresh "turn_step url"
    "\<lambda>t. turn_metadata_ok url t \<and> turn_is_reachable t" for url
proof unfold_locales
  fix t
  assume "turn_fresh t"
  then show "turn_metadata_ok url t \<and> turn_is_reachable t"
    by cases (auto simp: turn_reserve_def result_simps turn_metadata_ok_def turn_shape)
qed (erule turn_stepE, rule turn_apply_accepted)

text \<open>The history of an accepted row: the reservation it started from and the row after dispatch.\<close>

definition turn_reserved_of :: "conversation_turn \<Rightarrow> conversation_turn" where
  "turn_reserved_of t = t\<lparr>ct_provider_request_fingerprint := None, ct_state := TurnReserved,
     ct_effect_id := None, ct_assistant_message_id := None, ct_failure := None,
     ct_provider_response_id := None, ct_citations := [], ct_usage := usage_default,
     ct_zero_data_retention := None, ct_revision := 0, ct_updated_at := ct_created_at t\<rparr>"

definition turn_started_of :: "conversation_turn \<Rightarrow> conversation_turn" where
  "turn_started_of t = (turn_reserved_of t)\<lparr>ct_state := TurnProviderStarted, ct_revision := 1,
     ct_provider_request_fingerprint := ct_provider_request_fingerprint t,
     ct_effect_id := ct_effect_id t, ct_updated_at := ct_updated_at t\<rparr>"

lemma turn_reserved_of_fresh: "turn_metadata_ok url t \<Longrightarrow> turn_fresh (turn_reserved_of t)"
  by (rule turn_fresh.reserve [of "ct_id t" "ct_idempotency_key t" "ct_request_fingerprint t"
        "ct_project_id t" "ct_thread_id t" "ct_user_message_id t" "ct_run_id t" "ct_model_id t"
        "ct_search_enabled t" "ct_created_at t"])
     (cases t, auto simp: turn_reserve_def turn_metadata_ok_def turn_reserved_of_def is_ok_unit)

lemma turn_started_of_step:
  assumes "turn_is_reachable t" and "turn_dispatch_present t"
  shows "turn_step url (turn_reserved_of t) (turn_started_of t)"
proof -
  from assms obtain eid fp where d: "ct_effect_id t = Some eid"
    "ct_provider_request_fingerprint t = Some fp" "ct_created_at t \<le> ct_updated_at t"
    by (auto simp: turn_dispatch_present_def turn_is_reachable_def split: if_splits)
  then have "turn_apply url (OpStartProvider eid fp) (turn_reserved_of t) (ct_updated_at t) =
      Inr (turn_started_of t)"
    by (simp add: turn_start_provider_def result_simps turn_reserved_of_def turn_started_of_def)
  then show ?thesis by (rule turn_step.apply_op)
qed

lemma turn_cancel_step:
  assumes "ct_state t = TurnCancelled" and "turn_is_reachable t"
  shows "turn_step url (turn_reserved_of t) t"
proof -
  have "turn_apply url OpCancel (turn_reserved_of t) (ct_updated_at t) = Inr t"
    using assms by (cases t) (auto simp: turn_cancel_def result_simps turn_reserved_of_def turn_shape
        split: if_splits)
  then show ?thesis by (rule turn_step.apply_op)
qed

lemma turn_outcome_step:
  assumes "turn_metadata_ok url t" and "turn_is_reachable t"
    and "ct_state t \<in> {TurnCompleted, TurnFailed, TurnInterruptedNeedsReview}"
  shows "turn_step url (turn_started_of t) t"
proof -
  let ?op = "case ct_state t of
      TurnCompleted \<Rightarrow> OpComplete (the (ct_assistant_message_id t)) (ct_provider_response_id t)
        (ct_citations t) (ct_usage t) (ct_zero_data_retention t)
    | TurnFailed \<Rightarrow> OpFail (the (ct_failure t))
    | _ \<Rightarrow> OpInterruptTurn"
  have "turn_apply url ?op (turn_started_of t) (ct_updated_at t) = Inr t"
    using assms
    by (cases t) (auto simp: turn_ops result_simps turn_reserved_of_def turn_started_of_def
          turn_shape turn_metadata_ok_def is_ok_unit split: if_splits)
  then show ?thesis by (rule turn_step.apply_op)
qed

lemma turn_history:
  assumes "turn_metadata_ok url t" and "turn_is_reachable t"
  shows "(turn_step url)\<^sup>*\<^sup>* (turn_reserved_of t) t"
proof (cases "ct_state t = TurnReserved \<or> ct_state t = TurnCancelled")
  case True
  have "turn_reserved_of t = t" if "ct_state t = TurnReserved"
    using assms(2) that by (cases t) (auto simp: turn_reserved_of_def turn_shape split: if_splits)
  then show ?thesis using True turn_cancel_step [OF _ assms(2)] by auto
next
  case False
  with assms(2) have "turn_dispatch_present t"
    by (cases "ct_state t") (auto simp: turn_is_reachable_def split: if_splits)
  note start = turn_started_of_step [OF assms(2) this, of url]
  show ?thesis
  proof (cases "ct_state t = TurnProviderStarted")
    case True
    then have "turn_started_of t = t"
      using assms(2) by (cases t) (auto simp: turn_reserved_of_def turn_started_of_def turn_shape
          split: if_splits)
    with start show ?thesis by simp
  next
    case neq: False
    then have "ct_state t \<in> {TurnCompleted, TurnFailed, TurnInterruptedNeedsReview}"
      using False by (cases "ct_state t") simp_all
    from turn_outcome_step [OF assms this] start show ?thesis
      by (meson r_into_rtranclp rtranclp.rtrancl_into_rtrancl)
  qed
qed

text \<open>C27. A persisted conversation turn is accepted by \<open>restore\<close> exactly when some history of the
  aggregate's own operations (a reservation, then start, completion, failure, cancellation or
  interruption at non-decreasing times) produces it, whatever the URL parser accepts; a row that
  no history produces is rejected, so a cancelled or uncertain request cannot be made replayable
  by editing the row.\<close>

theorem turn_restore_exact:
  "is_ok (turn_restore url t) \<longleftrightarrow> (\<exists>t0. turn_fresh t0 \<and> (turn_step url)\<^sup>*\<^sup>* t0 t)"
  using turn_history [of url t] turn_reserved_of_fresh [of url t]
    turn_rest.reachable_accepted [of _ url t]
  by (auto simp: turn_restore_ok)

interpretation turn_dispatch: one_shot "turn_apply url" is_start_provider
    "\<lambda>t. ct_state t \<noteq> TurnReserved" for url
proof unfold_locales
  fix op t now t'
  assume op: "turn_apply url op t now = Inr t'"
  then have permits: "turn_state_permits (ct_state t) (ct_state t')"
    using turn_life.step_permits [OF turn_step.apply_op] by blast
  then show after: "ct_state t' \<noteq> TurnReserved" by (cases "ct_state t") auto
  assume "is_start_provider op"
  with op have "ct_state t = TurnReserved"
    by (cases op) (auto simp: turn_ops result_simps elim: turn_permits_cases)
  with after show "\<not> ct_state t \<noteq> TurnReserved \<and> ct_state t' \<noteq> TurnReserved" by simp
qed

text \<open>A conversation turn is sent to the provider at most once: over any sequence of operation
  calls on a turn, at any times, at most one \<open>start_provider\<close> succeeds.\<close>

theorem turn_started_at_most_once:
  "length (filter is_start_provider (snd (call_all (turn_apply url) t calls))) \<le> 1"
  by (rule turn_dispatch.critical_at_most_once)

section \<open>Retry chains\<close>

text \<open>\<open>retry_chain n\<close> requests \<open>n\<close> retries in a row, each from the lineage of the previous one.\<close>

fun retry_chain ::
  "nat \<Rightarrow> (nat \<Rightarrow> conversation_turn_id) \<Rightarrow> chat_rail \<Rightarrow> rstr \<Rightarrow>
   conversation_turn_error + conversation_turn_lineage" where
  "retry_chain 0 src rail binding = turn_lineage_original_on rail binding"
| "retry_chain (Suc n) src rail binding =
     and_then (retry_chain n src rail binding) (\<lambda>l.
     turn_lineage_retry_on (src n) (cl_rail l) binding (cl_retry_depth l))"

lemma retry_chain_Inr:
  assumes "validate_credential_binding_id binding = Inr ()" and "n \<le> 64"
  shows "retry_chain n src rail binding =
    Inr \<lparr>cl_origin = (if n = 0 then TurnOriginal else TurnRetry (src (n - 1))),
         cl_credential_binding_id = Some binding, cl_rail = rail, cl_retry_depth = of_nat n\<rparr>"
  using assms(2)
proof (induction n)
  case 0
  with assms(1) show ?case by (simp add: turn_lineage_original_on_def)
next
  case (Suc n)
  have "unat (of_nat n :: u8) = n" using Suc.prems by (simp add: unat_of_nat)
  then have "checked_add (of_nat n :: u8) 1 = Some (of_nat (Suc n))"
    using Suc.prems by (simp add: checked_add_def)
  moreover have "(of_nat (Suc n) :: u8) \<le> 64"
    using Suc.prems by (simp only: word_le_nat_alt unat_of_nat) simp
  ultimately show ?case using Suc assms(1) by (simp add: turn_lineage_retry_on_def)
qed

lemma retry_chain_Inl:
  assumes "validate_credential_binding_id binding = Inr ()" and "64 < n"
  shows "retry_chain n src rail binding = Inl (TurnInvalidField ''retry_depth'')"
  using assms(2)
proof (induction n)
  case (Suc n)
  show ?case
  proof (cases "n = 64")
    case True
    have "retry_chain n src rail binding =
        Inr \<lparr>cl_origin = TurnRetry (src 63), cl_credential_binding_id = Some binding,
          cl_rail = rail, cl_retry_depth = 64\<rparr>"
      using retry_chain_Inr [OF assms(1), of 64 src rail] True by simp
    then show ?thesis
      unfolding retry_chain.simps(2) using assms(1)
      by (simp add: turn_lineage_retry_on_def checked_add_def word_le_nat_alt)
  next
    case False
    with Suc show ?thesis by simp
  qed
qed simp

text \<open>C31. A chain of retries keeps the credential rail, records its length as the retry depth and is
  accepted by \<open>restore\<close> for an owner other than its sources; the sixty-fifth retry in a row and
  every later one is refused.\<close>

theorem retry_chain_bounded:
  assumes "validate_credential_binding_id binding = Inr ()" and "owner \<notin> range src"
  shows "case retry_chain n src rail binding of
      Inl e \<Rightarrow> 64 < n \<and> e = TurnInvalidField ''retry_depth''
    | Inr l \<Rightarrow> n \<le> 64 \<and> cl_rail l = rail \<and> unat (cl_retry_depth l) = n \<and>
               turn_lineage_restore l owner = Inr l"
proof (cases "n \<le> 64")
  case True
  then have "unat (of_nat n :: u8) = n" by (simp add: unat_of_nat)
  moreover have "src k \<noteq> owner" for k using assms(2) by blast
  ultimately show ?thesis
    using retry_chain_Inr [OF assms(1) True, of src rail] assms(1) True
    by (simp add: turn_lineage_restore_def word_le_nat_alt)
next
  case False
  with retry_chain_Inl [OF assms(1), of n src rail] show ?thesis by simp
qed

theorem retry_chain_bounded_witness:
  "case retry_chain 3 (\<lambda>n. ConversationTurnId (nat_to_dec n)) SuperGrokApi (lit ''key-1'') of
      Inl e \<Rightarrow> 64 < (3 :: nat) \<and> e = TurnInvalidField ''retry_depth''
    | Inr l \<Rightarrow> (3 :: nat) \<le> 64 \<and> cl_rail l = SuperGrokApi \<and> unat (cl_retry_depth l) = 3 \<and>
        turn_lineage_restore l (ConversationTurnId (lit ''t'')) = Inr l"
proof (rule retry_chain_bounded)
  show "validate_credential_binding_id (lit ''key-1'') = Inr ()"
    by (simp add: validate_credential_binding_id_def str_len_def utf8_width_def str_bytes_def
          utf8_encode_def byte_is_ascii_alphanumeric_def max_credential_binding_id_bytes_def)
  show "ConversationTurnId (lit ''t'') \<notin> range (\<lambda>n. ConversationTurnId (nat_to_dec n))"
  proof
    assume "ConversationTurnId (lit ''t'') \<in> range (\<lambda>n. ConversationTurnId (nat_to_dec n))"
    then obtain n where "nat_to_dec n = [116]" by auto
    then show False using nat_to_dec_ascii [of 116 n] by simp
  qed
qed

end
