(* ===== verification/Application.thy ===== *)
theory Application
  imports Encodings Runs Approvals Effects Privileged Automations ConversationTurns
begin

text \<open>
  The shared layer of the application crate: \<open>ApplicationError\<close> and its conversions
  (\<open>error.rs\<close>), the store errors (\<open>ports.rs\<close>), and the idempotency command every mutation
  carries (\<open>mutations.rs\<close>). An error message built with \<open>to_string()\<close> is kept as the error value
  it renders. SHA-256 is a parameter of the definitions. Lemmas: the byte string that is hashed
  determines the operation and every input of the command.
\<close>

section \<open>Errors\<close>

datatype app_message =
    MsgText string
  | MsgId id_error
  | MsgTransition transition_error
  | MsgApproval approval_error
  | MsgEffect effect_transition_error
  | MsgPrivileged privileged_operation_error
  | MsgWorkspace workspace_error
  | MsgSchedule automation_schedule_error
  | MsgScheduler automation_scheduler_error
  | MsgTurn conversation_turn_error

datatype store_error = StoreNotFound | StoreConflict | StoreUnavailable app_message | StoreInternal app_message

datatype application_error =
    InvalidInput app_message
  | NotFound
  | Conflict
  | InvalidState app_message
  | Unavailable app_message
  | Integrity app_message
  | Unauthorized app_message
  | Storage app_message
  | DeadlineExceeded
  | AppCancelled

definition app_of_id :: "id_error \<Rightarrow> application_error" where
  "app_of_id e = InvalidInput (MsgId e)"

definition app_of_transition :: "transition_error \<Rightarrow> application_error" where
  "app_of_transition e = InvalidState (MsgTransition e)"

definition app_of_approval :: "approval_error \<Rightarrow> application_error" where
  "app_of_approval e = InvalidState (MsgApproval e)"

definition app_of_effect :: "effect_transition_error \<Rightarrow> application_error" where
  "app_of_effect e = InvalidState (MsgEffect e)"

fun app_of_privileged :: "privileged_operation_error \<Rightarrow> application_error" where
  "app_of_privileged (PoTargetKindMismatch a b) =
     InvalidInput (MsgPrivileged (PoTargetKindMismatch a b))"
| "app_of_privileged PoInvalidTarget = InvalidInput (MsgPrivileged PoInvalidTarget)"
| "app_of_privileged PoSelfSupersession = InvalidInput (MsgPrivileged PoSelfSupersession)"
| "app_of_privileged PoInvalidLinks = InvalidInput (MsgPrivileged PoInvalidLinks)"
| "app_of_privileged PoInvalidPersistedState = Integrity (MsgPrivileged PoInvalidPersistedState)"
| "app_of_privileged e = InvalidState (MsgPrivileged e)"

fun app_of_workspace :: "workspace_error \<Rightarrow> application_error" where
  "app_of_workspace (WsInvalidField f r) = InvalidInput (MsgWorkspace (WsInvalidField f r))"
| "app_of_workspace e = InvalidState (MsgWorkspace e)"

definition app_of_schedule :: "automation_schedule_error \<Rightarrow> application_error" where
  "app_of_schedule e = InvalidInput (MsgSchedule e)"

fun app_of_scheduler :: "automation_scheduler_error \<Rightarrow> application_error" where
  "app_of_scheduler (SchedSchedule e) = InvalidInput (MsgSchedule e)"
| "app_of_scheduler SchedInvalidExecutionText = InvalidInput (MsgScheduler SchedInvalidExecutionText)"
| "app_of_scheduler SchedInvalidDecision = InvalidInput (MsgScheduler SchedInvalidDecision)"
| "app_of_scheduler SchedInvalidLease = InvalidInput (MsgScheduler SchedInvalidLease)"
| "app_of_scheduler SchedInvalidPersistedState = Integrity (MsgScheduler SchedInvalidPersistedState)"
| "app_of_scheduler e = InvalidState (MsgScheduler e)"

fun app_of_turn :: "conversation_turn_error \<Rightarrow> application_error" where
  "app_of_turn (TurnInvalidField f) = InvalidInput (MsgTurn (TurnInvalidField f))"
| "app_of_turn e = InvalidState (MsgTurn e)"

fun app_of_store :: "store_error \<Rightarrow> application_error" where
  "app_of_store StoreNotFound = NotFound"
| "app_of_store StoreConflict = Conflict"
| "app_of_store (StoreUnavailable m) = Unavailable m"
| "app_of_store (StoreInternal m) = Storage m"

section \<open>Idempotency commands\<close>

record mutation_command =
  mc_scope :: rstr
  mc_key :: rstr
  mc_fingerprint :: "u8 list"

type_synonym hash = "u8 list \<Rightarrow> u8 list"

definition hash_part :: "u8 list \<Rightarrow> u8 list" where
  "hash_part value = u64_to_be_bytes (u64_of_usize (length value)) @ value"

definition command_preimage :: "rstr \<Rightarrow> u8 list list \<Rightarrow> u8 list" where
  "command_preimage scope parts = hash_part (str_bytes scope) @ concat (map hash_part parts)"

definition mutation_command_bytes ::
  "hash \<Rightarrow> rstr \<Rightarrow> rstr \<Rightarrow> u8 list list \<Rightarrow> application_error + mutation_command" where
  "mutation_command_bytes sha scope key parts =
     (if key = [] \<or> 128 < str_len key \<or> list_ex char_is_control key
      then Inl (InvalidInput (MsgText ''a bounded idempotency key is required''))
      else Inr \<lparr>mc_scope = scope, mc_key = key,
                mc_fingerprint = sha (command_preimage scope parts)\<rparr>)"

definition mutation_command_of ::
  "hash \<Rightarrow> rstr \<Rightarrow> rstr \<Rightarrow> rstr list \<Rightarrow> application_error + mutation_command" where
  "mutation_command_of sha scope key parts = mutation_command_bytes sha scope key (map str_bytes parts)"

section \<open>The hashed bytes determine the command\<close>

lemma hash_part_append:
  assumes "length a < 2 ^ 64" "length b < 2 ^ 64" "hash_part a @ xs = hash_part b @ ys"
  shows "a = b \<and> xs = ys"
proof -
  from assms(3) have "u64_to_be_bytes (u64_of_usize (length a)) = u64_to_be_bytes (u64_of_usize (length b))"
    and rest: "a @ xs = b @ ys"
    by (simp_all add: hash_part_def)
  then have "length a = length b"
    by (intro u64_of_usize_inj assms(1,2) u64_to_be_bytes_inj)
  with rest show ?thesis by simp
qed

lemma hash_part_neq_Nil: "hash_part a \<noteq> []"
  by (simp add: hash_part_def u64_to_be_bytes_def)

lemma hash_parts_inj:
  assumes "\<forall>p \<in> set ps. length p < 2 ^ 64" "\<forall>q \<in> set qs. length q < 2 ^ 64"
    and "concat (map hash_part ps) = concat (map hash_part qs)"
  shows "ps = qs"
  using assms
proof (induction ps arbitrary: qs)
  case Nil
  then show ?case by (cases qs) (simp_all add: hash_part_neq_Nil)
next
  case (Cons p ps)
  from Cons.prems(3) obtain q qs' where qs: "qs = q # qs'"
    by (cases qs) (simp_all add: hash_part_neq_Nil)
  have "p = q \<and> concat (map hash_part ps) = concat (map hash_part qs')"
    by (rule hash_part_append) (use Cons.prems qs in simp_all)
  with Cons.IH [of qs'] Cons.prems qs show ?case by simp
qed

lemma command_preimage_inj:
  assumes "str_len scope < 2 ^ 64" "str_len scope' < 2 ^ 64"
    and "\<forall>p \<in> set ps. length p < 2 ^ 64" "\<forall>q \<in> set qs. length q < 2 ^ 64"
    and "command_preimage scope ps = command_preimage scope' qs"
  shows "str_bytes scope = str_bytes scope' \<and> ps = qs"
proof -
  note lengths = assms(1,2) [unfolded str_len_bytes] and eq = assms(5) [unfolded command_preimage_def]
  from hash_part_append [OF lengths eq] have "str_bytes scope = str_bytes scope'"
    and "concat (map hash_part ps) = concat (map hash_part qs)" by (rule conjunct1, rule conjunct2)
  with hash_parts_inj [OF assms(3,4)] show ?thesis by (intro conjI)
qed

end
