(* ===== verification/ExecutionStore.thy ===== *)
theory ExecutionStore
  imports Programs Application "HOL-Library.Product_Lexorder"
begin

text \<open>
  The execution store: the port \<open>ExecutionStore\<close> (grok-application, \<open>ports.rs\<close>) as a record of
  operations over an abstract store, and its in-memory implementation (grok-memory,
  \<open>lib.rs\<close>). Every operation runs under the store's lock, so it is one function of the state; an
  operation that returns an error leaves the state as it was. Of the memory \<open>State\<close> the record
  \<open>exec_state\<close> holds the five maps these operations use.
\<close>

section \<open>The port\<close>

record new_run_event =
  ne_occurred_at :: unix_millis
  ne_kind :: run_event_kind

datatype execution_mutation_outcome = OutcomeRun run | OutcomeApproval approval

record 's execution_store =
  xs_resolve :: "'s \<Rightarrow> mutation_command \<Rightarrow> store_error + execution_mutation_outcome option"
  xs_create_run :: "'s \<Rightarrow> run \<Rightarrow> new_run_event \<Rightarrow> mutation_command \<Rightarrow> store_error + run \<times> 's"
  xs_get_run :: "'s \<Rightarrow> run_id \<Rightarrow> store_error + run"
  xs_save_run :: "'s \<Rightarrow> run \<Rightarrow> u64 \<Rightarrow> new_run_event \<Rightarrow> mutation_command \<Rightarrow> store_error + run \<times> 's"
  xs_create_approval ::
    "'s \<Rightarrow> approval \<Rightarrow> run \<Rightarrow> u64 \<Rightarrow> new_run_event list \<Rightarrow> mutation_command \<Rightarrow>
     store_error + approval \<times> 's"
  xs_get_approval :: "'s \<Rightarrow> approval_id \<Rightarrow> store_error + approval"
  xs_decide_approval ::
    "'s \<Rightarrow> approval \<Rightarrow> u64 \<Rightarrow> (run \<times> u64 \<times> new_run_event) option \<Rightarrow> mutation_command \<Rightarrow>
     store_error + approval \<times> 's"
  xs_create_effect :: "'s \<Rightarrow> side_effect \<Rightarrow> new_run_event \<Rightarrow> store_error + unit \<times> 's"
  xs_get_effect :: "'s \<Rightarrow> effect_id \<Rightarrow> store_error + side_effect"
  xs_save_effect :: "'s \<Rightarrow> side_effect \<Rightarrow> u64 \<Rightarrow> store_error + unit \<times> 's"
  xs_interrupt_effect ::
    "'s \<Rightarrow> side_effect \<Rightarrow> u64 \<Rightarrow> run \<Rightarrow> u64 \<Rightarrow> new_run_event list \<Rightarrow> store_error + unit \<times> 's"
  xs_list_recoverable_host_effects :: "'s \<Rightarrow> nat \<Rightarrow> store_error + side_effect list"
  xs_list_recoverable_host_runs :: "'s \<Rightarrow> nat \<Rightarrow> store_error + run list"
  xs_list_host_work_runs :: "'s \<Rightarrow> nat \<Rightarrow> thread_id option \<Rightarrow> store_error + run list"
  xs_pending_approval_for_run :: "'s \<Rightarrow> run_id \<Rightarrow> store_error + approval option"
  xs_events_since :: "'s \<Rightarrow> run_id \<Rightarrow> u64 \<Rightarrow> nat \<Rightarrow> store_error + run_event list"

section \<open>The in-memory implementation\<close>

record execution_command_record =
  ec_fingerprint :: "u8 list"
  ec_outcome :: execution_mutation_outcome

record exec_state =
  es_runs :: "(run_id, run) hmap"
  es_approvals :: "(approval_id, approval) hmap"
  es_effects :: "(effect_id, side_effect) hmap"
  es_events :: "(run_id, run_event list) hmap"
  es_commands :: "(rstr \<times> rstr, execution_command_record) hmap"

definition exec_empty :: exec_state where
  "exec_empty = \<lparr>es_runs = [], es_approvals = [], es_effects = [], es_events = [], es_commands = []\<rparr>"

definition push_event :: "run_id \<Rightarrow> run_event list \<Rightarrow> new_run_event \<Rightarrow> run_event list" where
  "push_event i stream event =
     stream @ [\<lparr>ev_sequence = saturating_add (u64_of_usize (length stream)) 1, ev_run_id = i,
                ev_occurred_at = ne_occurred_at event, ev_kind = ne_kind event\<rparr>]"

definition event_stream :: "exec_state \<Rightarrow> run_id \<Rightarrow> run_event list" where
  "event_stream s i = (case hm_get (es_events s) i of None \<Rightarrow> [] | Some es \<Rightarrow> es)"

definition append_events :: "exec_state \<Rightarrow> run_id \<Rightarrow> new_run_event list \<Rightarrow> exec_state" where
  "append_events s i events =
     s\<lparr>es_events := hm_insert i (foldl (push_event i) (event_stream s i) events) (es_events s)\<rparr>"

definition missing_idempotent_result :: store_error where
  "missing_idempotent_result = StoreInternal (MsgText ''idempotency result is missing'')"

definition prior_execution_command ::
  "exec_state \<Rightarrow> mutation_command \<Rightarrow> store_error + execution_mutation_outcome option" where
  "prior_execution_command s command =
     (case hm_get (es_commands s) (mc_scope command, mc_key command) of
        None \<Rightarrow> Inr None
      | Some rec \<Rightarrow>
          if ec_fingerprint rec = mc_fingerprint command then Inr (Some (ec_outcome rec))
          else Inl StoreConflict)"

definition record_execution_command ::
  "exec_state \<Rightarrow> mutation_command \<Rightarrow> execution_mutation_outcome \<Rightarrow> exec_state" where
  "record_execution_command s command outcome =
     s\<lparr>es_commands := hm_insert (mc_scope command, mc_key command)
          \<lparr>ec_fingerprint = mc_fingerprint command, ec_outcome = outcome\<rparr> (es_commands s)\<rparr>"

fun store_run_outcome :: "execution_mutation_outcome \<Rightarrow> store_error + run" where
  "store_run_outcome (OutcomeRun r) = Inr r"
| "store_run_outcome (OutcomeApproval _) = Inl missing_idempotent_result"

fun store_approval_outcome :: "execution_mutation_outcome \<Rightarrow> store_error + approval" where
  "store_approval_outcome (OutcomeApproval a) = Inr a"
| "store_approval_outcome (OutcomeRun _) = Inl missing_idempotent_result"

definition mem_create_run ::
  "exec_state \<Rightarrow> run \<Rightarrow> new_run_event \<Rightarrow> mutation_command \<Rightarrow> store_error + run \<times> exec_state" where
  "mem_create_run s run event command =
     and_then (prior_execution_command s command) (\<lambda>prior.
       case prior of
         Some outcome \<Rightarrow> map_ok (\<lambda>r. (r, s)) (store_run_outcome outcome)
       | None \<Rightarrow>
           and_then (fail_if (hm_contains (es_runs s) (run_id_of run)) StoreConflict) (\<lambda>_.
             let i = run_id_of run;
                 s = s\<lparr>es_runs := hm_insert i run (es_runs s)\<rparr>;
                 s = append_events s i [event];
                 s = record_execution_command s command (OutcomeRun run)
             in Inr (run, s)))"

definition mem_get_run :: "exec_state \<Rightarrow> run_id \<Rightarrow> store_error + run" where
  "mem_get_run s i = ok_or (hm_get (es_runs s) i) StoreNotFound"

definition mem_save_run ::
  "exec_state \<Rightarrow> run \<Rightarrow> u64 \<Rightarrow> new_run_event \<Rightarrow> mutation_command \<Rightarrow> store_error + run \<times> exec_state" where
  "mem_save_run s run expected_revision event command =
     and_then (prior_execution_command s command) (\<lambda>prior.
       case prior of
         Some outcome \<Rightarrow> map_ok (\<lambda>r. (r, s)) (store_run_outcome outcome)
       | None \<Rightarrow>
           and_then (ok_or (hm_get (es_runs s) (run_id_of run)) StoreNotFound) (\<lambda>current.
           and_then (fail_if (run_revision current \<noteq> expected_revision \<or>
                              run_revision run \<noteq> expected_revision + 1) StoreConflict) (\<lambda>_.
             let i = run_id_of run;
                 s = s\<lparr>es_runs := hm_insert i run (es_runs s)\<rparr>;
                 s = append_events s i [event];
                 s = record_execution_command s command (OutcomeRun run)
             in Inr (run, s))))"

definition mem_create_approval ::
  "exec_state \<Rightarrow> approval \<Rightarrow> run \<Rightarrow> u64 \<Rightarrow> new_run_event list \<Rightarrow> mutation_command \<Rightarrow>
   store_error + approval \<times> exec_state" where
  "mem_create_approval s approval run expected_run_revision events command =
     and_then (prior_execution_command s command) (\<lambda>prior.
       case prior of
         Some outcome \<Rightarrow> map_ok (\<lambda>a. (a, s)) (store_approval_outcome outcome)
       | None \<Rightarrow>
           and_then (ok_or (hm_get (es_runs s) (run_id_of run)) StoreNotFound) (\<lambda>current.
           and_then (fail_if (run_revision current \<noteq> expected_run_revision \<or>
                              run_revision run \<noteq> expected_run_revision + 1) StoreConflict) (\<lambda>_.
           and_then (fail_if (hm_contains (es_approvals s) (ap_id approval) \<or>
                              ap_run_id approval \<noteq> run_id_of run) StoreConflict) (\<lambda>_.
             let i = run_id_of run;
                 s = s\<lparr>es_runs := hm_insert i run (es_runs s)\<rparr>;
                 s = s\<lparr>es_approvals := hm_insert (ap_id approval) approval (es_approvals s)\<rparr>;
                 s = append_events s i events;
                 s = record_execution_command s command (OutcomeApproval approval)
             in Inr (approval, s)))))"

definition mem_get_approval :: "exec_state \<Rightarrow> approval_id \<Rightarrow> store_error + approval" where
  "mem_get_approval s i = ok_or (hm_get (es_approvals s) i) StoreNotFound"

definition mem_check_run_update ::
  "exec_state \<Rightarrow> approval \<Rightarrow> (run \<times> u64 \<times> new_run_event) option \<Rightarrow> store_error + unit" where
  "mem_check_run_update s approval run_update =
     (case run_update of
        None \<Rightarrow> Inr ()
      | Some (run, expected_run_revision, _) \<Rightarrow>
          and_then (ok_or (hm_get (es_runs s) (run_id_of run)) StoreNotFound) (\<lambda>current_run.
          fail_if (run_revision current_run \<noteq> expected_run_revision \<or>
                   run_revision run \<noteq> expected_run_revision + 1 \<or>
                   run_id_of run \<noteq> ap_run_id approval) StoreConflict))"

definition mem_decide_approval ::
  "exec_state \<Rightarrow> approval \<Rightarrow> u64 \<Rightarrow> (run \<times> u64 \<times> new_run_event) option \<Rightarrow> mutation_command \<Rightarrow>
   store_error + approval \<times> exec_state" where
  "mem_decide_approval s approval expected_approval_revision run_update command =
     and_then (prior_execution_command s command) (\<lambda>prior.
       case prior of
         Some outcome \<Rightarrow> map_ok (\<lambda>a. (a, s)) (store_approval_outcome outcome)
       | None \<Rightarrow>
           and_then (ok_or (hm_get (es_approvals s) (ap_id approval)) StoreNotFound) (\<lambda>current.
           and_then (fail_if (ap_revision current \<noteq> expected_approval_revision \<or>
                              ap_revision approval \<noteq> expected_approval_revision + 1)
                       StoreConflict) (\<lambda>_.
           and_then (mem_check_run_update s approval run_update) (\<lambda>_.
             let s = s\<lparr>es_approvals := hm_insert (ap_id approval) approval (es_approvals s)\<rparr>;
                 s = (case run_update of
                        None \<Rightarrow> s
                      | Some (run, _, event) \<Rightarrow>
                          append_events (s\<lparr>es_runs := hm_insert (run_id_of run) run (es_runs s)\<rparr>)
                            (run_id_of run) [event]);
                 s = record_execution_command s command (OutcomeApproval approval)
             in Inr (approval, s)))))"

definition mem_create_effect ::
  "exec_state \<Rightarrow> side_effect \<Rightarrow> new_run_event \<Rightarrow> store_error + unit \<times> exec_state" where
  "mem_create_effect s effect event =
     and_then (fail_if (hm_contains (es_effects s) (ef_id effect)) StoreConflict) (\<lambda>_.
     and_then (fail_if (\<not> hm_contains (es_runs s) (ef_run_id effect)) StoreNotFound) (\<lambda>_.
       let s = s\<lparr>es_effects := hm_insert (ef_id effect) effect (es_effects s)\<rparr>;
           s = append_events s (ef_run_id effect) [event]
       in Inr ((), s)))"

definition mem_get_effect :: "exec_state \<Rightarrow> effect_id \<Rightarrow> store_error + side_effect" where
  "mem_get_effect s i = ok_or (hm_get (es_effects s) i) StoreNotFound"

definition mem_save_effect ::
  "exec_state \<Rightarrow> side_effect \<Rightarrow> u64 \<Rightarrow> store_error + unit \<times> exec_state" where
  "mem_save_effect s effect expected_revision =
     and_then (ok_or (hm_get (es_effects s) (ef_id effect)) StoreNotFound) (\<lambda>current.
     and_then (fail_if (ef_revision current \<noteq> expected_revision \<or>
                        ef_revision effect \<noteq> expected_revision + 1) StoreConflict) (\<lambda>_.
       Inr ((), s\<lparr>es_effects := hm_insert (ef_id effect) effect (es_effects s)\<rparr>)))"

definition mem_interrupt_effect ::
  "exec_state \<Rightarrow> side_effect \<Rightarrow> u64 \<Rightarrow> run \<Rightarrow> u64 \<Rightarrow> new_run_event list \<Rightarrow>
   store_error + unit \<times> exec_state" where
  "mem_interrupt_effect s effect expected_effect_revision run expected_run_revision events =
     and_then (ok_or (hm_get (es_effects s) (ef_id effect)) StoreNotFound) (\<lambda>current_effect.
     and_then (ok_or (hm_get (es_runs s) (run_id_of run)) StoreNotFound) (\<lambda>current_run.
     and_then (fail_if (ef_revision current_effect \<noteq> expected_effect_revision \<or>
                        ef_revision effect \<noteq> expected_effect_revision + 1 \<or>
                        run_revision current_run \<noteq> expected_run_revision \<or>
                        run_revision run \<noteq> expected_run_revision + 1 \<or>
                        ef_run_id effect \<noteq> run_id_of run) StoreConflict) (\<lambda>_.
       let i = run_id_of run;
           s = s\<lparr>es_effects := hm_insert (ef_id effect) effect (es_effects s)\<rparr>;
           s = s\<lparr>es_runs := hm_insert i run (es_runs s)\<rparr>;
           s = append_events s i events
       in Inr ((), s))))"

definition mem_list_recoverable_host_effects ::
  "exec_state \<Rightarrow> nat \<Rightarrow> store_error + side_effect list" where
  "mem_list_recoverable_host_effects s limit =
     and_then (fail_if (\<not> (1 \<le> limit \<and> limit \<le> 1000))
                 (StoreInternal (MsgText ''invalid recovery limit''))) (\<lambda>_.
       Inr (take limit (sort_key (\<lambda>e. (ef_created_at e, ef_id e))
         (filter (\<lambda>e. ef_kind e \<in> {FileWrite, ProcessExecution} \<and>
                      ef_state e \<in> {EffectPrepared, EffectExecuting} \<and>
                      (case hm_get (es_runs s) (ef_run_id e) of
                         None \<Rightarrow> False | Some run \<Rightarrow> is_work_bound_to run HostDirect))
           (hm_values (es_effects s))))))"

definition mem_list_recoverable_host_runs :: "exec_state \<Rightarrow> nat \<Rightarrow> store_error + run list" where
  "mem_list_recoverable_host_runs s limit =
     and_then (fail_if (\<not> (1 \<le> limit \<and> limit \<le> 1000))
                 (StoreInternal (MsgText ''invalid recovery limit''))) (\<lambda>_.
       Inr (take limit (sort_key (\<lambda>r. (run_created_at r, run_id_of r))
         (filter (\<lambda>r. is_work_bound_to r HostDirect \<and> \<not> run_state_is_terminal (run_state_of r))
           (hm_values (es_runs s))))))"

text \<open>\<open>Reverse(updated_at)\<close> as a sort key is the complement of the timestamp.\<close>

definition mem_list_host_work_runs ::
  "exec_state \<Rightarrow> nat \<Rightarrow> thread_id option \<Rightarrow> store_error + run list" where
  "mem_list_host_work_runs s limit thread =
     and_then (fail_if (\<not> (1 \<le> limit \<and> limit \<le> 100))
                 (StoreInternal (MsgText ''invalid Host Work list limit''))) (\<lambda>_.
       Inr (take limit (sort_key (\<lambda>r. (- 1 - run_updated_at r, run_id_of r))
         (filter (\<lambda>r. is_work_bound_to r HostDirect \<and>
                      (case thread of None \<Rightarrow> True | Some t \<Rightarrow> run_thread_id r = t))
           (hm_values (es_runs s))))))"

definition mem_pending_approval_for_run ::
  "exec_state \<Rightarrow> run_id \<Rightarrow> store_error + approval option" where
  "mem_pending_approval_for_run s rid =
     and_then (fail_if (\<not> hm_contains (es_runs s) rid) StoreNotFound) (\<lambda>_.
       Inr (case rev (sort_key (\<lambda>a. (ap_created_at a, ap_id a))
              (filter (\<lambda>a. ap_run_id a = rid \<and> ap_status a = ApprovalPending)
                (hm_values (es_approvals s)))) of
          [] \<Rightarrow> None | a # _ \<Rightarrow> Some a))"

definition mem_events_since ::
  "exec_state \<Rightarrow> run_id \<Rightarrow> u64 \<Rightarrow> nat \<Rightarrow> store_error + run_event list" where
  "mem_events_since s rid after_sequence limit =
     and_then (fail_if (\<not> hm_contains (es_runs s) rid) StoreNotFound) (\<lambda>_.
       Inr (take limit (filter (\<lambda>e. after_sequence < ev_sequence e) (event_stream s rid))))"

definition mem_execution_store :: "exec_state execution_store" where
  "mem_execution_store =
     \<lparr>xs_resolve = prior_execution_command, xs_create_run = mem_create_run,
      xs_get_run = mem_get_run, xs_save_run = mem_save_run,
      xs_create_approval = mem_create_approval, xs_get_approval = mem_get_approval,
      xs_decide_approval = mem_decide_approval, xs_create_effect = mem_create_effect,
      xs_get_effect = mem_get_effect, xs_save_effect = mem_save_effect,
      xs_interrupt_effect = mem_interrupt_effect,
      xs_list_recoverable_host_effects = mem_list_recoverable_host_effects,
      xs_list_recoverable_host_runs = mem_list_recoverable_host_runs,
      xs_list_host_work_runs = mem_list_host_work_runs,
      xs_pending_approval_for_run = mem_pending_approval_for_run,
      xs_events_since = mem_events_since\<rparr>"

end
