(* ===== verification/ExecutionInvariants.thy ===== *)
theory ExecutionInvariants
  imports ExecutionStore
begin

text \<open>
  What the execution store keeps. \<open>exec_inv\<close> is the invariant of a state: the audit stream of a
  run is contiguous, belongs to the run, and replays to the stored run state; approvals and
  effects belong to stored runs and were announced in the stream first. \<open>exec_evolves\<close> is how a
  state may change: rows only advance along their lifecycle with a moving revision, streams only
  grow at the end, and recorded commands are permanent. Every operation of the in-memory store
  is shown to keep the one and follow the other.
\<close>

section \<open>Replaying the audit stream\<close>

fun replay_kind :: "run_state option \<Rightarrow> run_event_kind \<Rightarrow> run_state option" where
  "replay_kind None RunCreated = Some Queued"
| "replay_kind None _ = None"
| "replay_kind (Some s) RunCreated = None"
| "replay_kind (Some s) (RunStateChanged from to) =
     (if s = from \<and> run_state_permits from to then Some to else None)"
| "replay_kind (Some s) _ = Some s"

definition replay_state :: "run_event list \<Rightarrow> run_state option" where
  "replay_state es = foldl replay_kind None (map ev_kind es)"

definition stream_ok :: "run_id \<Rightarrow> run_event list \<Rightarrow> bool" where
  "stream_ok i es \<longleftrightarrow>
     (\<forall>k < length es. ev_sequence (es ! k) = saturating_add (u64_of_usize k) 1 \<and> ev_run_id (es ! k) = i)"

definition event_kinds :: "run_event list \<Rightarrow> run_event_kind set" where
  "event_kinds es = ev_kind ` set es"

abbreviation push_events :: "run_id \<Rightarrow> run_event list \<Rightarrow> new_run_event list \<Rightarrow> run_event list" where
  "push_events i \<equiv> foldl (push_event i)"

lemma push_events_prefix: "\<exists>xs. push_events i es evs = es @ xs \<and> map ev_kind xs = map ne_kind evs"
proof (induction evs arbitrary: es)
  case (Cons e evs)
  obtain y where y: "push_event i es e = es @ [y]" "ev_kind y = ne_kind e"
    by (auto simp: push_event_def)
  obtain xs where "push_events i (es @ [y]) evs = es @ y # xs" "map ev_kind xs = map ne_kind evs"
    using Cons.IH [of "es @ [y]"] by auto
  with y show ?case by (intro exI [of _ "y # xs"]) simp
qed simp

lemma stream_ok_push_events: "stream_ok i es \<Longrightarrow> stream_ok i (push_events i es evs)"
proof (induction evs arbitrary: es)
  case (Cons e evs)
  then have "stream_ok i (push_event i es e)"
    by (auto simp: stream_ok_def push_event_def nth_append less_Suc_eq)
  from Cons.IH [OF this] show ?case by simp
qed simp

lemma replay_push_events:
  "replay_state (push_events i es evs) = foldl replay_kind (replay_state es) (map ne_kind evs)"
proof -
  obtain xs where "push_events i es evs = es @ xs" "map ev_kind xs = map ne_kind evs"
    using push_events_prefix by blast
  then show ?thesis by (simp add: replay_state_def)
qed

lemma event_kinds_push_events: "event_kinds (push_events i es evs) = event_kinds es \<union> ne_kind ` set evs"
proof -
  obtain xs where xs: "push_events i es evs = es @ xs" "map ev_kind xs = map ne_kind evs"
    using push_events_prefix by blast
  have "ev_kind ` set xs = ne_kind ` set evs"
    using arg_cong [OF xs(2), of set] by simp
  with xs(1) show ?thesis by (auto simp: event_kinds_def)
qed

section \<open>The invariant\<close>

type_synonym streams = "run_id \<Rightarrow> run_event list"

definition runs_ok :: "(run_id, run) hmap \<Rightarrow> streams \<Rightarrow> bool" where
  "runs_ok runs str \<longleftrightarrow> hm_wf runs \<and>
     (\<forall>i. hm_get runs i = None \<longrightarrow> str i = []) \<and>
     (\<forall>i r. hm_get runs i = Some r \<longrightarrow>
        run_id_of r = i \<and> run_wf r \<and> stream_ok i (str i) \<and> replay_state (str i) = Some (run_state_of r))"

definition approval_ok :: "approval \<Rightarrow> bool" where
  "approval_ok a \<longleftrightarrow>
     (case ap_decided_at a of
        None \<Rightarrow> ap_status a = ApprovalPending \<and> ap_revision a = 0
      | Some t \<Rightarrow> ap_revision a = 1 \<and>
          (if ap_expires_at a < t then ap_status a = ApprovalExpired
           else ap_status a \<in> {ApprovalGranted, ApprovalDenied}))"

definition approvals_ok :: "(approval_id, approval) hmap \<Rightarrow> (run_id, run) hmap \<Rightarrow> streams \<Rightarrow> bool" where
  "approvals_ok aps runs str \<longleftrightarrow> hm_wf aps \<and>
     (\<forall>i a. hm_get aps i = Some a \<longrightarrow>
        ap_id a = i \<and> hm_contains runs (ap_run_id a) \<and> approval_ok a \<and>
        RunApprovalRequested i \<in> event_kinds (str (ap_run_id a)))"

definition effects_ok :: "(effect_id, side_effect) hmap \<Rightarrow> (run_id, run) hmap \<Rightarrow> streams \<Rightarrow> bool" where
  "effects_ok efs runs str \<longleftrightarrow> hm_wf efs \<and>
     (\<forall>i e. hm_get efs i = Some e \<longrightarrow>
        ef_id e = i \<and> hm_contains runs (ef_run_id e) \<and>
        RunEffectPrepared i \<in> event_kinds (str (ef_run_id e)) \<and>
        (ef_state e = EffectNeedsReview \<longrightarrow> RunEffectNeedsReview i \<in> event_kinds (str (ef_run_id e))))"

definition exec_inv :: "exec_state \<Rightarrow> bool" where
  "exec_inv s \<longleftrightarrow>
     runs_ok (es_runs s) (event_stream s) \<and>
     approvals_ok (es_approvals s) (es_runs s) (event_stream s) \<and>
     effects_ok (es_effects s) (es_runs s) (event_stream s)"

section \<open>Evolution\<close>

abbreviation "run_advances \<equiv> advances run_step run_revision"
abbreviation "approval_advances \<equiv> advances approval_step ap_revision"
abbreviation "effect_advances \<equiv> advances effect_step ef_revision"

definition rows_evolve :: "('v \<Rightarrow> 'v \<Rightarrow> bool) \<Rightarrow> ('k, 'v) hmap \<Rightarrow> ('k, 'v) hmap \<Rightarrow> bool" where
  "rows_evolve adv m m' \<longleftrightarrow>
     (\<forall>i r. hm_get m i = Some r \<longrightarrow> (\<exists>r'. hm_get m' i = Some r' \<and> adv\<^sup>*\<^sup>* r r'))"

definition streams_evolve :: "streams \<Rightarrow> streams \<Rightarrow> bool" where
  "streams_evolve str str' \<longleftrightarrow> (\<forall>i. \<exists>xs. str' i = str i @ xs)"

definition exec_evolves :: "exec_state \<Rightarrow> exec_state \<Rightarrow> bool" where
  "exec_evolves s s' \<longleftrightarrow>
     rows_evolve run_advances (es_runs s) (es_runs s') \<and>
     rows_evolve approval_advances (es_approvals s) (es_approvals s') \<and>
     rows_evolve effect_advances (es_effects s) (es_effects s') \<and>
     streams_evolve (event_stream s) (event_stream s') \<and>
     rows_evolve (\<lambda>_ _. False) (es_commands s) (es_commands s')"

lemma rows_evolve_refl [simp]: "rows_evolve adv m m"
  by (auto simp: rows_evolve_def)

lemma rows_evolve_trans: "rows_evolve adv m n \<Longrightarrow> rows_evolve adv n k \<Longrightarrow> rows_evolve adv m k"
  unfolding rows_evolve_def by (meson rtranclp_trans)

lemma rows_evolve_insert:
  "(\<And>v0. hm_get m i = Some v0 \<Longrightarrow> adv\<^sup>*\<^sup>* v0 v) \<Longrightarrow> rows_evolve adv m (hm_insert i v m)"
  by (auto simp: rows_evolve_def)

lemma rows_evolve_contains: "rows_evolve adv m n \<Longrightarrow> hm_contains m i \<Longrightarrow> hm_contains n i"
  unfolding rows_evolve_def hm_contains_def by fastforce

lemma streams_evolve_refl [simp]: "streams_evolve str str"
  by (simp add: streams_evolve_def)

lemma streams_evolve_trans:
  "streams_evolve a b \<Longrightarrow> streams_evolve b c \<Longrightarrow> streams_evolve a c"
  unfolding streams_evolve_def by (metis append.assoc)

lemma streams_evolve_kinds: "streams_evolve a b \<Longrightarrow> k \<in> event_kinds (a i) \<Longrightarrow> k \<in> event_kinds (b i)"
  unfolding streams_evolve_def event_kinds_def by (metis UnCI image_Un set_append)

interpretation exec_rg: rely_guarantee exec_inv exec_evolves
  by unfold_locales
     (auto simp: exec_evolves_def intro: rows_evolve_trans streams_evolve_trans)

section \<open>How the parts of the invariant move\<close>

lemma event_stream_append [simp]:
  "event_stream (append_events s i evs) = (event_stream s)(i := push_events i (event_stream s i) evs)"
  by (auto simp: event_stream_def append_events_def)

lemma append_events_fields [simp]:
  "es_runs (append_events s i evs) = es_runs s"
  "es_approvals (append_events s i evs) = es_approvals s"
  "es_effects (append_events s i evs) = es_effects s"
  "es_commands (append_events s i evs) = es_commands s"
  by (simp_all add: append_events_def)

lemma event_stream_update [simp]:
  "event_stream (s\<lparr>es_runs := x\<rparr>) = event_stream s"
  "event_stream (s\<lparr>es_approvals := a\<rparr>) = event_stream s"
  "event_stream (s\<lparr>es_effects := e\<rparr>) = event_stream s"
  "event_stream (s\<lparr>es_commands := c\<rparr>) = event_stream s"
  by (auto simp: event_stream_def)

lemma record_execution_command_fields [simp]:
  "es_runs (record_execution_command s c o') = es_runs s"
  "es_approvals (record_execution_command s c o') = es_approvals s"
  "es_effects (record_execution_command s c o') = es_effects s"
  "event_stream (record_execution_command s c o') = event_stream s"
  "es_commands (record_execution_command s c o') =
     hm_insert (mc_scope c, mc_key c) \<lparr>ec_fingerprint = mc_fingerprint c, ec_outcome = o'\<rparr> (es_commands s)"
  by (simp_all add: record_execution_command_def)

lemma streams_evolve_push [simp]: "streams_evolve str (str(i := push_events i (str i) evs))"
  using push_events_prefix [of i "str i" evs] by (auto simp: streams_evolve_def)

lemma runs_ok_create:
  assumes "runs_ok runs str" "hm_get runs (run_id_of r) = None" "run_init r" "ne_kind ev = RunCreated"
  shows "runs_ok (hm_insert (run_id_of r) r runs)
           (str(run_id_of r := push_events (run_id_of r) (str (run_id_of r)) [ev]))"
proof -
  let ?i = "run_id_of r"
  have "str ?i = []" using assms(1,2) by (simp add: runs_ok_def)
  then have "stream_ok ?i (push_events ?i (str ?i) [ev])"
    by (intro stream_ok_push_events) (simp add: stream_ok_def)
  moreover have "replay_state (push_events ?i (str ?i) [ev]) = Some (run_state_of r)"
    using assms(4) run_init_state [OF assms(3)] \<open>str ?i = []\<close>
    by (simp only: replay_push_events) (simp add: replay_state_def)
  ultimately show ?thesis
    using assms(1) run_wf_init [OF assms(3)] by (auto simp: runs_ok_def simp del: foldl.simps)
qed

lemma runs_ok_steps:
  assumes "runs_ok runs str" "hm_get runs i = Some r0" "run_steps r0 r"
    and "foldl replay_kind (Some (run_state_of r0)) (map ne_kind evs) = Some (run_state_of r)"
  shows "runs_ok (hm_insert i r runs) (str(i := push_events i (str i) evs))"
proof -
  have r0: "run_id_of r0 = i" "run_wf r0" "stream_ok i (str i)" "replay_state (str i) = Some (run_state_of r0)"
    using assms(1,2) by (auto simp: runs_ok_def)
  then have "run_id_of r = i" "run_wf r"
    using run_life.steps_ident [OF assms(3)] run_rows.steps_accepted [OF assms(3)]
    by (auto simp: run_frame_def)
  moreover have "stream_ok i (push_events i (str i) evs)"
    using r0 by (intro stream_ok_push_events)
  moreover have "replay_state (push_events i (str i) evs) = Some (run_state_of r)"
    using r0 assms(4) by (simp add: replay_push_events)
  ultimately show ?thesis
    using assms(1) by (auto simp: runs_ok_def simp del: foldl.simps)
qed

lemma runs_ok_events:
  assumes "runs_ok runs str" "hm_get runs i = Some r0" "r = r0 \<or> run_step r0 r"
    and "foldl replay_kind (Some (run_state_of r0)) (map ne_kind evs) = Some (run_state_of r)"
  shows "runs_ok (hm_insert i r runs) (str(i := push_events i (str i) evs))"
  by (rule runs_ok_steps [OF assms(1,2) _ assms(4)]) (use assms(3) in auto)

lemma hm_insert_same: "hm_get m i = Some v \<Longrightarrow> hm_insert i v m = m"
  by (induction m i rule: hm_get.induct) auto

lemma approvals_ok_mono:
  "approvals_ok aps runs str \<Longrightarrow> rows_evolve adv runs runs' \<Longrightarrow> streams_evolve str str' \<Longrightarrow>
   approvals_ok aps runs' str'"
  unfolding approvals_ok_def by (blast intro: rows_evolve_contains streams_evolve_kinds)

lemma effects_ok_mono:
  "effects_ok efs runs str \<Longrightarrow> rows_evolve adv runs runs' \<Longrightarrow> streams_evolve str str' \<Longrightarrow>
   effects_ok efs runs' str'"
  unfolding effects_ok_def by (blast intro: rows_evolve_contains streams_evolve_kinds)

lemma approvals_ok_insert:
  "approvals_ok aps runs str \<Longrightarrow> hm_contains runs (ap_run_id a) \<Longrightarrow> approval_ok a \<Longrightarrow>
   RunApprovalRequested (ap_id a) \<in> event_kinds (str (ap_run_id a)) \<Longrightarrow>
   approvals_ok (hm_insert (ap_id a) a aps) runs str"
  by (auto simp: approvals_ok_def)

lemma effects_ok_insert:
  "effects_ok efs runs str \<Longrightarrow> hm_contains runs (ef_run_id e) \<Longrightarrow>
   RunEffectPrepared (ef_id e) \<in> event_kinds (str (ef_run_id e)) \<Longrightarrow>
   (ef_state e = EffectNeedsReview \<Longrightarrow> RunEffectNeedsReview (ef_id e) \<in> event_kinds (str (ef_run_id e))) \<Longrightarrow>
   effects_ok (hm_insert (ef_id e) e efs) runs str"
  by (auto simp: effects_ok_def)

section \<open>The operations of the in-memory store\<close>

lemma prior_None [result_simps]:
  "prior_execution_command s c = Inr None \<longleftrightarrow> hm_get (es_commands s) (mc_scope c, mc_key c) = None"
  by (simp add: prior_execution_command_def split: option.split)

lemma prior_Some [result_simps]:
  "prior_execution_command s c = Inr (Some o') \<longleftrightarrow>
     (\<exists>rec. hm_get (es_commands s) (mc_scope c, mc_key c) = Some rec \<and>
        ec_fingerprint rec = mc_fingerprint c \<and> o' = ec_outcome rec)"
  by (auto simp: prior_execution_command_def split: option.split)

lemma journaledE:
  assumes "and_then (prior_execution_command s c) (\<lambda>prior.
      case prior of Some o' \<Rightarrow> map_ok (\<lambda>r. (r, s)) (f o') | None \<Rightarrow> body) = Inr (x, s')"
  obtains (replay) o' where "prior_execution_command s c = Inr (Some o')" "f o' = Inr x" "s' = s"
    | (fresh) "hm_get (es_commands s) (mc_scope c, mc_key c) = None" "body = Inr (x, s')"
proof (cases "prior_execution_command s c")
  case (Inr prior)
  with assms replay fresh show thesis by (cases prior) (auto simp: map_ok_Inr prior_None)
qed (use assms in simp)

lemma rows_evolve_new: "hm_get m k = None \<Longrightarrow> rows_evolve adv m (hm_insert k v m)"
  by (rule rows_evolve_insert) simp

lemma rows_evolve_step: "hm_get m k = Some v0 \<Longrightarrow> adv v0 v \<Longrightarrow> rows_evolve adv m (hm_insert k v m)"
  by (rule rows_evolve_insert) auto

lemma rows_evolve_get:
  "rows_evolve adv m n \<Longrightarrow> hm_get m i = Some x \<Longrightarrow> hm_get n i = Some y \<Longrightarrow> adv\<^sup>*\<^sup>* x y"
  unfolding rows_evolve_def by (metis option.inject)

lemma evolves_run:
  assumes "exec_evolves s t" "hm_get (es_runs s) i = Some r"
  obtains r' where "hm_get (es_runs t) i = Some r'" "run_advances\<^sup>*\<^sup>* r r'"
  using assms unfolding exec_evolves_def rows_evolve_def by blast

lemma evolves_command:
  assumes "exec_evolves s t" "hm_get (es_commands s) k = Some c"
  shows "hm_get (es_commands t) k = Some c"
proof -
  obtain c' where c': "hm_get (es_commands t) k = Some c'" "(\<lambda>_ _. False)\<^sup>*\<^sup>* c c'"
    using assms unfolding exec_evolves_def rows_evolve_def by blast
  from c'(2) have "c' = c" by (rule rtranclp.cases) simp_all
  with c'(1) show ?thesis by simp
qed

text \<open>A value read earlier is still the stored one when its revision is.\<close>

lemma run_unchanged:
  assumes "exec_evolves s0 s" "mem_get_run s0 i = Inr r0" "hm_get (es_runs s) i = Some cur"
    and "run_revision cur = run_revision r0"
  shows "cur = r0"
proof (rule run_life.advances_same_revision [OF rows_evolve_get assms(4)])
  show "rows_evolve run_advances (es_runs s0) (es_runs s)"
    using assms(1) by (simp add: exec_evolves_def)
  show "hm_get (es_runs s0) i = Some r0"
    using assms(2) by (simp add: mem_get_run_def ok_or_Inr)
qed (rule assms(3))

lemma approval_unchanged:
  assumes "exec_evolves s0 s" "mem_get_approval s0 i = Inr a0" "hm_get (es_approvals s) i = Some cur"
    and "ap_revision cur = ap_revision a0"
  shows "cur = a0"
proof (rule approval_life.advances_same_revision [OF rows_evolve_get assms(4)])
  show "rows_evolve approval_advances (es_approvals s0) (es_approvals s)"
    using assms(1) by (simp add: exec_evolves_def)
  show "hm_get (es_approvals s0) i = Some a0"
    using assms(2) by (simp add: mem_get_approval_def ok_or_Inr)
qed (rule assms(3))

lemma effect_unchanged:
  assumes "exec_evolves s0 s" "mem_get_effect s0 i = Inr e0" "hm_get (es_effects s) i = Some cur"
    and "ef_revision cur = ef_revision e0"
  shows "cur = e0"
proof (rule effect_life.advances_same_revision [OF rows_evolve_get assms(4)])
  show "rows_evolve effect_advances (es_effects s0) (es_effects s)"
    using assms(1) by (simp add: exec_evolves_def)
  show "hm_get (es_effects s0) i = Some e0"
    using assms(2) by (simp add: mem_get_effect_def ok_or_Inr)
qed (rule assms(3))

lemma mem_get_run_id: "exec_inv s \<Longrightarrow> mem_get_run s i = Inr r \<Longrightarrow> run_id_of r = i"
  by (auto simp: exec_inv_def runs_ok_def mem_get_run_def ok_or_Inr)

lemma mem_get_approval_id: "exec_inv s \<Longrightarrow> mem_get_approval s i = Inr a \<Longrightarrow> ap_id a = i"
  by (auto simp: exec_inv_def approvals_ok_def mem_get_approval_def ok_or_Inr)

lemma mem_get_effect_id: "exec_inv s \<Longrightarrow> mem_get_effect s i = Inr e \<Longrightarrow> ef_id e = i"
  by (auto simp: exec_inv_def effects_ok_def mem_get_effect_def ok_or_Inr)

lemma exec_update:
  assumes "exec_inv s"
    and "runs_ok (es_runs s') (event_stream s')"
    and "rows_evolve run_advances (es_runs s) (es_runs s')"
    and "streams_evolve (event_stream s) (event_stream s')"
    and "rows_evolve (\<lambda>_ _. False) (es_commands s) (es_commands s')"
    and "es_approvals s' = es_approvals s \<or>
      approvals_ok (es_approvals s') (es_runs s') (event_stream s') \<and>
      rows_evolve approval_advances (es_approvals s) (es_approvals s')"
    and "es_effects s' = es_effects s \<or>
      effects_ok (es_effects s') (es_runs s') (event_stream s') \<and>
      rows_evolve effect_advances (es_effects s) (es_effects s')"
  shows "exec_inv s' \<and> exec_evolves s s'"
proof -
  have "approvals_ok (es_approvals s) (es_runs s') (event_stream s')"
    "effects_ok (es_effects s) (es_runs s') (event_stream s')"
    using assms(1,3,4) by (auto simp: exec_inv_def intro: approvals_ok_mono effects_ok_mono)
  with assms(2-7) show ?thesis
    by (auto simp: exec_inv_def exec_evolves_def)
qed

lemma mem_create_run_ok:
  assumes "exec_inv s" "run_init r" "ne_kind ev = RunCreated" "mem_create_run s r ev c = Inr (x, s')"
  shows "exec_inv s' \<and> exec_evolves s s'"
  using assms(4) unfolding mem_create_run_def
proof (cases rule: journaledE)
  case fresh
  then have none: "hm_get (es_runs s) (run_id_of r) = None"
    and s': "s' = record_execution_command (append_events
        (s\<lparr>es_runs := hm_insert (run_id_of r) r (es_runs s)\<rparr>) (run_id_of r) [ev]) c (OutcomeRun r)"
    by (auto simp: result_simps Let_def hm_contains_def)
  have "runs_ok (es_runs s) (event_stream s)" using assms(1) by (simp add: exec_inv_def)
  from runs_ok_create [OF this none assms(2,3)] fresh(1) none show ?thesis
    by (intro exec_update [OF assms(1)])
       (simp_all add: s' rows_evolve_new del: foldl.simps)
qed (use assms(1) exec_rg.evolves_refl in simp)

text \<open>The run part of a commit: the stored run is the one that was read, and it advances.\<close>

lemma run_commit:
  assumes "exec_inv s0" "exec_inv s" "exec_evolves s0 s" "mem_get_run s0 i = Inr r0"
    and "run_transition r0 next now = Inr r"
    and "hm_get (es_runs s) (run_id_of r) = Some cur" "run_revision cur = run_revision r0"
    and "run_revision r = run_revision r0 + 1"
    and "foldl replay_kind (Some (run_state_of r0)) (map ne_kind evs) = Some next"
  shows "run_id_of r = i" and "run_advances r0 r"
    and "rows_evolve run_advances (es_runs s) (hm_insert i r (es_runs s))"
    and "runs_ok (hm_insert i r (es_runs s)) ((event_stream s)(i := push_events i (event_stream s i) evs))"
proof -
  have step: "run_step r0 r" using assms(5) by (rule run_step.transition)
  have "run_id_of r0 = i" using assms(1,4) by (rule mem_get_run_id)
  then show i: "run_id_of r = i" using run_life.step_ident [OF step] by (simp add: run_frame_def)
  have cur: "hm_get (es_runs s) i = Some r0"
    using run_unchanged [OF assms(3,4)] assms(6,7) i by simp
  show adv: "run_advances r0 r" using step assms(8) by (rule run_life.advances_commit)
  show "rows_evolve run_advances (es_runs s) (hm_insert i r (es_runs s))"
    using cur adv by (rule rows_evolve_step)
  have "run_state_of r = next" using assms(5) by (simp add: run_transition_Inr)
  with assms(2,9) cur step show
    "runs_ok (hm_insert i r (es_runs s)) ((event_stream s)(i := push_events i (event_stream s i) evs))"
    by (intro runs_ok_events) (simp_all add: exec_inv_def)
qed

lemma mem_save_run_ok:
  assumes "exec_inv s0" "exec_inv s" "exec_evolves s0 s" "mem_get_run s0 i = Inr r0"
    and "run_transition r0 next now = Inr r" "ne_kind ev = RunStateChanged (run_state_of r0) next"
    and "mem_save_run s r (run_revision r0) ev c = Inr (x, s')"
  shows "exec_inv s' \<and> exec_evolves s s'"
  using assms(7) unfolding mem_save_run_def
proof (cases rule: journaledE)
  case fresh
  then obtain cur where cur: "hm_get (es_runs s) (run_id_of r) = Some cur"
    "run_revision cur = run_revision r0" "run_revision r = run_revision r0 + 1"
    and s': "s' = record_execution_command (append_events
        (s\<lparr>es_runs := hm_insert (run_id_of r) r (es_runs s)\<rparr>) (run_id_of r) [ev]) c (OutcomeRun r)"
    by (auto simp: result_simps Let_def)
  have "foldl replay_kind (Some (run_state_of r0)) (map ne_kind [ev]) = Some next"
    using assms(5,6) by (simp add: run_transition_Inr)
  from run_commit [OF assms(1-5) cur this] fresh(1) show ?thesis
    by (intro exec_update [OF assms(2)]) (simp_all add: s' rows_evolve_new del: foldl.simps)
qed (use assms(2) exec_rg.evolves_refl in simp)

lemma mem_create_approval_ok:
  assumes "exec_inv s0" "exec_inv s" "exec_evolves s0 s" "mem_get_run s0 i = Inr r0"
    and "run_transition r0 AwaitingApproval now = Inr r"
    and a: "a = approval_pending aid i request scope now expires_at"
    and evs: "map ne_kind evs = [RunStateChanged (run_state_of r0) AwaitingApproval, RunApprovalRequested aid]"
    and "mem_create_approval s a r (run_revision r0) evs c = Inr (x, s')"
  shows "exec_inv s' \<and> exec_evolves s s'"
  using assms(8) unfolding mem_create_approval_def
proof (cases rule: journaledE)
  case fresh
  then obtain cur where cur: "hm_get (es_runs s) (run_id_of r) = Some cur"
    "run_revision cur = run_revision r0" "run_revision r = run_revision r0 + 1"
    and new: "hm_get (es_approvals s) (ap_id a) = None"
    and s': "s' = record_execution_command (append_events
        (s\<lparr>es_runs := hm_insert (run_id_of r) r (es_runs s),
           es_approvals := hm_insert (ap_id a) a (es_approvals s)\<rparr>) (run_id_of r) evs) c (OutcomeApproval a)"
    by (auto simp: result_simps Let_def hm_contains_def)
  have replay: "foldl replay_kind (Some (run_state_of r0)) (map ne_kind evs) = Some AwaitingApproval"
    using assms(5) by (simp add: evs run_transition_Inr)
  note commit = run_commit [OF assms(1-5) cur replay]
  let ?str = "(event_stream s)(i := push_events i (event_stream s i) evs)"
  have "RunApprovalRequested aid \<in> ne_kind ` set evs"
    using arg_cong [OF evs, of set] by auto
  then have "approvals_ok (hm_insert (ap_id a) a (es_approvals s)) (hm_insert i r (es_runs s)) ?str"
    using assms(2)
    by (intro approvals_ok_insert [OF approvals_ok_mono [OF _ commit(3) streams_evolve_push]])
       (simp_all add: exec_inv_def a approval_pending_def approval_ok_def event_kinds_push_events
          hm_contains_def)
  with commit new fresh(1) show ?thesis
    by (intro exec_update [OF assms(2)]) (simp_all add: s' rows_evolve_new)
qed (use assms(2) exec_rg.evolves_refl in simp)

lemma approval_ok_decide:
  "approval_ok a \<Longrightarrow> ap_status a = ApprovalPending \<Longrightarrow> approval_ok (fst (approval_decide a d now))"
  by (auto simp: approval_ok_def approval_decide_def split: option.splits approval_decision.splits if_splits)

text \<open>The approval part of a commit.\<close>

lemma approval_commit:
  assumes "exec_inv s0" "exec_inv s" "exec_evolves s0 s" "mem_get_approval s0 i = Inr a0"
    and "ap_status a0 = ApprovalPending" and a: "a = fst (approval_decide a0 d now)"
    and "hm_get (es_approvals s) (ap_id a) = Some cur" "ap_revision cur = ap_revision a0"
    and "ap_revision a = ap_revision a0 + 1"
    and grow: "rows_evolve adv (es_runs s) runs'" "streams_evolve (event_stream s) str'"
  shows "approvals_ok (hm_insert (ap_id a) a (es_approvals s)) runs' str'"
    and "rows_evolve approval_advances (es_approvals s) (hm_insert (ap_id a) a (es_approvals s))"
proof -
  have step: "approval_step a0 a" unfolding a using assms(5) by (rule approval_step.decide)
  have frame: "approval_frame a = approval_frame a0" using step by (rule approval_life.step_ident)
  then have i: "ap_id a = i" using mem_get_approval_id [OF assms(1,4)] by (simp add: approval_frame_def)
  have cur: "hm_get (es_approvals s) i = Some a0"
    using approval_unchanged [OF assms(3,4)] assms(7,8) i by simp
  have a0: "approval_ok a0" "hm_contains (es_runs s) (ap_run_id a)"
    "RunApprovalRequested i \<in> event_kinds (event_stream s (ap_run_id a))"
    using assms(2) cur frame by (auto simp: exec_inv_def approvals_ok_def approval_frame_def)
  have "approval_ok a" unfolding a using a0(1) assms(5) by (rule approval_ok_decide)
  moreover have "approvals_ok (es_approvals s) runs' str'"
    using assms(2) grow by (auto simp: exec_inv_def intro: approvals_ok_mono)
  ultimately show "approvals_ok (hm_insert (ap_id a) a (es_approvals s)) runs' str'"
    using rows_evolve_contains [OF grow(1) a0(2)] streams_evolve_kinds [OF grow(2) a0(3)]
    by (intro approvals_ok_insert) (simp_all add: i)
  show "rows_evolve approval_advances (es_approvals s) (hm_insert (ap_id a) a (es_approvals s))"
    using rows_evolve_step [OF cur] approval_life.advances_commit [OF step assms(9)] by (simp add: i)
qed

lemma mem_decide_approval_ok:
  assumes "exec_inv s0" "exec_inv s1" "exec_inv s" "exec_evolves s0 s" "exec_evolves s1 s"
    and "mem_get_approval s0 i = Inr a0" "ap_status a0 = ApprovalPending"
    and "a = fst (approval_decide a0 d now)"
    and "mem_get_run s1 (ap_run_id a) = Inr r0" "run_transition r0 next now' = Inr r"
    and ev: "ne_kind ev = RunStateChanged (run_state_of r0) next"
    and "mem_decide_approval s a (ap_revision a0) (Some (r, run_revision r0, ev)) c = Inr (x, s')"
  shows "exec_inv s' \<and> exec_evolves s s'"
  using assms(12) unfolding mem_decide_approval_def
proof (cases rule: journaledE)
  case fresh
  then obtain cur rcur where ap: "hm_get (es_approvals s) (ap_id a) = Some cur"
    "ap_revision cur = ap_revision a0" "ap_revision a = ap_revision a0 + 1"
    and run: "hm_get (es_runs s) (run_id_of r) = Some rcur" "run_revision rcur = run_revision r0"
      "run_revision r = run_revision r0 + 1"
    and s': "s' = record_execution_command (append_events
        (s\<lparr>es_approvals := hm_insert (ap_id a) a (es_approvals s),
           es_runs := hm_insert (run_id_of r) r (es_runs s)\<rparr>) (run_id_of r) [ev]) c (OutcomeApproval a)"
    by (auto simp: result_simps Let_def mem_check_run_update_def)
  have replay: "foldl replay_kind (Some (run_state_of r0)) (map ne_kind [ev]) = Some next"
    using assms(10) by (simp add: ev run_transition_Inr)
  note rc = run_commit [OF assms(2,3,5,9,10) run replay]
  note ac = approval_commit [OF assms(1,3,4,6,7,8) ap rc(3) streams_evolve_push]
  from rc ac fresh(1) show ?thesis
    by (intro exec_update [OF assms(3)]) (simp_all add: s' rows_evolve_new del: foldl.simps)
qed (use assms(3) exec_rg.evolves_refl in simp)

lemma mem_create_effect_ok:
  assumes "exec_inv s" and e: "e = effect_prepare eid rid kind target idem now"
    and ev: "ne_kind ev = RunEffectPrepared eid"
    and "mem_create_effect s e ev = Inr (x, s')"
  shows "exec_inv s' \<and> exec_evolves s s'"
proof -
  from assms(4) have new: "hm_get (es_effects s) eid = None" and run: "hm_contains (es_runs s) rid"
    and s': "s' = append_events (s\<lparr>es_effects := hm_insert eid e (es_effects s)\<rparr>) rid [ev]"
    by (auto simp: mem_create_effect_def result_simps Let_def hm_contains_def e effect_prepare_def)
  from run obtain r where r: "hm_get (es_runs s) rid = Some r" by (auto simp: hm_contains_def)
  let ?str = "(event_stream s)(rid := push_events rid (event_stream s rid) [ev])"
  have "runs_ok (hm_insert rid r (es_runs s)) ?str"
    using assms(1) r by (intro runs_ok_events) (simp_all add: exec_inv_def ev)
  moreover have "effects_ok (hm_insert (ef_id e) e (es_effects s)) (es_runs s) ?str"
    using assms(1) run
    by (intro effects_ok_insert [OF effects_ok_mono [OF _ rows_evolve_refl streams_evolve_push]])
       (simp_all add: exec_inv_def event_kinds_push_events ev e effect_prepare_def del: foldl.simps)
  ultimately show ?thesis
    using new by (intro exec_update [OF assms(1)])
      (simp_all add: s' rows_evolve_new hm_insert_same [OF r] e effect_prepare_def del: foldl.simps)
qed

text \<open>The effect part of a commit.\<close>

lemma effect_commit:
  assumes "exec_inv s0" "exec_inv s" "exec_evolves s0 s" "mem_get_effect s0 i = Inr e0"
    and step: "effect_step e0 e"
    and "hm_get (es_effects s) (ef_id e) = Some cur" "ef_revision cur = ef_revision e0"
    and "ef_revision e = ef_revision e0 + 1"
    and grow: "rows_evolve adv (es_runs s) runs'" "streams_evolve (event_stream s) str'"
    and review: "ef_state e = EffectNeedsReview \<Longrightarrow> RunEffectNeedsReview (ef_id e) \<in> event_kinds (str' (ef_run_id e))"
  shows "effects_ok (hm_insert (ef_id e) e (es_effects s)) runs' str'"
    and "rows_evolve effect_advances (es_effects s) (hm_insert (ef_id e) e (es_effects s))"
proof -
  have frame: "effect_frame e = effect_frame e0" using step by (rule effect_life.step_ident)
  then have i: "ef_id e = i" using mem_get_effect_id [OF assms(1,4)] by (simp add: effect_frame_def)
  have cur: "hm_get (es_effects s) i = Some e0"
    using effect_unchanged [OF assms(3,4)] assms(6,7) i by simp
  have e0: "hm_contains (es_runs s) (ef_run_id e)"
    "RunEffectPrepared i \<in> event_kinds (event_stream s (ef_run_id e))"
    using assms(2) cur frame by (auto simp: exec_inv_def effects_ok_def effect_frame_def)
  have "effects_ok (es_effects s) runs' str'"
    using assms(2) grow by (auto simp: exec_inv_def intro: effects_ok_mono)
  then show "effects_ok (hm_insert (ef_id e) e (es_effects s)) runs' str'"
    using rows_evolve_contains [OF grow(1) e0(1)] streams_evolve_kinds [OF grow(2) e0(2)] review
    by (intro effects_ok_insert) (simp_all add: i)
  show "rows_evolve effect_advances (es_effects s) (hm_insert (ef_id e) e (es_effects s))"
    using rows_evolve_step [OF cur] effect_life.advances_commit [OF step assms(8)] by (simp add: i)
qed

lemma mem_save_effect_ok:
  assumes "exec_inv s0" "exec_inv s" "exec_evolves s0 s" "mem_get_effect s0 i = Inr e0"
    and "effect_step e0 e" "ef_state e \<noteq> EffectNeedsReview"
    and "mem_save_effect s e (ef_revision e0) = Inr (x, s')"
  shows "exec_inv s' \<and> exec_evolves s s'"
proof -
  from assms(7) obtain cur where cur: "hm_get (es_effects s) (ef_id e) = Some cur"
    "ef_revision cur = ef_revision e0" "ef_revision e = ef_revision e0 + 1"
    and s': "s' = s\<lparr>es_effects := hm_insert (ef_id e) e (es_effects s)\<rparr>"
    by (auto simp: mem_save_effect_def result_simps)
  from effect_commit [OF assms(1-5) cur rows_evolve_refl streams_evolve_refl] assms(2,6) show ?thesis
    by (intro exec_update [OF assms(2)]) (simp_all add: s' exec_inv_def)
qed

lemma mem_interrupt_effect_ok:
  assumes "exec_inv s0" "exec_inv s1" "exec_inv s" "exec_evolves s0 s" "exec_evolves s1 s"
    and "mem_get_effect s0 i = Inr e0" "effect_step e0 e"
    and "mem_get_run s1 (ef_run_id e) = Inr r0" "run_transition r0 next now = Inr r"
    and evs: "map ne_kind evs = [RunEffectNeedsReview (ef_id e), RunStateChanged (run_state_of r0) next]"
    and "mem_interrupt_effect s e (ef_revision e0) r (run_revision r0) evs = Inr (x, s')"
  shows "exec_inv s' \<and> exec_evolves s s'"
proof -
  from assms(11) obtain cur rcur where ef: "hm_get (es_effects s) (ef_id e) = Some cur"
    "ef_revision cur = ef_revision e0" "ef_revision e = ef_revision e0 + 1"
    and run: "hm_get (es_runs s) (run_id_of r) = Some rcur" "run_revision rcur = run_revision r0"
      "run_revision r = run_revision r0 + 1"
    and s': "s' = append_events (s\<lparr>es_effects := hm_insert (ef_id e) e (es_effects s),
           es_runs := hm_insert (run_id_of r) r (es_runs s)\<rparr>) (run_id_of r) evs"
    by (auto simp: mem_interrupt_effect_def result_simps Let_def)
  have replay: "foldl replay_kind (Some (run_state_of r0)) (map ne_kind evs) = Some next"
    using assms(9) by (simp add: evs run_transition_Inr)
  note rc = run_commit [OF assms(2,3,5,8,9) run replay]
  have "RunEffectNeedsReview (ef_id e) \<in> ne_kind ` set evs"
    using arg_cong [OF evs, of set] by auto
  let ?str = "(event_stream s)(ef_run_id e := push_events (ef_run_id e) (event_stream s (ef_run_id e)) evs)"
  have review: "RunEffectNeedsReview (ef_id e) \<in> event_kinds (?str (ef_run_id e))"
    using \<open>RunEffectNeedsReview (ef_id e) \<in> ne_kind ` set evs\<close> by (simp add: event_kinds_push_events)
  note ec = effect_commit [where str' = ?str, OF assms(1,3,4,6,7) ef rc(3) streams_evolve_push review]
  from rc ec show ?thesis
    by (intro exec_update [OF assms(3)]) (simp_all add: s')
qed

end
