(* ===== verification/ExecutionServices.thy ===== *)
theory ExecutionServices
  imports ExecutionInvariants
begin

text \<open>
  The use cases over the execution store (grok-application, \<open>runs.rs\<close>, \<open>approvals.rs\<close>,
  \<open>effects.rs\<close>), as programs over the port: one \<open>try_read\<close> or \<open>try_write\<close> per awaited store
  call, one \<open>try_value\<close> per other \<open>?\<close>. The clock reading and the generated identifier of a
  request are arguments. The locale \<open>execution_port\<close> states what the use cases rely on; inside it
  every use case is shown safe under interleaving and its committed commands replayable. The
  interpretation on the in-memory store discharges the contract.
\<close>

section \<open>Store calls\<close>

definition try_value ::
  "application_error + 'b \<Rightarrow> ('b \<Rightarrow> ('s, application_error + 'a) prog) \<Rightarrow> ('s, application_error + 'a) prog"
where
  "try_value m k = (case m of Inl e \<Rightarrow> Done (Inl e) | Inr v \<Rightarrow> k v)"

definition try_read ::
  "('s \<Rightarrow> store_error + 'b) \<Rightarrow> ('b \<Rightarrow> ('s, application_error + 'a) prog) \<Rightarrow>
   ('s, application_error + 'a) prog" where
  "try_read f k =
     Call (\<lambda>s. s) (\<lambda>s. case f s of Inl e \<Rightarrow> Done (Inl (app_of_store e)) | Inr v \<Rightarrow> k v)"

definition try_write ::
  "('s \<Rightarrow> store_error + 'b \<times> 's) \<Rightarrow> ('b \<Rightarrow> ('s, application_error + 'a) prog) \<Rightarrow>
   ('s, application_error + 'a) prog" where
  "try_write f k =
     Call (\<lambda>s. case f s of Inl e \<Rightarrow> s | Inr (v, s') \<Rightarrow> s')
          (\<lambda>s. case f s of Inl e \<Rightarrow> Done (Inl (app_of_store e)) | Inr (v, s') \<Rightarrow> k v)"

lemma try_value_simps [simp]:
  "try_value (Inl e) k = Done (Inl e)"
  "try_value (Inr v) k = k v"
  by (simp_all add: try_value_def)

lemma exec_try_read [simp]:
  "exec_prog (try_read f k) s =
     (case f s of Inl e \<Rightarrow> (s, Inl (app_of_store e)) | Inr v \<Rightarrow> exec_prog (k v) s)"
  by (simp add: try_read_def split: sum.split)

lemma exec_try_write [simp]:
  "exec_prog (try_write f k) s =
     (case f s of Inl e \<Rightarrow> (s, Inl (app_of_store e)) | Inr (v, s') \<Rightarrow> exec_prog (k v) s')"
  by (simp add: try_write_def split: sum.split)

section \<open>Outcomes and keys\<close>

fun run_outcome :: "execution_mutation_outcome \<Rightarrow> application_error + run" where
  "run_outcome (OutcomeRun r) = Inr r"
| "run_outcome (OutcomeApproval _) =
     Inl (Storage (MsgText ''execution command returned an incompatible result''))"

fun approval_outcome :: "execution_mutation_outcome \<Rightarrow> application_error + approval" where
  "approval_outcome (OutcomeApproval a) = Inr a"
| "approval_outcome (OutcomeRun _) =
     Inl (Storage (MsgText ''execution command returned an incompatible result''))"

definition decided_approval_outcome :: "execution_mutation_outcome \<Rightarrow> application_error + approval" where
  "decided_approval_outcome outcome =
     and_then (approval_outcome outcome) (\<lambda>a.
       case ap_status a of
         ApprovalGranted \<Rightarrow> Inr a
       | ApprovalDenied \<Rightarrow> Inr a
       | ApprovalExpired \<Rightarrow> Inl (app_of_approval (ExpiredAt (ap_expires_at a)))
       | _ \<Rightarrow> Inl (Storage (MsgText ''approval decision command returned an invalid lifecycle result'')))"

fun work_backend_key :: "work_execution_backend \<Rightarrow> rstr" where
  "work_backend_key HostDirect = lit ''host_direct''"
| "work_backend_key IsolatedGuest = lit ''isolated_guest''"

fun run_state_key :: "run_state \<Rightarrow> rstr" where
  "run_state_key Queued = lit ''queued''"
| "run_state_key Planning = lit ''planning''"
| "run_state_key AwaitingApproval = lit ''awaiting_approval''"
| "run_state_key Running = lit ''running''"
| "run_state_key Paused = lit ''paused''"
| "run_state_key Completed = lit ''completed''"
| "run_state_key Failed = lit ''failed''"
| "run_state_key Cancelled = lit ''cancelled''"
| "run_state_key InterruptedNeedsReview = lit ''interrupted_needs_review''"

fun approval_scope_key :: "approval_scope \<Rightarrow> rstr \<times> rstr" where
  "approval_scope_key ScopeOnce = (lit ''once'', [])"
| "approval_scope_key ScopeRun = (lit ''run'', [])"
| "approval_scope_key (ScopeResource resource) = (lit ''resource'', resource)"

fun approval_risk_key :: "approval_risk \<Rightarrow> rstr" where
  "approval_risk_key RiskLow = lit ''low''"
| "approval_risk_key RiskElevated = lit ''elevated''"
| "approval_risk_key RiskHigh = lit ''high''"
| "approval_risk_key RiskCritical = lit ''critical''"

fun approval_decision_key :: "approval_decision \<Rightarrow> rstr" where
  "approval_decision_key DecisionGrant = lit ''grant''"
| "approval_decision_key DecisionDeny = lit ''deny''"

section \<open>Runs\<close>

record create_run_input =
  cr_project_id :: rstr
  cr_thread_id :: rstr

definition create_run_service ::
  "'s execution_store \<Rightarrow> hash \<Rightarrow> unix_millis \<Rightarrow> rstr \<Rightarrow> create_run_input \<Rightarrow> rstr \<Rightarrow>
   ('s, application_error + run) prog" where
  "create_run_service xs sha now generated input key =
     try_value (mutation_command_of sha (lit ''create_run'') key
                  [cr_project_id input, cr_thread_id input]) (\<lambda>command.
     try_read (\<lambda>s. xs_resolve xs s command) (\<lambda>prior.
     case prior of
       Some outcome \<Rightarrow> Done (run_outcome outcome)
     | None \<Rightarrow>
         try_value (map_err app_of_id (id_new generated)) (\<lambda>rid.
         try_value (map_err app_of_id (id_new (cr_project_id input))) (\<lambda>pid.
         try_value (map_err app_of_id (id_new (cr_thread_id input))) (\<lambda>tid.
         try_write (\<lambda>s. xs_create_run xs s
                      (run_queued (RunId rid) (ProjectId pid) (ThreadId tid) now)
                      \<lparr>ne_occurred_at = now, ne_kind = RunCreated\<rparr> command) (\<lambda>run.
         Done (Inr run)))))))"

definition create_work_service ::
  "'s execution_store \<Rightarrow> hash \<Rightarrow> unix_millis \<Rightarrow> rstr \<Rightarrow> create_run_input \<Rightarrow> work_execution_backend \<Rightarrow>
   rstr \<Rightarrow> ('s, application_error + run) prog" where
  "create_work_service xs sha now generated input backend key =
     try_value (mutation_command_of sha (lit ''create_work_run'') key
                  [cr_project_id input, cr_thread_id input, work_backend_key backend]) (\<lambda>command.
     try_read (\<lambda>s. xs_resolve xs s command) (\<lambda>prior.
     case prior of
       Some outcome \<Rightarrow> Done (run_outcome outcome)
     | None \<Rightarrow>
         try_value (map_err app_of_id (id_new generated)) (\<lambda>rid.
         try_value (map_err app_of_id (id_new (cr_project_id input))) (\<lambda>pid.
         try_value (map_err app_of_id (id_new (cr_thread_id input))) (\<lambda>tid.
         try_write (\<lambda>s. xs_create_run xs s
                      (run_queued_work (RunId rid) (ProjectId pid) (ThreadId tid) backend now)
                      \<lparr>ne_occurred_at = now, ne_kind = RunCreated\<rparr> command) (\<lambda>run.
         Done (Inr run)))))))"

definition transition_service ::
  "'s execution_store \<Rightarrow> hash \<Rightarrow> unix_millis \<Rightarrow> run_id \<Rightarrow> u64 \<Rightarrow> run_state \<Rightarrow> rstr \<Rightarrow>
   ('s, application_error + run) prog" where
  "transition_service xs sha now i expected_revision next key =
     try_value (mutation_command_of sha (lit ''transition_run'') key
                  [run_id_str i, u64_to_string expected_revision, run_state_key next]) (\<lambda>command.
     try_read (\<lambda>s. xs_resolve xs s command) (\<lambda>prior.
     case prior of
       Some outcome \<Rightarrow> Done (run_outcome outcome)
     | None \<Rightarrow>
         try_read (\<lambda>s. xs_get_run xs s i) (\<lambda>run.
         try_value (fail_if (run_revision run \<noteq> expected_revision) Conflict) (\<lambda>_.
         try_value (map_err app_of_transition (run_transition run next now)) (\<lambda>run'.
         try_write (\<lambda>s. xs_save_run xs s run' expected_revision
                      \<lparr>ne_occurred_at = run_updated_at run',
                       ne_kind = RunStateChanged (run_state_of run) next\<rparr> command) (\<lambda>saved.
         Done (Inr saved)))))))"

definition events_since_service ::
  "'s execution_store \<Rightarrow> run_id \<Rightarrow> u64 \<Rightarrow> nat \<Rightarrow> ('s, application_error + run_event list) prog" where
  "events_since_service xs i after_sequence limit =
     try_value (fail_if (\<not> (1 \<le> limit \<and> limit \<le> 1000))
                  (InvalidInput (MsgText ''event limit must be between 1 and 1000''))) (\<lambda>_.
     try_read (\<lambda>s. xs_events_since xs s i after_sequence limit) (\<lambda>events. Done (Inr events)))"

fun collect_pending ::
  "'s execution_store \<Rightarrow> run list \<Rightarrow> (run \<times> approval option) list \<Rightarrow>
   ('s, application_error + (run \<times> approval option) list) prog" where
  "collect_pending xs [] snapshots = Done (Inr snapshots)"
| "collect_pending xs (run # runs) snapshots =
     try_read (\<lambda>s. xs_pending_approval_for_run xs s (run_id_of run)) (\<lambda>approval.
     collect_pending xs runs (snapshots @ [(run, approval)]))"

definition list_host_work_service ::
  "'s execution_store \<Rightarrow> nat \<Rightarrow> thread_id option \<Rightarrow>
   ('s, application_error + (run \<times> approval option) list) prog" where
  "list_host_work_service xs limit thread =
     try_read (\<lambda>s. xs_list_host_work_runs xs s limit thread) (\<lambda>runs. collect_pending xs runs [])"

definition has_active_host_work_service ::
  "'s execution_store \<Rightarrow> ('s, application_error + bool) prog" where
  "has_active_host_work_service xs =
     try_read (\<lambda>s. xs_list_recoverable_host_runs xs s 1) (\<lambda>runs. Done (Inr (runs \<noteq> [])))"

section \<open>Approvals\<close>

record request_approval_input =
  rq_run_id :: run_id
  rq_expected_run_revision :: u64
  rq_action :: requested_action
  rq_scope :: approval_scope
  rq_expires_at :: u64

definition request_approval_service ::
  "'s execution_store \<Rightarrow> hash \<Rightarrow> unix_millis \<Rightarrow> rstr \<Rightarrow> request_approval_input \<Rightarrow> rstr \<Rightarrow>
   ('s, application_error + approval) prog" where
  "request_approval_service xs sha now generated input key =
     (let (scope, resource) = approval_scope_key (rq_scope input); action = rq_action input in
     try_value (mutation_command_of sha (lit ''request_approval'') key
                  [run_id_str (rq_run_id input), u64_to_string (rq_expected_run_revision input),
                   ra_action action, ra_target action, ra_data_summary action,
                   approval_risk_key (ra_risk action), scope, resource,
                   u64_to_string (rq_expires_at input)]) (\<lambda>command.
     try_read (\<lambda>s. xs_resolve xs s command) (\<lambda>prior.
     case prior of
       Some outcome \<Rightarrow> Done (approval_outcome outcome)
     | None \<Rightarrow>
         try_value (fail_if (rq_expires_at input \<le> now)
                      (InvalidInput (MsgText ''approval expiry must be in the future''))) (\<lambda>_.
         try_read (\<lambda>s. xs_get_run xs s (rq_run_id input)) (\<lambda>run.
         try_value (fail_if (run_revision run \<noteq> rq_expected_run_revision input) Conflict) (\<lambda>_.
         try_value (map_err app_of_transition (run_transition run AwaitingApproval now)) (\<lambda>run'.
         try_value (map_err app_of_id (id_new generated)) (\<lambda>aid.
         try_write (\<lambda>s. xs_create_approval xs s
                      (approval_pending (ApprovalId aid) (rq_run_id input) action (rq_scope input)
                         now (rq_expires_at input))
                      run' (rq_expected_run_revision input)
                      [\<lparr>ne_occurred_at = now,
                        ne_kind = RunStateChanged (run_state_of run) AwaitingApproval\<rparr>,
                       \<lparr>ne_occurred_at = now, ne_kind = RunApprovalRequested (ApprovalId aid)\<rparr>]
                      command) (\<lambda>approval.
         Done (Inr approval))))))))))"

definition decide_service ::
  "'s execution_store \<Rightarrow> hash \<Rightarrow> unix_millis \<Rightarrow> approval_id \<Rightarrow> u64 \<Rightarrow> approval_decision \<Rightarrow> rstr \<Rightarrow>
   ('s, application_error + approval) prog" where
  "decide_service xs sha now i expected_revision decision key =
     try_value (mutation_command_of sha (lit ''decide_approval'') key
                  [approval_id_str i, u64_to_string expected_revision,
                   approval_decision_key decision]) (\<lambda>command.
     try_read (\<lambda>s. xs_resolve xs s command) (\<lambda>prior.
     case prior of
       Some outcome \<Rightarrow> Done (decided_approval_outcome outcome)
     | None \<Rightarrow>
         try_read (\<lambda>s. xs_get_approval xs s i) (\<lambda>approval.
         try_value (fail_if (ap_revision approval \<noteq> expected_revision) Conflict) (\<lambda>_.
         let (approval', result) = approval_decide approval decision now in
         try_value (case result of
                      Inr _ \<Rightarrow> Inr False
                    | Inl (ExpiredAt _) \<Rightarrow> Inr True
                    | Inl error \<Rightarrow> Inl (app_of_approval error)) (\<lambda>expired.
         let next_run_state = (if decision = DecisionGrant \<and> \<not> expired then Running else Paused) in
         try_read (\<lambda>s. xs_get_run xs s (ap_run_id approval')) (\<lambda>run.
         try_value (map_err app_of_transition (run_transition run next_run_state now)) (\<lambda>run'.
         try_write (\<lambda>s. xs_decide_approval xs s approval' expected_revision
                      (Some (run', run_revision run,
                         \<lparr>ne_occurred_at = now,
                          ne_kind = RunStateChanged (run_state_of run) next_run_state\<rparr>))
                      command) (\<lambda>saved.
         if expired then Done (Inl (app_of_approval (ExpiredAt (ap_expires_at saved))))
         else Done (Inr saved)))))))))"

section \<open>Side effects\<close>

record prepare_effect_input =
  pe_run_id :: run_id
  pe_kind :: effect_kind
  pe_target :: rstr
  pe_idempotency :: idempotency

definition prepare_with_id_service ::
  "'s execution_store \<Rightarrow> unix_millis \<Rightarrow> prepare_effect_input \<Rightarrow> effect_id \<Rightarrow>
   ('s, application_error + side_effect) prog" where
  "prepare_with_id_service xs now input eid =
     try_read (\<lambda>s. xs_get_run xs s (pe_run_id input)) (\<lambda>run.
     try_value (fail_if (run_state_of run \<noteq> Running)
                  (InvalidState (MsgText ''side effects require a running run''))) (\<lambda>_.
     try_value (fail_if (str_trim (pe_target input) = [])
                  (InvalidInput (MsgText ''effect target cannot be empty''))) (\<lambda>_.
     let effect = effect_prepare eid (pe_run_id input) (pe_kind input) (pe_target input)
                    (pe_idempotency input) now in
     try_write (\<lambda>s. xs_create_effect xs s effect
                  \<lparr>ne_occurred_at = now, ne_kind = RunEffectPrepared eid\<rparr>) (\<lambda>_.
     Done (Inr effect)))))"

definition prepare_service ::
  "'s execution_store \<Rightarrow> unix_millis \<Rightarrow> rstr \<Rightarrow> prepare_effect_input \<Rightarrow>
   ('s, application_error + side_effect) prog" where
  "prepare_service xs now generated input =
     try_value (map_err app_of_id (id_new generated)) (\<lambda>eid.
     prepare_with_id_service xs now input (EffectId eid))"

definition start_service ::
  "'s execution_store \<Rightarrow> unix_millis \<Rightarrow> effect_id \<Rightarrow> u64 \<Rightarrow> ('s, application_error + side_effect) prog"
where
  "start_service xs now i expected_revision =
     try_read (\<lambda>s. xs_get_effect xs s i) (\<lambda>effect.
     try_value (fail_if (ef_revision effect \<noteq> expected_revision) Conflict) (\<lambda>_.
     try_value (map_err app_of_effect (effect_start effect now)) (\<lambda>effect'.
     try_write (\<lambda>s. xs_save_effect xs s effect' expected_revision) (\<lambda>_. Done (Inr effect')))))"

definition finish_service ::
  "'s execution_store \<Rightarrow> unix_millis \<Rightarrow> effect_id \<Rightarrow> u64 \<Rightarrow> bool \<Rightarrow>
   ('s, application_error + side_effect) prog" where
  "finish_service xs now i expected_revision succeeded =
     try_read (\<lambda>s. xs_get_effect xs s i) (\<lambda>effect.
     try_value (fail_if (ef_revision effect \<noteq> expected_revision) Conflict) (\<lambda>_.
     try_value (map_err app_of_effect (effect_finish effect succeeded now)) (\<lambda>effect'.
     try_write (\<lambda>s. xs_save_effect xs s effect' expected_revision) (\<lambda>_. Done (Inr effect')))))"

definition interrupt_service ::
  "'s execution_store \<Rightarrow> unix_millis \<Rightarrow> effect_id \<Rightarrow> u64 \<Rightarrow> ('s, application_error + side_effect) prog"
where
  "interrupt_service xs now i expected_revision =
     try_read (\<lambda>s. xs_get_effect xs s i) (\<lambda>effect.
     try_value (fail_if (ef_revision effect \<noteq> expected_revision) Conflict) (\<lambda>_.
     try_value (map_err app_of_effect (effect_interrupt effect now)) (\<lambda>effect'.
     try_read (\<lambda>s. xs_get_run xs s (ef_run_id effect')) (\<lambda>run.
     try_value (map_err app_of_transition (run_transition run InterruptedNeedsReview now)) (\<lambda>run'.
     try_write (\<lambda>s. xs_interrupt_effect xs s effect' expected_revision run' (run_revision run)
                  [\<lparr>ne_occurred_at = now, ne_kind = RunEffectNeedsReview (ef_id effect')\<rparr>,
                   \<lparr>ne_occurred_at = now,
                    ne_kind = RunStateChanged (run_state_of run) InterruptedNeedsReview\<rparr>]) (\<lambda>_.
     Done (Inr effect')))))))"

section \<open>Requests\<close>

datatype exec_request =
    ReqCreateRun create_run_input rstr
  | ReqCreateWork create_run_input work_execution_backend rstr
  | ReqTransition run_id u64 run_state rstr
  | ReqRequestApproval request_approval_input rstr
  | ReqDecide approval_id u64 approval_decision rstr
  | ReqPrepare prepare_effect_input
  | ReqPrepareWithId prepare_effect_input effect_id
  | ReqStart effect_id u64
  | ReqFinish effect_id u64 bool
  | ReqInterrupt effect_id u64
  | ReqEvents run_id u64 nat
  | ReqListHostWork nat "thread_id option"
  | ReqHasActiveHostWork

datatype exec_reply =
    ReplyRun run
  | ReplyApproval approval
  | ReplyEffect side_effect
  | ReplyEvents "run_event list"
  | ReplyHostWork "(run \<times> approval option) list"
  | ReplyActive bool

fun serve ::
  "'s execution_store \<Rightarrow> hash \<Rightarrow> exec_request \<times> unix_millis \<times> rstr \<Rightarrow>
   ('s, application_error + exec_reply) prog" where
  "serve xs sha (ReqCreateRun input key, now, generated) =
     map_prog (map_ok ReplyRun) (create_run_service xs sha now generated input key)"
| "serve xs sha (ReqCreateWork input backend key, now, generated) =
     map_prog (map_ok ReplyRun) (create_work_service xs sha now generated input backend key)"
| "serve xs sha (ReqTransition i revision next key, now, generated) =
     map_prog (map_ok ReplyRun) (transition_service xs sha now i revision next key)"
| "serve xs sha (ReqRequestApproval input key, now, generated) =
     map_prog (map_ok ReplyApproval) (request_approval_service xs sha now generated input key)"
| "serve xs sha (ReqDecide i revision decision key, now, generated) =
     map_prog (map_ok ReplyApproval) (decide_service xs sha now i revision decision key)"
| "serve xs sha (ReqPrepare input, now, generated) =
     map_prog (map_ok ReplyEffect) (prepare_service xs now generated input)"
| "serve xs sha (ReqPrepareWithId input i, now, generated) =
     map_prog (map_ok ReplyEffect) (prepare_with_id_service xs now input i)"
| "serve xs sha (ReqStart i revision, now, generated) =
     map_prog (map_ok ReplyEffect) (start_service xs now i revision)"
| "serve xs sha (ReqFinish i revision succeeded, now, generated) =
     map_prog (map_ok ReplyEffect) (finish_service xs now i revision succeeded)"
| "serve xs sha (ReqInterrupt i revision, now, generated) =
     map_prog (map_ok ReplyEffect) (interrupt_service xs now i revision)"
| "serve xs sha (ReqEvents i after_sequence limit, now, generated) =
     map_prog (map_ok ReplyEvents) (events_since_service xs i after_sequence limit)"
| "serve xs sha (ReqListHostWork limit thread, now, generated) =
     map_prog (map_ok ReplyHostWork) (list_host_work_service xs limit thread)"
| "serve xs sha (ReqHasActiveHostWork, now, generated) =
     map_prog (map_ok ReplyActive) (has_active_host_work_service xs)"

section \<open>The contract of the port\<close>

lemma decide_result_pending:
  "(case snd (approval_decide a d now) of
      Inr _ \<Rightarrow> Inr False | Inl (ExpiredAt _) \<Rightarrow> Inr True | Inl error \<Rightarrow> Inl (app_of_approval error)) = Inr expired \<Longrightarrow>
   ap_status a = ApprovalPending"
  by (rule ccontr) (simp add: approval_decide_decided)

context rely_guarantee
begin

lemma safe_value: "(\<And>v. m = Inr v \<Longrightarrow> safe I evolves s (k v)) \<Longrightarrow> safe I evolves s (try_value m k)"
  by (cases m) (simp_all add: safe_Done)

lemma safe_prior:
  "safe I evolves s p \<Longrightarrow> safe I evolves s (case prior of Some o' \<Rightarrow> Done (f o') | None \<Rightarrow> p)"
  by (cases prior) (simp_all add: safe_Done)

lemma safe_read:
  assumes "\<And>s' v. evolves s s' \<Longrightarrow> I s' \<Longrightarrow> f s' = Inr v \<Longrightarrow> safe I evolves s' (k v)"
  shows "safe I evolves s (try_read f k)"
  unfolding try_read_def
proof (rule safe_Call)
  fix s'
  assume "evolves s s'" "I s'"
  with assms evolves_refl
  show "I s' \<and> evolves s' s' \<and>
    safe I evolves s' (case f s' of Inl e \<Rightarrow> Done (Inl (app_of_store e)) | Inr v \<Rightarrow> k v)"
    by (cases "f s'") (simp_all add: safe_Done)
qed

lemma safe_write:
  assumes "\<And>s' v s''. evolves s s' \<Longrightarrow> I s' \<Longrightarrow> f s' = Inr (v, s'') \<Longrightarrow> I s'' \<and> evolves s' s''"
    and "\<And>s v. safe I evolves s (k v)"
  shows "safe I evolves s (try_write f k)"
  unfolding try_write_def
proof (rule safe_Call)
  fix s'
  assume s': "evolves s s'" "I s'"
  let ?t = "case f s' of Inl e \<Rightarrow> s' | Inr (v, s'') \<Rightarrow> s''"
  show "I ?t \<and> evolves s' ?t \<and> safe I evolves ?t
      (case f s' of Inl e \<Rightarrow> Done (Inl (app_of_store e)) | Inr (v, s'') \<Rightarrow> k v)"
  proof (cases "f s'")
    case (Inr p)
    obtain v s'' where "p = (v, s'')" by (cases p)
    with Inr assms(1) [OF s'] assms(2) show ?thesis by simp
  qed (use s' evolves_refl in \<open>simp add: safe_Done\<close>)
qed

end

locale execution_port = rely_guarantee I evolves
  for I :: "'s \<Rightarrow> bool" and evolves :: "'s \<Rightarrow> 's \<Rightarrow> bool" +
  fixes xs :: "'s execution_store"
  assumes create_run:
    "xs_create_run xs s r ev c = Inr (x, s') \<Longrightarrow> run_init r \<Longrightarrow> ne_kind ev = RunCreated \<Longrightarrow> I s \<Longrightarrow>
     I s' \<and> evolves s s'"
    and save_run:
    "xs_save_run xs s r revision ev c = Inr (x, s') \<Longrightarrow> xs_get_run xs s0 i = Inr r0 \<Longrightarrow>
     run_revision r0 = revision \<Longrightarrow>
     run_transition r0 next now = Inr r \<Longrightarrow> ne_kind ev = RunStateChanged (run_state_of r0) next \<Longrightarrow>
     I s0 \<Longrightarrow> I s \<Longrightarrow> evolves s0 s \<Longrightarrow> I s' \<and> evolves s s'"
    and create_approval:
    "xs_create_approval xs s a r revision evs c = Inr (y, s') \<Longrightarrow> xs_get_run xs s0 i = Inr r0 \<Longrightarrow>
     run_revision r0 = revision \<Longrightarrow>
     run_transition r0 AwaitingApproval now = Inr r \<Longrightarrow>
     a = approval_pending aid i request scope now expires_at \<Longrightarrow>
     map ne_kind evs = [RunStateChanged (run_state_of r0) AwaitingApproval, RunApprovalRequested aid] \<Longrightarrow>
     I s0 \<Longrightarrow> I s \<Longrightarrow> evolves s0 s \<Longrightarrow> I s' \<and> evolves s s'"
    and decide_approval:
    "xs_decide_approval xs s a revision (Some (r, run_revision r0, ev)) c = Inr (y, s') \<Longrightarrow>
     xs_get_approval xs s0 j = Inr a0 \<Longrightarrow> ap_revision a0 = revision \<Longrightarrow>
     ap_status a0 = ApprovalPending \<Longrightarrow> a = fst (approval_decide a0 d now) \<Longrightarrow>
     xs_get_run xs s1 (ap_run_id a) = Inr r0 \<Longrightarrow> run_transition r0 next now = Inr r \<Longrightarrow>
     ne_kind ev = RunStateChanged (run_state_of r0) next \<Longrightarrow>
     I s0 \<Longrightarrow> I s1 \<Longrightarrow> I s \<Longrightarrow> evolves s0 s \<Longrightarrow> evolves s1 s \<Longrightarrow> I s' \<and> evolves s s'"
    and create_effect:
    "xs_create_effect xs s e ev = Inr (u, s') \<Longrightarrow> e = effect_prepare eid rid kind target idem now \<Longrightarrow>
     ne_kind ev = RunEffectPrepared eid \<Longrightarrow> I s \<Longrightarrow> I s' \<and> evolves s s'"
    and save_effect:
    "xs_save_effect xs s e revision = Inr (u, s') \<Longrightarrow> xs_get_effect xs s0 k = Inr e0 \<Longrightarrow>
     ef_revision e0 = revision \<Longrightarrow>
     effect_step e0 e \<Longrightarrow> ef_state e \<noteq> EffectNeedsReview \<Longrightarrow>
     I s0 \<Longrightarrow> I s \<Longrightarrow> evolves s0 s \<Longrightarrow> I s' \<and> evolves s s'"
    and interrupt_effect:
    "xs_interrupt_effect xs s e revision r (run_revision r0) evs = Inr (u, s') \<Longrightarrow>
     xs_get_effect xs s0 k = Inr e0 \<Longrightarrow> ef_revision e0 = revision \<Longrightarrow> effect_step e0 e \<Longrightarrow>
     xs_get_run xs s1 (ef_run_id e) = Inr r0 \<Longrightarrow> run_transition r0 next now = Inr r \<Longrightarrow>
     map ne_kind evs = [RunEffectNeedsReview (ef_id e), RunStateChanged (run_state_of r0) next] \<Longrightarrow>
     I s0 \<Longrightarrow> I s1 \<Longrightarrow> I s \<Longrightarrow> evolves s0 s \<Longrightarrow> evolves s1 s \<Longrightarrow> I s' \<and> evolves s s'"
begin

lemmas safe_rules = safe_value safe_read safe_write safe_prior safe_Done

lemma safe_create_run: "safe I evolves s (create_run_service xs sha now generated input key)"
  unfolding create_run_service_def
  by (intro safe_rules) (rule create_run, assumption, rule run_init.chat, simp, assumption)

lemma safe_create_work: "safe I evolves s (create_work_service xs sha now generated input backend key)"
  unfolding create_work_service_def
  by (intro safe_rules) (rule create_run, assumption, rule run_init.work, simp, assumption)

lemma safe_transition: "safe I evolves s (transition_service xs sha now i expected next key)"
  unfolding transition_service_def
  by (intro safe_rules; simp only: fail_if_Inr map_err_Inr not_not)
     (rule save_run, (assumption | simp only: new_run_event.select_convs)+)

lemma safe_request_approval: "safe I evolves s (request_approval_service xs sha now generated input key)"
  unfolding request_approval_service_def Let_def split_beta
  by (intro safe_rules; simp only: fail_if_Inr map_err_Inr not_not)
     (rule create_approval, (assumption | rule refl | simp only: new_run_event.select_convs list.map)+)

lemma effect_move_step:
  "effect_start e now = Inr e' \<Longrightarrow> effect_step e e' \<and> ef_state e' \<noteq> EffectNeedsReview"
  "effect_finish e b now = Inr e' \<Longrightarrow> effect_step e e' \<and> ef_state e' \<noteq> EffectNeedsReview"
  "effect_interrupt e now = Inr e' \<Longrightarrow> effect_step e e'"
  using effect_step.apply_op [of effect_op.OpStart e now e'] effect_step.apply_op [of "effect_op.OpFinish b" e now e']
    effect_step.apply_op [of effect_op.OpInterrupt e now e']
  by (auto simp: effect_ops effect_move_to_Inr)

lemma safe_start: "safe I evolves s (start_service xs now i expected)"
  unfolding start_service_def
  by (intro safe_rules; simp only: fail_if_Inr map_err_Inr not_not; drule effect_move_step(1))
     (rule save_effect, (assumption | simp)+)

lemma safe_finish: "safe I evolves s (finish_service xs now i expected succeeded)"
  unfolding finish_service_def
  by (intro safe_rules; simp only: fail_if_Inr map_err_Inr not_not; drule effect_move_step(2))
     (rule save_effect, (assumption | simp)+)

lemma safe_interrupt: "safe I evolves s (interrupt_service xs now i expected)"
  unfolding interrupt_service_def
  by (intro safe_rules; simp only: fail_if_Inr map_err_Inr not_not; drule effect_move_step(3))
     (rule interrupt_effect, (assumption | simp only: new_run_event.select_convs list.map
        | (rule evolves_trans, assumption, assumption))+)

lemma safe_if: "safe I evolves s p \<Longrightarrow> safe I evolves s q \<Longrightarrow> safe I evolves s (if b then p else q)"
  by simp

lemma safe_decide: "safe I evolves s (decide_service xs sha now i expected decision key)"
  unfolding decide_service_def Let_def split_beta
  by (intro safe_rules safe_if; simp only: fail_if_Inr map_err_Inr not_not; drule decide_result_pending)
     (rule decide_approval, (assumption | rule refl | simp only: new_run_event.select_convs
        | (rule evolves_trans, assumption, assumption))+)

lemma safe_prepare_with_id: "safe I evolves s (prepare_with_id_service xs now input eid)"
  unfolding prepare_with_id_service_def Let_def
  by (intro safe_rules) (rule create_effect, assumption, rule refl, simp, assumption)

lemma safe_prepare: "safe I evolves s (prepare_service xs now generated input)"
  unfolding prepare_service_def by (intro safe_rules safe_prepare_with_id)

lemma safe_collect_pending: "safe I evolves s (collect_pending xs runs acc)"
proof (induction runs arbitrary: s acc)
  case (Cons r runs)
  show ?case by (simp add: safe_read Cons.IH)
qed (simp add: safe_Done)

lemma safe_reads:
  "safe I evolves s (events_since_service xs i after_sequence limit)"
  "safe I evolves s (list_host_work_service xs limit thread)"
  "safe I evolves s (has_active_host_work_service xs)"
  unfolding events_since_service_def list_host_work_service_def has_active_host_work_service_def
  by (intro safe_rules safe_collect_pending)+

text \<open>Every request is safe in every state, so invariant and evolution hold under interleaving.\<close>

lemma safe_serve: "safe I evolves s (serve xs sha req)"
proof -
  obtain r now generated where req: "req = (r, now, generated)" by (cases req) auto
  show ?thesis
    unfolding req
    by (cases r)
       (simp_all add: safe_map safe_create_run safe_create_work safe_transition
          safe_request_approval safe_decide safe_prepare safe_prepare_with_id safe_start safe_finish
          safe_interrupt safe_reads)
qed

lemma interleaved:
  assumes "(pool_step (serve xs sha))\<^sup>*\<^sup>* (s, ps) (t, qs)"
    and "I s" and "\<forall>p \<in> set ps. safe I evolves s p"
  shows "I t \<and> evolves s t \<and> (\<forall>p \<in> set qs. safe I evolves t p)"
  using pool_steps_safe [OF assms(1) safe_serve assms(2,3)] .

lemma alone:
  assumes "I s"
  shows "I (fst (exec_prog (serve xs sha req) s)) \<and> evolves s (fst (exec_prog (serve xs sha req) s))"
  using safe_exec [OF safe_serve assms] .

end

lemma mem_execution_store_fields [simp]:
  "xs_resolve mem_execution_store = prior_execution_command"
  "xs_create_run mem_execution_store = mem_create_run"
  "xs_get_run mem_execution_store = mem_get_run"
  "xs_save_run mem_execution_store = mem_save_run"
  "xs_create_approval mem_execution_store = mem_create_approval"
  "xs_get_approval mem_execution_store = mem_get_approval"
  "xs_decide_approval mem_execution_store = mem_decide_approval"
  "xs_create_effect mem_execution_store = mem_create_effect"
  "xs_get_effect mem_execution_store = mem_get_effect"
  "xs_save_effect mem_execution_store = mem_save_effect"
  "xs_interrupt_effect mem_execution_store = mem_interrupt_effect"
  "xs_list_recoverable_host_effects mem_execution_store = mem_list_recoverable_host_effects"
  "xs_list_recoverable_host_runs mem_execution_store = mem_list_recoverable_host_runs"
  "xs_list_host_work_runs mem_execution_store = mem_list_host_work_runs"
  "xs_pending_approval_for_run mem_execution_store = mem_pending_approval_for_run"
  "xs_events_since mem_execution_store = mem_events_since"
  by (simp_all add: mem_execution_store_def)

interpretation mem: execution_port exec_inv exec_evolves mem_execution_store
proof (unfold_locales, unfold mem_execution_store_fields, goal_cases)
  case (1 s r ev c x s')
  then show ?case by (intro mem_create_run_ok)
next
  case (2 s r revision ev c x s' s0 i r0 "next" now)
  then show ?case using mem_save_run_ok [of s0 s i r0 "next" now r ev c x s'] by simp
next
  case (3 s a r revision evs c y s' s0 i r0 now aid request scope expires_at)
  then show ?case
    using mem_create_approval_ok [of s0 s i r0 now r a aid request scope expires_at evs c y s'] by simp
next
  case (4 s a revision r r0 ev c y s' s0 j a0 d now s1 "next")
  then show ?case
    using mem_decide_approval_ok [of s0 s1 s j a0 a d now r0 "next" now r ev c y s'] by simp
next
  case (5 s e ev u s' eid rid kind target idem now)
  then show ?case by (intro mem_create_effect_ok)
next
  case (6 s e revision u s' s0 k e0)
  then show ?case using mem_save_effect_ok [of s0 s k e0 e u s'] by simp
next
  case (7 s e revision r r0 evs u s' s0 k e0 s1 "next" now)
  then show ?case using mem_interrupt_effect_ok [of s0 s1 s k e0 e r0 "next" now r evs u s'] by simp
qed

end
