(* ===== verification/ExecutionProperties.thy ===== *)
theory ExecutionProperties
  imports ExecutionServices
begin

text \<open>
  What the run, approval and effect use cases guarantee on the in-memory store, under any
  interleaving of any number of requests: the audit log replays to the stored state, rows only
  advance, commands replay, conflicting writers lose, and recovery reads are complete.
\<close>

abbreviation exec_pool_steps ::
  "hash \<Rightarrow> exec_state \<times> (exec_state, application_error + exec_reply) prog list \<Rightarrow>
   exec_state \<times> (exec_state, application_error + exec_reply) prog list \<Rightarrow> bool" where
  "exec_pool_steps sha \<equiv> (pool_step (serve mem_execution_store sha))\<^sup>*\<^sup>*"

definition exec_reachable ::
  "hash \<Rightarrow> exec_state \<Rightarrow> (exec_state, application_error + exec_reply) prog list \<Rightarrow> bool" where
  "exec_reachable sha s ps \<longleftrightarrow> exec_pool_steps sha (exec_empty, []) (s, ps)"

lemma exec_inv_empty: "exec_inv exec_empty"
  by (simp add: exec_inv_def exec_empty_def runs_ok_def approvals_ok_def effects_ok_def event_stream_def)

lemma reachable_safe:
  assumes "exec_reachable sha s ps"
  shows "exec_inv s \<and> (\<forall>p \<in> set ps. safe exec_inv exec_evolves s p)"
  using mem.interleaved [OF assms [unfolded exec_reachable_def] exec_inv_empty] by simp

lemma reachable_evolves:
  assumes "exec_reachable sha s ps" and "exec_pool_steps sha (s, ps) (t, qs)"
  shows "exec_inv t \<and> exec_evolves s t"
  using mem.interleaved [OF assms(2)] reachable_safe [OF assms(1)] by blast

lemma sequences_from_stream_ok:
  assumes "stream_ok i es" and "length es < 2 ^ 64"
  shows "map (\<lambda>e. unat (ev_sequence e)) es = [1 ..< length es + 1]"
proof (rule nth_equalityI)
  fix k
  assume "k < length (map (\<lambda>e. unat (ev_sequence e)) es)"
  then have k: "k < length es" by simp
  with assms have "ev_sequence (es ! k) = sat_succ (u64_of_usize k)" by (simp add: stream_ok_def)
  moreover have "unat (u64_of_usize k) = k" using k assms(2) by (intro unat_u64_of_usize) simp
  ultimately have "unat (ev_sequence (es ! k)) = Suc k"
    using k assms(2) by (simp add: unat_sat_succ)
  with k show "map (\<lambda>e. unat (ev_sequence e)) es ! k = [1 ..< length es + 1] ! k"
    by (simp add: nth_upt del: upt_Suc)
qed (simp del: upt_Suc)

text \<open>C1. Whatever requests run concurrently, the audit log of every stored run is complete and
  trustworthy: its sequence numbers are \<open>1, 2, 3, ...\<close> without gaps, and replaying the recorded
  transitions from the creation event, each along a legal edge, gives exactly the stored state.\<close>

theorem audit_log_replays_to_run:
  assumes "exec_reachable sha s ps" and "hm_get (es_runs s) i = Some r"
    and "length (event_stream s i) < 2 ^ 64"
  shows "replay_state (event_stream s i) = Some (run_state_of r) \<and>
         map (\<lambda>e. unat (ev_sequence e)) (event_stream s i) = [1 ..< length (event_stream s i) + 1]"
proof -
  have "exec_inv s" using reachable_safe [OF assms(1)] by blast
  then have "replay_state (event_stream s i) = Some (run_state_of r)" "stream_ok i (event_stream s i)"
    using assms(2) by (auto simp: exec_inv_def runs_ok_def)
  with sequences_from_stream_ok assms(3) show ?thesis by blast
qed

lemma pool_exec:
  "exec_pool_steps sha (s, ps @ [p]) (fst (exec_prog p s), ps @ [Done (snd (exec_prog p s))])"
proof (induction p arbitrary: s rule: prog.induct)
  case (Call u k)
  have "pool_step (serve mem_execution_store sha) (s, ps @ [Call u k])
      (u s, (ps @ [Call u k])[length ps := k s])"
    by (rule pool_step.call) simp_all
  then have "pool_step (serve mem_execution_store sha) (s, ps @ [Call u k]) (u s, ps @ [k s])"
    by simp
  from converse_rtranclp_into_rtranclp [of "pool_step (serve mem_execution_store sha)", OF this]
    Call.IH [of "k s" "u s"] show ?case by simp
qed simp

lemma reachable_exec:
  assumes "exec_reachable sha s ps" and "exec_prog (serve mem_execution_store sha req) s = (t, reply)"
  shows "exec_reachable sha t (ps @ [Done reply])"
proof -
  have "exec_pool_steps sha (s, ps) (s, ps @ [serve mem_execution_store sha req])"
    by (blast intro: pool_step.spawn)
  moreover have "exec_pool_steps sha (s, ps @ [serve mem_execution_store sha req]) (t, ps @ [Done reply])"
    using pool_exec [of sha s ps "serve mem_execution_store sha req"] assms(2) by simp
  ultimately show ?thesis using assms(1) unfolding exec_reachable_def by (meson rtranclp_trans)
qed

lemma exec_map_prog: "exec_prog (map_prog f p) s = map_prod id f (exec_prog p s)"
  by (induction p arbitrary: s rule: prog.induct) simp_all

lemmas exec_eval = Let_def exec_map_prog mutation_command_of_def mutation_command_bytes_def
  create_run_service_def create_work_service_def transition_service_def request_approval_service_def
  decide_service_def prepare_with_id_service_def start_service_def interrupt_service_def
  prior_execution_command_def mem_create_run_def mem_get_run_def mem_save_run_def
  mem_create_approval_def mem_get_approval_def mem_decide_approval_def mem_check_run_update_def
  mem_create_effect_def mem_get_effect_def mem_save_effect_def mem_interrupt_effect_def
  append_events_def event_stream_def push_event_def record_execution_command_def
  hm_contains_def id_new_def str_len_Cons utf8_width_def char_is_control_def

definition sample_create :: "exec_request \<times> unix_millis \<times> rstr" where
  "sample_create = (ReqCreateRun \<lparr>cr_project_id = lit ''p'', cr_thread_id = lit ''t''\<rparr> (lit ''k1''), 5, lit ''r'')"

definition sample_run :: run where
  "sample_run = run_queued (RunId (lit ''r'')) (ProjectId (lit ''p'')) (ThreadId (lit ''t'')) 5"

definition sample_store :: "hash \<Rightarrow> exec_state" where
  "sample_store sha =
     \<lparr>es_runs = [(RunId (lit ''r''), sample_run)], es_approvals = [], es_effects = [],
      es_events = [(RunId (lit ''r''),
        [\<lparr>ev_sequence = 1, ev_run_id = RunId (lit ''r''), ev_occurred_at = 5, ev_kind = RunCreated\<rparr>])],
      es_commands = [((lit ''create_run'', lit ''k1''),
        \<lparr>ec_fingerprint = sha (command_preimage (lit ''create_run'') [str_bytes (lit ''p''), str_bytes (lit ''t'')]),
         ec_outcome = OutcomeRun sample_run\<rparr>)]\<rparr>"

lemma sample_create_run:
  "exec_prog (serve mem_execution_store sha sample_create) exec_empty = (sample_store sha, Inr (ReplyRun sample_run))"
  by (simp add: sample_create_def sample_store_def sample_run_def exec_empty_def exec_eval run_queued_def
        u64_of_usize_def)

lemma sample_reachable: "exec_reachable sha (sample_store sha) [Done (Inr (ReplyRun sample_run))]"
proof -
  have "exec_reachable sha exec_empty []" by (simp add: exec_reachable_def)
  from reachable_exec [OF this sample_create_run] show ?thesis by simp
qed

theorem audit_log_replays_to_run_witness:
  "replay_state (event_stream (sample_store (\<lambda>_. [])) (RunId (lit ''r''))) = Some Queued"
  using audit_log_replays_to_run [OF sample_reachable [of "\<lambda>_. []"], of "RunId (lit ''r'')"]
  by (simp add: sample_store_def event_stream_def sample_run_def run_queued_def)

text \<open>C11. No request ever loses or rewrites history: from any reachable point on, whatever is
  interleaved, a stored run stays stored, moves only along its lifecycle, keeps its identity and
  backend, its revision never falls and identifies its content, and its log is only extended.\<close>

theorem run_history_append_only:
  assumes "exec_reachable sha s ps" and "exec_pool_steps sha (s, ps) (t, qs)"
    and "hm_get (es_runs s) i = Some r"
  shows "\<exists>r' xs. hm_get (es_runs t) i = Some r' \<and> run_steps r r' \<and> run_frame r' = run_frame r \<and>
           run_revision r \<le> run_revision r' \<and> (run_revision r' = run_revision r \<longrightarrow> r' = r) \<and>
           event_stream t i = event_stream s i @ xs"
proof -
  have ev: "exec_evolves s t" using reachable_evolves [OF assms(1,2)] by blast
  obtain r' where r': "hm_get (es_runs t) i = Some r'" "run_advances\<^sup>*\<^sup>* r r'"
    using evolves_run [OF ev assms(3)] .
  have "run_steps r r'" using r'(2) by (rule run_life.advances_steps)
  moreover have "run_revision r' = run_revision r \<longrightarrow> r' = r"
    using run_life.advances_same_revision [OF r'(2)] by blast
  moreover obtain xs where "event_stream t i = event_stream s i @ xs"
    using ev by (auto simp: exec_evolves_def streams_evolve_def)
  ultimately show ?thesis
    using r'(1) run_life.steps_ident run_life.steps_revision_mono by blast
qed

theorem run_history_append_only_witness:
  "\<exists>r'. hm_get (es_runs (sample_store (\<lambda>_. []))) (RunId (lit ''r'')) = Some r' \<and> run_frame r' = run_frame sample_run"
  using run_history_append_only [OF sample_reachable [of "\<lambda>_. []"] rtranclp.rtrancl_refl,
      of "RunId (lit ''r'')" sample_run]
  by (auto simp: sample_store_def)

text \<open>C12. Optimistic concurrency loses no update: once a transition was committed against a
  revision, every later attempt to commit any other change of that run against the same revision
  is refused with \<open>Conflict\<close>, however much happened in between.\<close>

theorem no_lost_update:
  assumes "mem_save_run s r revision ev c = Inr (x, s1)"
    and "hm_get (es_commands s) (mc_scope c, mc_key c) = None"
    and "exec_evolves s1 s2" and "revision \<noteq> - 1"
    and "run_id_of r2 = run_id_of r" and "hm_get (es_commands s2) (mc_scope c2, mc_key c2) = None"
  shows "mem_save_run s2 r2 revision ev2 c2 = Inl StoreConflict"
proof -
  have "run_revision r = revision + 1" and "hm_get (es_runs s1) (run_id_of r) = Some r"
    using assms(1,2) by (auto simp: mem_save_run_def result_simps prior_execution_command_def Let_def)
  moreover obtain r' where r': "hm_get (es_runs s2) (run_id_of r) = Some r'" "run_advances\<^sup>*\<^sup>* r r'"
    using evolves_run [OF assms(3) calculation(2)] .
  ultimately have "revision < run_revision r'"
    using run_life.steps_revision_mono [OF run_life.advances_steps [OF r'(2)]] sat_succ_gt [OF assms(4)] assms(4)
    by (simp add: sat_succ_eq)
  then have "run_revision r' \<noteq> revision" by auto
  with r'(1) assms(5,6) show ?thesis
    by (simp add: mem_save_run_def prior_execution_command_def)
qed

definition sample_moved :: run where
  "sample_moved = sample_run\<lparr>run_state_of := Planning, run_revision := 1, run_updated_at := 6\<rparr>"

theorem no_lost_update_witness:
  "\<exists>x s1. mem_save_run (sample_store (\<lambda>_. [])) sample_moved 0 \<lparr>ne_occurred_at = 6, ne_kind = RunStateChanged Queued Planning\<rparr>
       \<lparr>mc_scope = lit ''transition_run'', mc_key = lit ''a'', mc_fingerprint = []\<rparr> = Inr (x, s1) \<and>
     mem_save_run s1 sample_moved 0 \<lparr>ne_occurred_at = 7, ne_kind = RunStateChanged Queued Cancelled\<rparr>
       \<lparr>mc_scope = lit ''transition_run'', mc_key = lit ''b'', mc_fingerprint = []\<rparr> = Inl StoreConflict"
proof -
  let ?c = "\<lparr>mc_scope = lit ''transition_run'', mc_key = lit ''a'', mc_fingerprint = []\<rparr>"
  obtain s1 where s1: "mem_save_run (sample_store (\<lambda>_. [])) sample_moved 0
      \<lparr>ne_occurred_at = 6, ne_kind = RunStateChanged Queued Planning\<rparr> ?c = Inr (sample_moved, s1)"
    and fresh: "hm_get (es_commands s1) (lit ''transition_run'', lit ''b'') = None"
    by (simp add: exec_eval sample_store_def sample_moved_def sample_run_def run_queued_def)
  have "mem_save_run s1 sample_moved 0 \<lparr>ne_occurred_at = 7, ne_kind = RunStateChanged Queued Cancelled\<rparr>
       \<lparr>mc_scope = lit ''transition_run'', mc_key = lit ''b'', mc_fingerprint = []\<rparr> = Inl StoreConflict"
    using fresh by (intro no_lost_update [OF s1 _ exec_rg.evolves_refl]) (simp_all add: sample_store_def)
  with s1 show ?thesis by blast
qed

section \<open>Idempotent commands\<close>

lemma prior_recorded [simp]:
  "prior_execution_command (record_execution_command s c o') c = Inr (Some o')"
  by (simp add: prior_execution_command_def)

lemma prior_stable:
  "exec_evolves s t \<Longrightarrow> prior_execution_command s c = Inr (Some o') \<Longrightarrow>
   prior_execution_command t c = Inr (Some o')"
  by (auto simp: prior_Some dest: evolves_command)

lemma recorded_create_run:
  "mem_create_run s r ev c = Inr (x, t) \<Longrightarrow> prior_execution_command t c = Inr (Some (OutcomeRun x))"
  unfolding mem_create_run_def
  by (erule journaledE, erule store_run_outcome.elims) (auto simp: result_simps Let_def)

lemma recorded_save_run:
  "mem_save_run s r revision ev c = Inr (x, t) \<Longrightarrow> prior_execution_command t c = Inr (Some (OutcomeRun x))"
  unfolding mem_save_run_def
  by (erule journaledE, erule store_run_outcome.elims) (auto simp: result_simps Let_def)

lemma recorded_create_approval:
  "mem_create_approval s a r revision evs c = Inr (x, t) \<Longrightarrow>
   prior_execution_command t c = Inr (Some (OutcomeApproval x))"
  unfolding mem_create_approval_def
  by (erule journaledE, erule store_approval_outcome.elims) (auto simp: result_simps Let_def)

lemma recorded_decide_approval:
  assumes "mem_decide_approval s a revision upd c = Inr (x, t)" "prior_execution_command s c = Inr None"
  shows "x = a \<and> prior_execution_command t c = Inr (Some (OutcomeApproval a))"
  using assms(1) unfolding mem_decide_approval_def
  by (rule journaledE) (use assms(2) in \<open>auto simp: result_simps Let_def\<close>)

text \<open>The command a keyed request carries, and the reply its recorded outcome stands for.\<close>

fun request_command :: "hash \<Rightarrow> exec_request \<Rightarrow> (application_error + mutation_command) option" where
  "request_command sha (ReqCreateRun input key) =
     Some (mutation_command_of sha (lit ''create_run'') key [cr_project_id input, cr_thread_id input])"
| "request_command sha (ReqCreateWork input backend key) =
     Some (mutation_command_of sha (lit ''create_work_run'') key
       [cr_project_id input, cr_thread_id input, work_backend_key backend])"
| "request_command sha (ReqTransition i revision next key) =
     Some (mutation_command_of sha (lit ''transition_run'') key
       [run_id_str i, u64_to_string revision, run_state_key next])"
| "request_command sha (ReqRequestApproval input key) =
     (let (scope, resource) = approval_scope_key (rq_scope input); action = rq_action input in
      Some (mutation_command_of sha (lit ''request_approval'') key
        [run_id_str (rq_run_id input), u64_to_string (rq_expected_run_revision input),
         ra_action action, ra_target action, ra_data_summary action,
         approval_risk_key (ra_risk action), scope, resource, u64_to_string (rq_expires_at input)]))"
| "request_command sha (ReqDecide i revision decision key) =
     Some (mutation_command_of sha (lit ''decide_approval'') key
       [approval_id_str i, u64_to_string revision, approval_decision_key decision])"
| "request_command sha _ = None"

fun request_outcome :: "exec_request \<Rightarrow> execution_mutation_outcome \<Rightarrow> application_error + exec_reply" where
  "request_outcome (ReqRequestApproval input key) o' = map_ok ReplyApproval (approval_outcome o')"
| "request_outcome (ReqDecide i revision decision key) o' = map_ok ReplyApproval (decided_approval_outcome o')"
| "request_outcome _ o' = map_ok ReplyRun (run_outcome o')"

text \<open>A call that changed the store or returned a value passed every check on its way.\<close>

lemma try_valueE:
  assumes "exec_prog (try_value m k) s = (t, reply)" "t \<noteq> s \<or> is_ok reply"
  obtains v where "m = Inr v" "exec_prog (k v) s = (t, reply)"
  using assms by (cases m) auto

lemma try_readE:
  assumes "exec_prog (try_read f k) s = (t, reply)" "t \<noteq> s \<or> is_ok reply"
  obtains v where "f s = Inr v" "exec_prog (k v) s = (t, reply)"
  using assms by (cases "f s") auto

lemma try_writeE:
  assumes "exec_prog (try_write f k) s = (t, reply)" "t \<noteq> s \<or> is_ok reply"
  obtains v s' where "f s = Inr (v, s')" "exec_prog (k v) s' = (t, reply)"
  using assms by (cases "f s") auto

lemma journal_readE:
  assumes "exec_prog (try_value m (\<lambda>c. try_read (\<lambda>s. prior_execution_command s c) (\<lambda>prior.
      case prior of Some o' \<Rightarrow> Done (f o') | None \<Rightarrow> k c))) s = (t, reply)" "t \<noteq> s \<or> is_ok reply"
  obtains (replayed) c o' where "m = Inr c" "prior_execution_command t c = Inr (Some o')" "f o' = reply" "t = s"
    | (committed) c where "m = Inr c" "prior_execution_command s c = Inr None" "exec_prog (k c) s = (t, reply)"
proof -
  obtain c where c: "m = Inr c" "exec_prog (try_read (\<lambda>s. prior_execution_command s c) (\<lambda>prior.
      case prior of Some o' \<Rightarrow> Done (f o') | None \<Rightarrow> k c)) s = (t, reply)"
    using assms by (rule try_valueE)
  obtain prior where prior: "prior_execution_command s c = Inr prior"
    "exec_prog (case prior of Some o' \<Rightarrow> Done (f o') | None \<Rightarrow> k c) s = (t, reply)"
    using c(2) assms(2) by (rule try_readE)
  show thesis
  proof (cases prior)
    case None
    with prior show thesis by (intro committed [OF c(1)]) simp_all
  next
    case (Some o')
    with prior have "t = s" "f o' = reply" "prior_execution_command s c = Inr (Some o')" by auto
    with c(1) show thesis by (intro replayed) simp_all
  qed
qed

lemmas service_elims = try_valueE try_readE try_writeE

lemma recorded_create_service:
  assumes "exec_prog (create_run_service mem_execution_store sha now generated input key) s = (t, reply)"
    and ok: "t \<noteq> s \<or> is_ok reply"
  shows "\<exists>c o'. request_command sha (ReqCreateRun input key) = Some (Inr c) \<and>
           prior_execution_command t c = Inr (Some o') \<and> run_outcome o' = reply"
  using assms(1) ok unfolding create_run_service_def mem_execution_store_fields
proof (cases rule: journal_readE)
  case (committed c)
  from committed(3) ok show ?thesis
    by (elim service_elims) (use committed(1) in \<open>auto dest: recorded_create_run\<close>)
qed auto

lemma recorded_create_work_service:
  assumes "exec_prog (create_work_service mem_execution_store sha now generated input backend key) s = (t, reply)"
    and ok: "t \<noteq> s \<or> is_ok reply"
  shows "\<exists>c o'. request_command sha (ReqCreateWork input backend key) = Some (Inr c) \<and>
           prior_execution_command t c = Inr (Some o') \<and> run_outcome o' = reply"
  using assms(1) ok unfolding create_work_service_def mem_execution_store_fields
proof (cases rule: journal_readE)
  case (committed c)
  from committed(3) ok show ?thesis
    by (elim service_elims) (use committed(1) in \<open>auto dest: recorded_create_run\<close>)
qed auto

lemma recorded_transition_service:
  assumes "exec_prog (transition_service mem_execution_store sha now i revision next key) s = (t, reply)"
    and ok: "t \<noteq> s \<or> is_ok reply"
  shows "\<exists>c o'. request_command sha (ReqTransition i revision next key) = Some (Inr c) \<and>
           prior_execution_command t c = Inr (Some o') \<and> run_outcome o' = reply"
  using assms(1) ok unfolding transition_service_def mem_execution_store_fields
proof (cases rule: journal_readE)
  case (committed c)
  from committed(3) ok show ?thesis
    by (elim service_elims) (use committed(1) in \<open>auto dest: recorded_save_run\<close>)
qed auto

lemma recorded_request_approval_service:
  assumes "exec_prog (request_approval_service mem_execution_store sha now generated input key) s = (t, reply)"
    and ok: "t \<noteq> s \<or> is_ok reply"
  shows "\<exists>c o'. request_command sha (ReqRequestApproval input key) = Some (Inr c) \<and>
           prior_execution_command t c = Inr (Some o') \<and> approval_outcome o' = reply"
  using assms(1) ok unfolding request_approval_service_def mem_execution_store_fields Let_def split_beta
proof (cases rule: journal_readE)
  case (committed c)
  from committed(3) ok show ?thesis
    by (elim service_elims)
       (use committed(1) in \<open>auto simp: Let_def split_beta dest: recorded_create_approval\<close>)
qed (auto simp: Let_def split_beta)

lemma decided_outcome:
  assumes "(case snd (approval_decide a d now) of Inr _ \<Rightarrow> Inr False | Inl (ExpiredAt _) \<Rightarrow> Inr True
      | Inl error \<Rightarrow> Inl (app_of_approval error)) = Inr expired"
  shows "decided_approval_outcome (OutcomeApproval (fst (approval_decide a d now))) =
    (if expired then Inl (app_of_approval (ExpiredAt (ap_expires_at (fst (approval_decide a d now)))))
     else Inr (fst (approval_decide a d now)))"
  using assms decide_result_pending [OF assms]
  by (cases "ap_expires_at a < now"; cases d)
     (simp_all add: approval_decide_def decided_approval_outcome_def)

text \<open>The committed path of a decision: what was read, what was stored, what is answered.\<close>

lemma decide_service_commit:
  assumes "exec_prog (decide_service mem_execution_store sha now i revision decision key) s = (t, reply)"
    and ok: "t \<noteq> s \<or> is_ok reply"
  obtains (replayed) c o' where "request_command sha (ReqDecide i revision decision key) = Some (Inr c)"
      "prior_execution_command t c = Inr (Some o')" "decided_approval_outcome o' = reply" "t = s"
    | (committed) c a a' r r' st ev where
      "request_command sha (ReqDecide i revision decision key) = Some (Inr c)"
      "prior_execution_command s c = Inr None"
      "mem_get_approval s i = Inr a" "ap_revision a = revision" "ap_status a = ApprovalPending"
      "a' = fst (approval_decide a decision now)"
      "mem_get_run s (ap_run_id a') = Inr r"
      "st = (if ap_status a' = ApprovalGranted then Running else Paused)"
      "run_transition r st now = Inr r'"
      "mem_decide_approval s a' revision (Some (r', run_revision r, ev)) c = Inr (a', t)"
      "decided_approval_outcome (OutcomeApproval a') = reply"
  using assms(1) ok unfolding decide_service_def mem_execution_store_fields Let_def split_beta
proof (cases rule: journal_readE)
  case (committed c)
  from committed(3) ok show thesis
  proof (elim service_elims)
    fix a u expired r r' v s'
    let ?a = "fst (approval_decide a decision now)"
      and ?st = "if decision = DecisionGrant \<and> \<not> expired then Running else Paused"
    assume a: "mem_get_approval s i = Inr a"
      and u: "fail_if (ap_revision a \<noteq> revision) Conflict = Inr u"
      and expired: "(case snd (approval_decide a decision now) of Inr _ \<Rightarrow> Inr False
        | Inl (ExpiredAt _) \<Rightarrow> Inr True | Inl error \<Rightarrow> Inl (app_of_approval error)) = Inr expired"
      and r: "mem_get_run s (ap_run_id ?a) = Inr r"
      and r': "map_err app_of_transition (run_transition r ?st now) = Inr r'"
      and w: "mem_decide_approval s ?a revision (Some (r', run_revision r,
        \<lparr>ne_occurred_at = now, ne_kind = RunStateChanged (run_state_of r) ?st\<rparr>)) c = Inr (v, s')"
      and k: "exec_prog (if expired then Done (Inl (app_of_approval (ExpiredAt (ap_expires_at v))))
        else Done (Inr v)) s' = (t, reply)"
    have v: "v = ?a" using recorded_decide_approval [OF w committed(2)] by blast
    have "?st = (if ap_status ?a = ApprovalGranted then Running else Paused)"
      using expired decide_result_pending [OF expired]
      by (cases "ap_expires_at a < now"; cases decision) (simp_all add: approval_decide_def)
    moreover have "s' = t" using k by (auto split: if_splits)
    moreover have "decided_approval_outcome (OutcomeApproval ?a) = reply"
      using decided_outcome [OF expired] k v by (auto split: if_splits)
    ultimately show thesis
      using that(2) [of c a ?a r ?st r'] committed(1,2) a u r r' w v decide_result_pending [OF expired]
      by (simp add: fail_if_Inr map_err_Inr)
  qed
qed (use that(1) in simp)

lemma decide_stored:
  assumes "mem_decide_approval s a revision (Some (r, rr, ev)) c = Inr (x, t)"
    and "prior_execution_command s c = Inr None"
  shows "hm_get (es_approvals t) (ap_id a) = Some a \<and> hm_get (es_runs t) (run_id_of r) = Some r \<and>
    ap_revision a = revision + 1"
  using assms(1) unfolding mem_decide_approval_def
  by (rule journaledE) (use assms(2) in \<open>auto simp: result_simps Let_def\<close>)

lemma recorded_decide_service:
  assumes "exec_prog (decide_service mem_execution_store sha now i revision decision key) s = (t, reply)"
    and "t \<noteq> s \<or> is_ok reply"
  shows "\<exists>c o'. request_command sha (ReqDecide i revision decision key) = Some (Inr c) \<and>
           prior_execution_command t c = Inr (Some o') \<and> decided_approval_outcome o' = reply"
  using assms
proof (cases rule: decide_service_commit)
  case (committed c a a' r r' st ev)
  then show ?thesis using recorded_decide_approval by blast
qed blast

lemma map_ok_eq_is_ok: "is_ok (map_ok f m) \<longleftrightarrow> is_ok m"
  by (cases m) simp_all

lemma recorded_serve:
  assumes "request_command sha r \<noteq> None"
    and "exec_prog (serve mem_execution_store sha (r, now, generated)) s = (t, reply)"
    and "t \<noteq> s \<or> is_ok reply"
  shows "\<exists>c o'. request_command sha r = Some (Inr c) \<and> prior_execution_command t c = Inr (Some o') \<and>
           request_outcome r o' = reply"
proof (cases r)
  case (ReqCreateRun input key)
  with assms recorded_create_service [of sha now generated input key s t] show ?thesis
    by (fastforce simp: exec_map_prog map_prod_def map_ok_eq_is_ok split: prod.splits)
next
  case (ReqCreateWork input backend key)
  with assms recorded_create_work_service [of sha now generated input backend key s t] show ?thesis
    by (fastforce simp: exec_map_prog map_prod_def map_ok_eq_is_ok split: prod.splits)
next
  case (ReqTransition i revision st key)
  with assms recorded_transition_service [of sha now i revision st key s t] show ?thesis
    by (fastforce simp: exec_map_prog map_prod_def map_ok_eq_is_ok split: prod.splits)
next
  case (ReqRequestApproval input key)
  with assms recorded_request_approval_service [of sha now generated input key s t] show ?thesis
    by (fastforce simp: exec_map_prog map_prod_def map_ok_eq_is_ok split: prod.splits)
next
  case (ReqDecide i revision decision key)
  with assms recorded_decide_service [of sha now i revision decision key s t] show ?thesis
    by (fastforce simp: exec_map_prog map_prod_def map_ok_eq_is_ok split: prod.splits)
qed (use assms(1) in simp_all)

lemma serve_journal:
  assumes "request_command sha r = Some (Inr c)"
  shows "prior_execution_command s c = Inr (Some o') \<Longrightarrow>
      exec_prog (serve mem_execution_store sha (r, now, generated)) s = (s, request_outcome r o')"
    and "prior_execution_command s c = Inl e \<Longrightarrow>
      exec_prog (serve mem_execution_store sha (r, now, generated)) s = (s, Inl (app_of_store e))"
  using assms
  by (cases r; simp add: exec_map_prog create_run_service_def create_work_service_def
        transition_service_def request_approval_service_def decide_service_def Let_def split_beta)+

lemma reachable_after_exec:
  assumes "exec_reachable sha s ps" and "exec_prog (serve mem_execution_store sha req) s = (s1, reply)"
    and "exec_pool_steps sha (s1, ps) (s2, qs)"
  shows "exec_evolves s1 s2"
proof -
  have inv: "exec_inv s" and ps: "\<forall>p \<in> set ps. safe exec_inv exec_evolves s p"
    using reachable_safe [OF assms(1)] by blast+
  have "exec_inv s1" "exec_evolves s s1" using mem.alone [OF inv, of sha req] assms(2) by simp_all
  moreover from this ps exec_rg.safe_mono have "\<forall>p \<in> set ps. safe exec_inv exec_evolves s1 p" by blast
  ultimately show ?thesis using mem.interleaved [OF assms(3)] by blast
qed



lemma run_state_key_str: "str_valid (run_state_key st)" "str_len (run_state_key st) < 2 ^ 64"
  by (cases st; simp add: str_valid_def str_len_Cons utf8_width_def)+

lemmas key_strings = u64_to_string_valid u64_to_string_len run_state_key_str

lemma run_state_key_inj: "run_state_key a = run_state_key b \<longleftrightarrow> a = b"
  by (cases a; cases b) simp_all

lemma prior_reused_key:
  assumes "prior_execution_command s c = Inr (Some o')" "mc_scope c' = mc_scope c" "mc_key c' = mc_key c"
    and "mc_fingerprint c' \<noteq> mc_fingerprint c"
  shows "prior_execution_command s c' = Inl StoreConflict"
  using assms by (auto simp: prior_execution_command_def split: option.splits if_splits)

abbreviation transition_preimage :: "run_id \<Rightarrow> u64 \<Rightarrow> run_state \<Rightarrow> u8 list" where
  "transition_preimage i revision st \<equiv> command_preimage (lit ''transition_run'')
     (map str_bytes [run_id_str i, u64_to_string revision, run_state_key st])"

lemma transition_preimage_inj:
  assumes "str_valid (run_id_str i)" "str_valid (run_id_str i')"
    and "str_len (run_id_str i) < 2 ^ 64" "str_len (run_id_str i') < 2 ^ 64"
    and "transition_preimage i revision st = transition_preimage i' revision' st'"
  shows "i = i' \<and> revision = revision' \<and> st = st'"
proof -
  have "map str_bytes [run_id_str i, u64_to_string revision, run_state_key st] =
        map str_bytes [run_id_str i', u64_to_string revision', run_state_key st']"
    by (rule command_preimage_inj [OF _ _ _ _ assms(5), THEN conjunct2])
       (use assms(3,4) key_strings in \<open>simp_all add: str_len_Cons utf8_width_def flip: str_len_bytes\<close>)
  then have eqs: "str_bytes (run_id_str i) = str_bytes (run_id_str i')"
    "str_bytes (u64_to_string revision) = str_bytes (u64_to_string revision')"
    "str_bytes (run_state_key st) = str_bytes (run_state_key st')"
    by simp_all
  from str_bytes_inj [OF assms(1,2) eqs(1)]
    str_bytes_inj [OF u64_to_string_valid u64_to_string_valid eqs(2)]
    str_bytes_inj [OF run_state_key_str(1) run_state_key_str(1) eqs(3)]
  show ?thesis by (simp add: u64_to_string_inj run_state_key_inj run_id.expand)
qed

text \<open>C13. An idempotency key cannot be reused for a different transition: after a transition was
  committed under a key, the same key with another run, revision or target state is answered with
  \<open>Conflict\<close> and changes nothing, provided SHA-256 does not collide on the two inputs.\<close>

theorem reused_key_conflicts:
  assumes "exec_reachable sha s ps"
    and "exec_prog (serve mem_execution_store sha (ReqTransition i revision st key, now, generated)) s = (s1, reply)"
    and "s1 \<noteq> s \<or> is_ok reply"
    and "exec_pool_steps sha (s1, ps) (s2, qs)"
    and "(i', revision', st') \<noteq> (i, revision, st)"
    and "str_valid (run_id_str i)" "str_valid (run_id_str i')"
    and "str_len (run_id_str i) < 2 ^ 64" "str_len (run_id_str i') < 2 ^ 64"
    and no_collision: "sha (transition_preimage i revision st) = sha (transition_preimage i' revision' st') \<Longrightarrow>
      transition_preimage i revision st = transition_preimage i' revision' st'"
  shows "exec_prog (serve mem_execution_store sha (ReqTransition i' revision' st' key, now', generated')) s2
    = (s2, Inl Conflict)"
proof -
  obtain c o' where c: "request_command sha (ReqTransition i revision st key) = Some (Inr c)"
    "prior_execution_command s1 c = Inr (Some o')"
    using recorded_serve [OF _ assms(2,3)] by auto
  then have stored: "prior_execution_command s2 c = Inr (Some o')"
    using reachable_after_exec [OF assms(1,2,4)] by (blast intro: prior_stable)
  obtain c' where c': "request_command sha (ReqTransition i' revision' st' key) = Some (Inr c')"
    and keys: "mc_scope c' = mc_scope c" "mc_key c' = mc_key c"
    and fp: "mc_fingerprint c = sha (transition_preimage i revision st)"
      "mc_fingerprint c' = sha (transition_preimage i' revision' st')"
    using c(1) by (auto simp: mutation_command_of_def mutation_command_bytes_def split: if_splits)
  have "mc_fingerprint c' \<noteq> mc_fingerprint c"
  proof
    assume "mc_fingerprint c' = mc_fingerprint c"
    then have "transition_preimage i revision st = transition_preimage i' revision' st'"
      by (intro no_collision) (simp only: fp)
    from transition_preimage_inj [OF assms(6-9) this] assms(5) show False by simp
  qed
  from prior_reused_key [OF stored keys this] serve_journal(2) [OF c'] show ?thesis by simp
qed

lemma sample_transition:
  "\<exists>s1. exec_prog (serve mem_execution_store sha
       (ReqTransition (RunId (lit ''r'')) 0 Planning (lit ''k2''), 6, [])) (sample_store sha)
     = (s1, Inr (ReplyRun sample_moved))"
  by (simp add: exec_eval sample_store_def sample_run_def sample_moved_def run_queued_def run_transition_def)

theorem reused_key_conflicts_witness:
  "\<exists>s1. exec_prog (serve mem_execution_store id
       (ReqTransition (RunId (lit ''r'')) 0 Planning (lit ''k2''), 6, [])) (sample_store id)
     = (s1, Inr (ReplyRun sample_moved)) \<and>
   exec_prog (serve mem_execution_store id
       (ReqTransition (RunId (lit ''r'')) 0 Cancelled (lit ''k2''), 7, [])) s1 = (s1, Inl Conflict)"
proof -
  obtain s1 where s1: "exec_prog (serve mem_execution_store id
       (ReqTransition (RunId (lit ''r'')) 0 Planning (lit ''k2''), 6, [])) (sample_store id)
     = (s1, Inr (ReplyRun sample_moved))" using sample_transition by blast
  have "exec_prog (serve mem_execution_store id
       (ReqTransition (RunId (lit ''r'')) 0 Cancelled (lit ''k2''), 7, [])) s1 = (s1, Inl Conflict)"
    by (rule reused_key_conflicts [OF sample_reachable s1 _ rtranclp.rtrancl_refl])
       (simp_all add: str_valid_def str_len_Cons utf8_width_def)
  with s1 show ?thesis by blast
qed

section \<open>Effects and approvals\<close>

text \<open>Requests served one after another are one of the interleavings.\<close>

definition exec_all :: "hash \<Rightarrow> (exec_request \<times> unix_millis \<times> rstr) list \<Rightarrow> exec_state \<Rightarrow> exec_state" where
  "exec_all sha reqs s = foldl (\<lambda>s req. fst (exec_prog (serve mem_execution_store sha req) s)) s reqs"

lemma reachable_exec_all:
  assumes "exec_reachable sha s ps"
  shows "\<exists>qs. exec_reachable sha (exec_all sha reqs s) qs"
  using assms
proof (induction reqs arbitrary: s ps)
  case (Cons req reqs)
  then show ?case
    using reachable_exec [OF Cons.prems prod.collapse [symmetric], of req]
    by (fastforce simp: exec_all_def)
qed (auto simp: exec_all_def)

definition sample_requests :: "(exec_request \<times> unix_millis \<times> rstr) list" where
  "sample_requests =
     [sample_create,
      (ReqTransition (RunId (lit ''r'')) 0 Planning (lit ''k2''), 6, []),
      (ReqTransition (RunId (lit ''r'')) 1 Running (lit ''k3''), 7, []),
      (ReqPrepareWithId \<lparr>pe_run_id = RunId (lit ''r''), pe_kind = FileWrite, pe_target = lit ''f'',
         pe_idempotency = NonIdempotent\<rparr> (EffectId (lit ''e'')), 8, []),
      (ReqRequestApproval \<lparr>rq_run_id = RunId (lit ''r''), rq_expected_run_revision = 2,
         rq_action = \<lparr>ra_action = lit ''w'', ra_target = lit ''f'', ra_data_summary = [], ra_risk = RiskHigh\<rparr>,
         rq_scope = ScopeOnce, rq_expires_at = 20\<rparr> (lit ''k4''), 9, lit ''a'')]"

definition sample_busy :: exec_state where
  "sample_busy = exec_all (\<lambda>_. []) sample_requests exec_empty"

lemma sample_busy_reachable: "\<exists>qs. exec_reachable (\<lambda>_. []) sample_busy qs"
  unfolding sample_busy_def
  by (rule reachable_exec_all [of _ _ "[]"]) (simp add: exec_reachable_def)

lemma sample_busy_rows:
  "hm_get (es_effects sample_busy) (EffectId (lit ''e'')) =
     Some (effect_prepare (EffectId (lit ''e'')) (RunId (lit ''r'')) FileWrite (lit ''f'') NonIdempotent 8)"
  "hm_get (es_approvals sample_busy) (ApprovalId (lit ''a'')) =
     Some (approval_pending (ApprovalId (lit ''a'')) (RunId (lit ''r''))
       \<lparr>ra_action = lit ''w'', ra_target = lit ''f'', ra_data_summary = [], ra_risk = RiskHigh\<rparr> ScopeOnce 9 20)"
  by (simp_all add: sample_busy_def sample_requests_def exec_all_def sample_create_def exec_empty_def exec_eval
        run_queued_def run_transition_def saturating_add_def str_trim_def char_is_whitespace_def
        effect_prepare_def approval_pending_def)

text \<open>C16. Persist before dispatch: in every reachable state, whatever is in flight, each recorded
  side effect belongs to a stored run whose audit log announces its intent, and an effect that
  needs review has its review event in the log.\<close>

theorem effect_intent_is_logged:
  assumes "exec_reachable sha s ps" and "hm_get (es_effects s) i = Some e"
  shows "hm_contains (es_runs s) (ef_run_id e) \<and>
         RunEffectPrepared i \<in> event_kinds (event_stream s (ef_run_id e)) \<and>
         (ef_state e = EffectNeedsReview \<longrightarrow> RunEffectNeedsReview i \<in> event_kinds (event_stream s (ef_run_id e)))"
  using reachable_safe [OF assms(1)] assms(2) by (auto simp: exec_inv_def effects_ok_def)

theorem effect_intent_is_logged_witness:
  "RunEffectPrepared (EffectId (lit ''e'')) \<in> event_kinds (event_stream sample_busy (RunId (lit ''r'')))"
proof -
  obtain qs where "exec_reachable (\<lambda>_. []) sample_busy qs" using sample_busy_reachable by blast
  from effect_intent_is_logged [OF this sample_busy_rows(1)] show ?thesis
    by (simp add: effect_prepare_def)
qed

text \<open>C15. Stored approvals are decided once and in time: in every reachable state an approval
  belongs to a stored run and was announced in its log; it is pending at revision 0 or decided at
  revision 1, and it is granted or denied only by a decision made no later than its deadline.\<close>

theorem stored_approvals_decided_in_time:
  assumes "exec_reachable sha s ps" and "hm_get (es_approvals s) i = Some a"
  shows "hm_contains (es_runs s) (ap_run_id a) \<and>
         RunApprovalRequested i \<in> event_kinds (event_stream s (ap_run_id a)) \<and>
         (case ap_decided_at a of
            None \<Rightarrow> ap_status a = ApprovalPending \<and> ap_revision a = 0
          | Some t \<Rightarrow> ap_revision a = 1 \<and>
              (if ap_expires_at a < t then ap_status a = ApprovalExpired
               else ap_status a \<in> {ApprovalGranted, ApprovalDenied}))"
  using reachable_safe [OF assms(1)] assms(2)
  by (auto simp: exec_inv_def approvals_ok_def approval_ok_def)

theorem stored_approvals_decided_in_time_witness:
  "RunApprovalRequested (ApprovalId (lit ''a'')) \<in> event_kinds (event_stream sample_busy (RunId (lit ''r'')))"
proof -
  obtain qs where "exec_reachable (\<lambda>_. []) sample_busy qs" using sample_busy_reachable by blast
  from stored_approvals_decided_in_time [OF this sample_busy_rows(2)] show ?thesis
    by (simp add: approval_pending_def)
qed

text \<open>C14. A decision settles the approval and its run in one commit: when deciding changes the
  store, the approval is stored decided with the next revision, and its run is stored as running
  exactly when the approval was granted and as paused otherwise, so a denied or expired checkpoint
  never strands its run awaiting approval.\<close>

theorem decision_settles_run:
  assumes "exec_reachable sha s ps"
    and "exec_prog (decide_service mem_execution_store sha now i revision decision key) s = (t, reply)"
    and "t \<noteq> s"
  shows "\<exists>a r. hm_get (es_approvals t) i = Some a \<and> ap_status a \<noteq> ApprovalPending \<and>
           ap_revision a = revision + 1 \<and> ap_decided_at a = Some now \<and>
           hm_get (es_runs t) (ap_run_id a) = Some r \<and>
           run_state_of r = (if ap_status a = ApprovalGranted then Running else Paused) \<and>
           (ap_status a = ApprovalGranted \<longleftrightarrow> decision = DecisionGrant \<and> now \<le> ap_expires_at a)"
  using assms(2) disjI1 [OF assms(3)]
proof (cases rule: decide_service_commit)
  case (committed c a a' r r' st ev)
  have inv: "exec_inv s" using reachable_safe [OF assms(1)] by blast
  have ids: "ap_id a' = i" "run_id_of r' = ap_run_id a'"
    using mem_get_approval_id [OF inv committed(3)] mem_get_run_id [OF inv committed(7)] committed(6,9)
    by (simp_all add: approval_decide_def run_transition_Inr split: approval_decision.splits)
  have stored: "hm_get (es_approvals t) i = Some a'" "hm_get (es_runs t) (ap_run_id a') = Some r'"
    "ap_revision a' = revision + 1"
    using decide_stored [OF committed(10,2)] ids by simp_all
  have "ap_decided_at a' = Some now \<and> ap_status a' \<noteq> ApprovalPending \<and>
      (ap_status a' = ApprovalGranted \<longleftrightarrow> decision = DecisionGrant \<and> now \<le> ap_expires_at a')"
    using committed(5) unfolding committed(6)
    by (cases "ap_expires_at a < now"; cases decision) (simp_all add: approval_decide_def)
  moreover have "run_state_of r' = (if ap_status a' = ApprovalGranted then Running else Paused)"
    using committed(8,9) by (simp add: run_transition_Inr)
  ultimately show ?thesis using stored by blast
qed (use assms(3) in simp)

theorem decision_settles_run_witness:
  "\<exists>r. hm_get (es_runs (fst (exec_prog (decide_service mem_execution_store (\<lambda>_. []) 30
       (ApprovalId (lit ''a'')) 0 DecisionGrant (lit ''k5'')) sample_busy))) (RunId (lit ''r'')) = Some r \<and>
     run_state_of r = Paused"
proof -
  let ?p = "decide_service mem_execution_store (\<lambda>_. []) 30 (ApprovalId (lit ''a'')) 0 DecisionGrant (lit ''k5'')"
  let ?t = "fst (exec_prog ?p sample_busy)"
  obtain qs where qs: "exec_reachable (\<lambda>_. []) sample_busy qs" using sample_busy_reachable by blast
  have changed: "hm_get (es_approvals ?t) (ApprovalId (lit ''a'')) =
      Some ((approval_pending (ApprovalId (lit ''a'')) (RunId (lit ''r''))
        \<lparr>ra_action = lit ''w'', ra_target = lit ''f'', ra_data_summary = [], ra_risk = RiskHigh\<rparr> ScopeOnce 9 20)
        \<lparr>ap_status := ApprovalExpired, ap_decided_at := Some 30, ap_revision := 1\<rparr>)"
    by (simp add: sample_busy_def sample_requests_def exec_all_def sample_create_def exec_empty_def exec_eval
        run_queued_def run_transition_def saturating_add_def str_trim_def char_is_whitespace_def
        effect_prepare_def approval_pending_def approval_decide_def)
  then have "?t \<noteq> sample_busy" using sample_busy_rows(2) by (auto simp: approval_pending_def)
  from decision_settles_run [OF qs prod.collapse [symmetric] this] changed show ?thesis
    by (auto simp: approval_pending_def)
qed

section \<open>Reading back\<close>

lemma filter_sequence_drop:
  assumes "map (\<lambda>e. unat (ev_sequence e)) es = [1 ..< length es + 1]" and "k < 2 ^ 64"
  shows "filter (\<lambda>e. of_nat k < ev_sequence e) es = drop k es"
proof -
  have *: "unat (of_nat k :: u64) = k" using assms(2) by (simp add: unat_of_nat)
  have nth: "unat (ev_sequence (es ! j)) = Suc j" if "j < length es" for j
    using arg_cong [OF assms(1), of "\<lambda>xs. xs ! j"] that by (simp add: nth_upt del: upt_Suc)
  have "filter (\<lambda>e. of_nat k < ev_sequence e) (take k es) = []"
    by (auto simp: filter_empty_conv in_set_conv_nth word_less_nat_alt * nth)
  moreover have "filter (\<lambda>e. of_nat k < ev_sequence e) (drop k es) = drop k es"
    by (auto simp: filter_id_conv in_set_conv_nth word_less_nat_alt * nth)
  ultimately show ?thesis
    by (metis append_Nil append_take_drop_id filter_append)
qed

text \<open>C17. Reconnecting loses and repeats nothing: reading the audit stream after cursor \<open>k\<close>
  returns exactly the next \<open>limit\<close> events, so successive pages concatenate to the whole log.\<close>

theorem events_since_is_next_page:
  assumes "exec_reachable sha s ps" and "hm_contains (es_runs s) i"
    and "length (event_stream s i) < 2 ^ 64" and "k < 2 ^ 64" and "1 \<le> limit" "limit \<le> 1000"
  shows "exec_prog (events_since_service mem_execution_store i (of_nat k) limit) s =
           (s, Inr (take limit (drop k (event_stream s i))))"
proof -
  obtain r where "hm_get (es_runs s) i = Some r" using assms(2) by (auto simp: hm_contains_def)
  then have "stream_ok i (event_stream s i)"
    using reachable_safe [OF assms(1)] by (auto simp: exec_inv_def runs_ok_def)
  from filter_sequence_drop [OF sequences_from_stream_ok [OF this assms(3)] assms(4)] assms(2,5,6)
  show ?thesis by (simp add: events_since_service_def mem_events_since_def)
qed

theorem events_since_is_next_page_witness:
  "exec_prog (events_since_service mem_execution_store (RunId (lit ''r'')) (of_nat 0) 10) (sample_store (\<lambda>_. []))
     = (sample_store (\<lambda>_. []), Inr (event_stream (sample_store (\<lambda>_. [])) (RunId (lit ''r''))))"
  by (subst events_since_is_next_page [OF sample_reachable])
     (simp_all add: sample_store_def hm_contains_def event_stream_def)

text \<open>C18. Restart recovery misses nothing: the check whether any Host-bound Work run is still
  active answers yes exactly when some stored run is bound to the host and not in a terminal
  state.\<close>

theorem has_active_host_work_complete:
  assumes "exec_reachable sha s ps"
  shows "exec_prog (has_active_host_work_service mem_execution_store) s =
    (s, Inr (\<exists>i r. hm_get (es_runs s) i = Some r \<and> is_work_bound_to r HostDirect \<and>
                 \<not> run_state_is_terminal (run_state_of r)))"
proof -
  have "hm_wf (es_runs s)" using reachable_safe [OF assms] by (auto simp: exec_inv_def runs_ok_def)
  then have vals: "v \<in> set (hm_values (es_runs s)) \<longleftrightarrow> (\<exists>i. hm_get (es_runs s) i = Some v)" for v
    by (rule hm_values_iff)
  have "(\<exists>i r. hm_get (es_runs s) i = Some r \<and> P r) \<longleftrightarrow> filter P (hm_values (es_runs s)) \<noteq> []" for P
    unfolding filter_empty_conv using vals by blast
  moreover have "take 1 xs \<noteq> [] \<longleftrightarrow> xs \<noteq> []" for xs :: "run list" by (cases xs) simp_all
  moreover have "sort_key f xs = [] \<longleftrightarrow> xs = []" for f :: "run \<Rightarrow> unix_millis \<times> run_id" and xs
    by (metis length_0_conv length_sort)
  ultimately show ?thesis
    by (simp add: has_active_host_work_service_def mem_list_recoverable_host_runs_def)
qed

theorem has_active_host_work_complete_witness:
  "exec_prog (has_active_host_work_service mem_execution_store) (sample_store (\<lambda>_. [])) = (sample_store (\<lambda>_. []), Inr False)"
  by (subst has_active_host_work_complete [OF sample_reachable])
     (simp add: sample_store_def sample_run_def run_queued_def is_work_bound_to_def)

section \<open>A race in effect preparation\<close>

definition race_input :: prepare_effect_input where
  "race_input = \<lparr>pe_run_id = RunId (lit ''r''), pe_kind = FileWrite, pe_target = lit ''f'',
     pe_idempotency = NonIdempotent\<rparr>"

definition race_effect :: side_effect where
  "race_effect = effect_prepare (EffectId (lit ''e'')) (RunId (lit ''r'')) FileWrite (lit ''f'') NonIdempotent 9"

definition race_commit :: "(exec_state, application_error + exec_reply) prog" where
  "race_commit = map_prog (map_ok ReplyEffect)
     (try_write (\<lambda>s. mem_create_effect s race_effect
        \<lparr>ne_occurred_at = 9, ne_kind = RunEffectPrepared (EffectId (lit ''e''))\<rparr>) (\<lambda>_. Done (Inr race_effect)))"

definition race_start :: exec_state where
  "race_start = exec_all (\<lambda>_. []) (take 3 sample_requests) exec_empty"

definition race_end :: exec_state where
  "race_end = exec_all (\<lambda>_. []) [(ReqTransition (RunId (lit ''r'')) 2 Completed (lit ''k9''), 8, [])] race_start"

lemmas race_eval = race_start_def race_end_def sample_requests_def exec_all_def sample_create_def exec_empty_def
  exec_eval run_queued_def run_transition_def saturating_add_def u64_of_usize_def

lemma race_read:
  "mem_get_run race_start (RunId (lit ''r'')) =
     Inr (sample_run\<lparr>run_state_of := Running, run_revision := 2, run_updated_at := 7\<rparr>)"
  by (simp add: race_eval sample_run_def)

lemma race_rows:
  "hm_get (es_runs race_end) (RunId (lit ''r'')) =
     Some (sample_run\<lparr>run_state_of := Completed, run_revision := 3, run_updated_at := 8\<rparr>)"
  "es_effects race_end = []"
  by (simp_all add: race_eval sample_run_def)

lemma race_prepare_pending:
  assumes "exec_reachable (\<lambda>_. []) race_start ps"
  shows "exec_reachable (\<lambda>_. []) race_start (ps @ [race_commit])"
proof -
  let ?req = "(ReqPrepareWithId race_input (EffectId (lit ''e'')), 9, [])"
  let ?p = "serve mem_execution_store (\<lambda>_. []) ?req"
  have "\<exists>k. ?p = Call (\<lambda>s. s) k \<and> k race_start = race_commit"
    using race_read
    by (simp add: prepare_with_id_service_def try_read_def race_input_def race_effect_def comp_def
          race_commit_def Let_def str_trim_def char_is_whitespace_def)
  then obtain k where p: "?p = Call (\<lambda>s. s) k" and k: "k race_start = race_commit" by blast
  have "pool_step (serve mem_execution_store (\<lambda>_. [])) (race_start, ps @ [?p])
      (race_start, (ps @ [?p])[length ps := k race_start])"
    by (rule pool_step.call [where u = "\<lambda>s. s"]) (simp_all only: p nth_append_length length_append_singleton lessI)
  then have "exec_pool_steps (\<lambda>_. []) (race_start, ps @ [?p]) (race_start, ps @ [race_commit])"
    by (simp only: k list_update_length r_into_rtranclp)
  moreover have "exec_pool_steps (\<lambda>_. []) (race_start, ps) (race_start, ps @ [?p])"
    by (blast intro: pool_step.spawn)
  ultimately show ?thesis using assms unfolding exec_reachable_def by (meson rtranclp_trans)
qed

text \<open>C26. Preparing an effect does not keep the run active: the check that the run is running and
  the commit of the intent are two store calls, and a run that completes between them ends with
  an effect prepared after its completion event.\<close>

theorem effect_prepared_after_completion:
  "\<exists>s ps r e. exec_reachable (\<lambda>_. []) s ps \<and>
     hm_get (es_runs s) (ef_run_id e) = Some r \<and> run_state_of r = Completed \<and>
     hm_get (es_effects s) (ef_id e) = Some e \<and> ef_state e = EffectPrepared \<and>
     map ev_kind (drop 3 (event_stream s (ef_run_id e))) =
       [RunStateChanged Running Completed, RunEffectPrepared (ef_id e)]"
proof -
  let ?serve = "serve mem_execution_store (\<lambda>_. [])"
  let ?req = "(ReqTransition (RunId (lit ''r'')) 2 Completed (lit ''k9''), 8, [])"
  let ?w = "\<lambda>s. mem_create_effect s race_effect
     \<lparr>ne_occurred_at = 9, ne_kind = RunEffectPrepared (EffectId (lit ''e''))\<rparr>"
  obtain ps where "exec_reachable (\<lambda>_. []) race_start ps"
    unfolding race_start_def using reachable_exec_all [of _ exec_empty "[]"] by (auto simp: exec_reachable_def)
  then have "exec_reachable (\<lambda>_. []) race_start (ps @ [race_commit])" by (rule race_prepare_pending)
  from reachable_exec [OF this prod.collapse [symmetric], of ?req]
  obtain q where q: "exec_reachable (\<lambda>_. []) race_end ((ps @ [race_commit]) @ [q])"
    unfolding race_end_def by (fastforce simp: exec_all_def)
  obtain t where t: "?w race_end = Inr ((), t)"
    using race_rows by (simp add: mem_create_effect_def race_effect_def effect_prepare_def hm_contains_def Let_def)
  have "\<exists>u k. race_commit = Call u k \<and> u race_end = t"
    using t by (simp add: race_commit_def try_write_def)
  then obtain u k where c: "race_commit = Call u k" and u: "u race_end = t" by blast
  have "pool_step ?serve (race_end, (ps @ [race_commit]) @ [q])
      (u race_end, ((ps @ [race_commit]) @ [q])[length ps := k race_end])"
    by (rule pool_step.call) (simp_all add: c nth_append)
  then have "exec_reachable (\<lambda>_. []) t (((ps @ [race_commit]) @ [q])[length ps := k race_end])"
    using q unfolding exec_reachable_def u by (rule rtranclp.rtrancl_into_rtrancl [rotated])
  moreover have "hm_get (es_runs t) (ef_run_id race_effect) =
      Some (sample_run\<lparr>run_state_of := Completed, run_revision := 3, run_updated_at := 8\<rparr>)"
    "hm_get (es_effects t) (ef_id race_effect) = Some race_effect"
    "map ev_kind (drop 3 (event_stream t (ef_run_id race_effect))) =
       [RunStateChanged Running Completed, RunEffectPrepared (ef_id race_effect)]"
    using t by (auto simp: race_effect_def effect_prepare_def race_eval sample_run_def)
  ultimately show ?thesis
    by (intro exI conjI) (assumption | simp add: race_effect_def effect_prepare_def)+
qed

end
