(* ===== verification/TurnEvents.thy ===== *)
theory TurnEvents
  imports ConversationTurns
begin

text \<open>
  The turn-local event stream (grok-domain, \<open>conversation.rs\<close>): the event kinds, their
  self-contained validation and the projection \<open>ConversationTurnEventLog\<close> that accepts events one
  by one. Lemmas: the accepted streams are exactly the numbered canonical streams of a turn
  state and its text chunks, and the events a log emits restore to the same log.
\<close>

section \<open>Events\<close>

datatype conversation_turn_event_kind =
    EventCreated
  | EventStateChanged conversation_turn_state conversation_turn_state
  | EventTextAppended u64 rstr

record conversation_turn_event =
  ce_sequence :: u64
  ce_turn_id :: conversation_turn_id
  ce_kind :: conversation_turn_event_kind

datatype conversation_turn_event_error =
    EventInvalidSequence
  | EventWrongTurn
  | EventInvalidOrder
  | EventInvalidTransition conversation_turn_state conversation_turn_state
  | EventInvalidText
  | EventInvalidTextOffset
  | EventTextLimitExceeded
  | EventLimitExceeded
  | EventSnapshotMismatch

fun validate_turn_event_kind ::
  "conversation_turn_event_kind \<Rightarrow> conversation_turn_event_error + unit" where
  "validate_turn_event_kind EventCreated = Inr ()"
| "validate_turn_event_kind (EventStateChanged s t) =
     (if turn_state_permits s t then Inr () else Inl (EventInvalidTransition s t))"
| "validate_turn_event_kind (EventTextAppended start text) =
     and_then (fail_if (text = [] \<or> max_conversation_text_chunk_bytes < str_len text \<or>
                        list_ex (\<lambda>c. c = 0 \<or>
                          (char_is_control c \<and> \<not> (c = 10 \<or> c = 13 \<or> c = 9))) text)
       EventInvalidText) (\<lambda>_.
     and_then (ok_or (u64_try_from (str_len text)) EventTextLimitExceeded) (\<lambda>text_length.
     and_then (ok_or (u64_try_from max_message_bytes) EventTextLimitExceeded) (\<lambda>maximum.
     and_then (fail_if (case checked_add start text_length of
                          None \<Rightarrow> True | Some end_offset \<Rightarrow> maximum < end_offset)
       EventTextLimitExceeded) (\<lambda>_.
     Inr ()))))"

definition turn_event_restore ::
  "conversation_turn_event \<Rightarrow> conversation_turn_event_error + conversation_turn_event" where
  "turn_event_restore e =
     and_then (fail_if (ce_sequence e = 0) EventInvalidSequence) (\<lambda>_.
     and_then (validate_turn_event_kind (ce_kind e)) (\<lambda>_.
     Inr e))"

section \<open>The projection\<close>

record turn_event_log =
  el_turn_id :: conversation_turn_id
  el_state :: "conversation_turn_state option"
  el_text :: rstr
  el_text_events :: nat
  el_last_sequence :: u64

definition event_log_new :: "conversation_turn_id \<Rightarrow> turn_event_log" where
  "event_log_new tid =
     \<lparr>el_turn_id = tid, el_state = None, el_text = [], el_text_events = 0, el_last_sequence = 0\<rparr>"

definition append_event_kind ::
  "turn_event_log \<Rightarrow> u64 \<Rightarrow> conversation_turn_event_kind \<Rightarrow>
   conversation_turn_event_error + turn_event_log" where
  "append_event_kind log sequence kind =
     (case kind of
        EventCreated \<Rightarrow>
          and_then (fail_if (el_state log \<noteq> None \<or> sequence \<noteq> 1) EventInvalidOrder) (\<lambda>_.
          Inr (log\<lparr>el_state := Some TurnReserved\<rparr>))
      | EventStateChanged s t \<Rightarrow>
          and_then (fail_if (el_state log \<noteq> Some s) EventInvalidOrder) (\<lambda>_.
          and_then (fail_if (\<not> turn_state_permits s t) (EventInvalidTransition s t)) (\<lambda>_.
          Inr (log\<lparr>el_state := Some t\<rparr>)))
      | EventTextAppended start text \<Rightarrow>
          and_then (fail_if (el_state log \<noteq> Some TurnProviderStarted) EventInvalidOrder) (\<lambda>_.
          and_then (fail_if (max_conversation_text_events \<le> el_text_events log)
            EventLimitExceeded) (\<lambda>_.
          and_then (ok_or (u64_try_from (str_len (el_text log))) EventTextLimitExceeded) (\<lambda>expected_offset.
          and_then (fail_if (start \<noteq> expected_offset) EventInvalidTextOffset) (\<lambda>_.
          and_then (ok_or (usize_checked_add (str_len (el_text log)) (str_len text))
            EventTextLimitExceeded) (\<lambda>new_length.
          and_then (fail_if (max_message_bytes < new_length) EventTextLimitExceeded) (\<lambda>_.
          Inr (log\<lparr>el_text := el_text log @ text, el_text_events := el_text_events log + 1\<rparr>))))))))"

definition event_log_append_event ::
  "turn_event_log \<Rightarrow> conversation_turn_event \<Rightarrow> conversation_turn_event_error + turn_event_log" where
  "event_log_append_event log event =
     and_then (turn_event_restore event) (\<lambda>event.
     and_then (fail_if (ce_turn_id event \<noteq> el_turn_id log) EventWrongTurn) (\<lambda>_.
     and_then (ok_or (checked_add (el_last_sequence log) 1) EventInvalidSequence) (\<lambda>expected_sequence.
     and_then (fail_if (ce_sequence event \<noteq> expected_sequence) EventInvalidSequence) (\<lambda>_.
     and_then (fail_if (case el_state log of None \<Rightarrow> False | Some s \<Rightarrow> turn_state_is_terminal s)
       EventInvalidOrder) (\<lambda>_.
     and_then (append_event_kind log (ce_sequence event) (ce_kind event)) (\<lambda>log.
     Inr (log\<lparr>el_last_sequence := ce_sequence event\<rparr>)))))))"

definition event_log_append_kind ::
  "turn_event_log \<Rightarrow> conversation_turn_event_kind \<Rightarrow>
   conversation_turn_event_error + (turn_event_log \<times> conversation_turn_event)" where
  "event_log_append_kind log kind =
     and_then (ok_or (checked_add (el_last_sequence log) 1) EventInvalidSequence) (\<lambda>sequence.
     let event = \<lparr>ce_sequence = sequence, ce_turn_id = el_turn_id log, ce_kind = kind\<rparr>
     in and_then (event_log_append_event log event) (\<lambda>log. Inr (log, event)))"

fun event_log_append_all ::
  "turn_event_log \<Rightarrow> conversation_turn_event list \<Rightarrow>
   conversation_turn_event_error + turn_event_log" where
  "event_log_append_all log [] = Inr log"
| "event_log_append_all log (e # es) =
     and_then (event_log_append_event log e) (\<lambda>log. event_log_append_all log es)"

definition event_log_restore ::
  "conversation_turn_id \<Rightarrow> conversation_turn_event list \<Rightarrow>
   conversation_turn_event_error + turn_event_log" where
  "event_log_restore tid events =
     and_then (event_log_append_all (event_log_new tid) events) (\<lambda>log.
     and_then (fail_if (el_state log = None) EventInvalidOrder) (\<lambda>_.
     Inr log))"

definition event_log_validate_snapshot ::
  "turn_event_log \<Rightarrow> conversation_turn \<Rightarrow> rstr option \<Rightarrow> conversation_turn_event_error + unit" where
  "event_log_validate_snapshot log turn assistant_text =
     and_then (fail_if (el_turn_id log \<noteq> ct_id turn \<or> el_state log \<noteq> Some (ct_state turn))
       EventSnapshotMismatch) (\<lambda>_.
     (case ct_state turn of
        TurnCompleted \<Rightarrow>
          fail_if (el_text log = [] \<or> assistant_text \<noteq> Some (el_text log)) EventSnapshotMismatch
      | _ \<Rightarrow> fail_if (assistant_text \<noteq> None) EventSnapshotMismatch))"

definition event_log_next_utf8_offset :: "turn_event_log \<Rightarrow> u64" where
  "event_log_next_utf8_offset log =
     (case u64_try_from (str_len (el_text log)) of None \<Rightarrow> - 1 | Some n \<Rightarrow> n)"

section \<open>The canonical stream of a turn\<close>

text \<open>
  The reference the projection is compared with: the events a turn in state \<open>s\<close> with the text
  chunks \<open>cs\<close> has, each chunk at the byte offset where the previous ones end, numbered from one.
\<close>

fun chunk_events :: "nat \<Rightarrow> rstr list \<Rightarrow> conversation_turn_event_kind list" where
  "chunk_events offset [] = []"
| "chunk_events offset (c # cs) =
     EventTextAppended (of_nat offset) c # chunk_events (offset + str_len c) cs"

definition stream_kinds ::
  "conversation_turn_state \<Rightarrow> rstr list \<Rightarrow> conversation_turn_event_kind list" where
  "stream_kinds s cs =
     (let started = [EventCreated, EventStateChanged TurnReserved TurnProviderStarted] @
                      chunk_events 0 cs
      in case s of
           TurnReserved \<Rightarrow> [EventCreated]
         | TurnCancelled \<Rightarrow> [EventCreated, EventStateChanged TurnReserved TurnCancelled]
         | TurnProviderStarted \<Rightarrow> started
         | _ \<Rightarrow> started @ [EventStateChanged TurnProviderStarted s])"

definition numbered ::
  "conversation_turn_id \<Rightarrow> conversation_turn_event_kind list \<Rightarrow> conversation_turn_event list" where
  "numbered tid ks =
     map (\<lambda>i. \<lparr>ce_sequence = of_nat (i + 1), ce_turn_id = tid, ce_kind = ks ! i\<rparr>) [0..<length ks]"

definition chunk_ok :: "rstr \<Rightarrow> bool" where
  "chunk_ok c \<longleftrightarrow> c \<noteq> [] \<and> str_len c \<le> max_conversation_text_chunk_bytes \<and>
     \<not> list_ex is_unsupported_control c"

definition chunks_ok :: "conversation_turn_state \<Rightarrow> rstr list \<Rightarrow> bool" where
  "chunks_ok s cs \<longleftrightarrow> list_all chunk_ok cs \<and> length cs \<le> max_conversation_text_events \<and>
     str_len (concat cs) \<le> max_message_bytes \<and>
     (s \<in> {TurnReserved, TurnCancelled} \<longrightarrow> cs = [])"

definition stream_log ::
  "conversation_turn_id \<Rightarrow> conversation_turn_state \<Rightarrow> rstr list \<Rightarrow> turn_event_log" where
  "stream_log tid s cs =
     \<lparr>el_turn_id = tid, el_state = Some s, el_text = concat cs, el_text_events = length cs,
      el_last_sequence = of_nat (length (stream_kinds s cs))\<rparr>"

text \<open>How one event extends a canonical stream.\<close>

inductive extends ::
  "conversation_turn_state \<Rightarrow> rstr list \<Rightarrow> conversation_turn_event_kind \<Rightarrow>
   conversation_turn_state \<Rightarrow> rstr list \<Rightarrow> bool" where
  edge: "turn_state_permits s t \<Longrightarrow> extends s cs (EventStateChanged s t) t cs"
| chunk: "chunks_ok TurnProviderStarted (cs @ [c]) \<Longrightarrow>
    extends TurnProviderStarted cs (EventTextAppended (of_nat (str_len (concat cs))) c)
      TurnProviderStarted (cs @ [c])"

inductive_simps extends_iff: "extends s cs k t ds"

lemma numbered_Nil [simp]: "numbered tid [] = []"
  by (simp add: numbered_def)

lemma numbered_snoc:
  "numbered tid (ks @ [k]) =
     numbered tid ks @ [\<lparr>ce_sequence = of_nat (length ks + 1), ce_turn_id = tid, ce_kind = k\<rparr>]"
  by (simp add: numbered_def nth_append)

lemma length_chunk_events [simp]: "length (chunk_events offset cs) = length cs"
  by (induction offset cs rule: chunk_events.induct) simp_all

lemma chunk_events_snoc:
  "chunk_events offset (cs @ [c]) =
     chunk_events offset cs @ [EventTextAppended (of_nat (offset + str_len (concat cs))) c]"
  by (induction offset cs rule: chunk_events.induct) (simp_all add: add.assoc)

lemma stream_kinds_neq_Nil: "stream_kinds s cs \<noteq> []"
  by (cases s) (simp_all add: stream_kinds_def)

lemma stream_kinds_extends:
  assumes "extends s cs k t ds" and "chunks_ok s cs"
  shows "stream_kinds t ds = stream_kinds s cs @ [k]" and "chunks_ok t ds"
proof -
  from assms(1) have "stream_kinds t ds = stream_kinds s cs @ [k] \<and> chunks_ok t ds"
  proof cases
    case edge
    from edge(3) show ?thesis
      by (rule turn_permits_cases) (use edge assms(2) in \<open>simp_all add: stream_kinds_def chunks_ok_def\<close>)
  next
    case (chunk c)
    then show ?thesis by (simp add: stream_kinds_def chunk_events_snoc)
  qed
  then show "stream_kinds t ds = stream_kinds s cs @ [k]" and "chunks_ok t ds" by simp_all
qed

lemma stream_kinds_split:
  assumes "stream_kinds t ds = ks @ [k]" and "chunks_ok t ds"
  shows "(ks = [] \<and> k = EventCreated \<and> t = TurnReserved \<and> ds = []) \<or>
    (\<exists>s cs. chunks_ok s cs \<and> ks = stream_kinds s cs \<and> extends s cs k t ds)"
proof (cases "t = TurnReserved")
  case True
  with assms show ?thesis by (simp add: stream_kinds_def chunks_ok_def)
next
  case neq: False
  show ?thesis
  proof (cases "t = TurnProviderStarted \<and> ds \<noteq> []")
    case True
    then obtain cs c where "ds = cs @ [c]" by (cases ds rule: rev_cases) auto
    with assms(1) True have k: "ks = stream_kinds t cs"
      "k = EventTextAppended (of_nat (str_len (concat cs))) c"
      by (simp_all add: stream_kinds_def chunk_events_snoc)
    have "chunks_ok t cs" using assms(2) \<open>ds = cs @ [c]\<close> True by (simp add: chunks_ok_def)
    moreover have "extends t cs k t ds"
      using extends.chunk [of cs c] assms(2) \<open>ds = cs @ [c]\<close> True k by simp
    ultimately show ?thesis using k by blast
  next
    case False
    define s where "s = (if t \<in> {TurnProviderStarted, TurnCancelled} then TurnReserved
      else TurnProviderStarted)"
    have permits: "turn_state_permits s t" using neq by (cases t) (simp_all add: s_def)
    have ok: "chunks_ok s ds" using False neq assms(2) by (cases t) (simp_all add: s_def chunks_ok_def)
    note ext = extends.edge [OF permits, of ds]
    from stream_kinds_extends(1) [OF ext ok] assms(1)
    have "ks = stream_kinds s ds" "k = EventStateChanged s t" by simp_all
    with ext ok show ?thesis by blast
  qed
qed

section \<open>Accepted streams\<close>

lemma length_stream_kinds: "chunks_ok s cs \<Longrightarrow> length (stream_kinds s cs) \<le> 4100"
  by (cases s) (simp_all add: stream_kinds_def chunks_ok_def max_conversation_text_events_def)

lemma stream_sequence:
  assumes "chunks_ok s cs"
  shows "checked_add (of_nat (length (stream_kinds s cs))) 1 =
    Some (of_nat (length (stream_kinds s cs) + 1) :: u64)"
proof -
  have "unat (of_nat (length (stream_kinds s cs)) :: u64) = length (stream_kinds s cs)"
    using length_stream_kinds [OF assms] by (simp add: unat_of_nat)
  then show ?thesis
    using length_stream_kinds [OF assms] by (simp add: checked_add_def)
qed

lemma chunks_ok_snoc:
  "chunks_ok TurnProviderStarted (cs @ [c]) \<longleftrightarrow> chunks_ok TurnProviderStarted cs \<and> chunk_ok c \<and>
     length cs < max_conversation_text_events \<and> str_len (concat cs) + str_len c \<le> max_message_bytes"
  by (auto simp: chunks_ok_def)

lemma message_bytes_u64:
  assumes "n \<le> max_message_bytes"
  shows "u64_try_from n = Some (of_nat n)" "unat (of_nat n :: u64) = n"
  using assms by (simp_all add: u64_try_from_def max_message_bytes_def unat_of_nat)

lemma validate_text_event:
  assumes "off + str_len c \<le> max_message_bytes"
  shows "validate_turn_event_kind (EventTextAppended (of_nat off) c) = Inr () \<longleftrightarrow> chunk_ok c"
proof -
  have bytes: "str_len c \<le> max_message_bytes" "off \<le> max_message_bytes" using assms by simp_all
  have "checked_add (of_nat off) (of_nat (str_len c)) = Some (of_nat (off + str_len c) :: u64)"
    using assms by (simp add: checked_add_def message_bytes_u64(2) [OF bytes(1)]
        message_bytes_u64(2) [OF bytes(2)] max_message_bytes_def)
  moreover have "(of_nat (off + str_len c) :: u64) \<le> of_nat max_message_bytes"
    unfolding word_le_nat_alt using assms
    by (simp only: message_bytes_u64(2) [OF assms] message_bytes_u64(2) [OF order_refl])
  ultimately show ?thesis
    using message_bytes_u64(1) [OF bytes(1)] message_bytes_u64(1) [OF order_refl]
    by (auto simp: result_simps chunk_ok_def is_unsupported_control_def list_ex_iff)
qed

lemma append_text_iff:
  assumes ok: "chunks_ok TurnProviderStarted cs"
  shows "validate_turn_event_kind (EventTextAppended off c) = Inr () \<and>
      append_event_kind (stream_log tid TurnProviderStarted cs) sq (EventTextAppended off c) = Inr log
    \<longleftrightarrow> off = of_nat (str_len (concat cs)) \<and> chunks_ok TurnProviderStarted (cs @ [c]) \<and>
      log = (stream_log tid TurnProviderStarted cs)\<lparr>el_text := concat (cs @ [c]),
              el_text_events := length (cs @ [c])\<rparr>"
proof -
  have len: "str_len (concat cs) \<le> max_message_bytes" using ok by (simp add: chunks_ok_def)
  have append: "append_event_kind (stream_log tid TurnProviderStarted cs) sq (EventTextAppended off c) = Inr log
    \<longleftrightarrow> length cs < max_conversation_text_events \<and> off = of_nat (str_len (concat cs)) \<and>
      str_len (concat cs) + str_len c \<le> max_message_bytes \<and>
      log = (stream_log tid TurnProviderStarted cs)\<lparr>el_text := concat (cs @ [c]),
              el_text_events := length (cs @ [c])\<rparr>"
  proof (cases "str_len (concat cs) + str_len c \<le> max_message_bytes")
    case True
    then have "usize_checked_add (str_len (concat cs)) (str_len c) = Some (str_len (concat cs) + str_len c)"
      by (simp add: usize_checked_add_def max_message_bytes_def)
    with True message_bytes_u64(1) [OF len] show ?thesis
      by (simp add: append_event_kind_def stream_log_def result_simps not_le eq_commute [of log] conj_comms)
  next
    case False
    then show ?thesis
      by (auto simp: append_event_kind_def stream_log_def result_simps usize_checked_add_def
            split: if_splits)
  qed
  show ?thesis
  proof (cases "off = of_nat (str_len (concat cs)) \<and> str_len (concat cs) + str_len c \<le> max_message_bytes")
    case True
    then show ?thesis
      unfolding append chunks_ok_snoc using validate_text_event [of "str_len (concat cs)" c] ok by simp
  next
    case False
    then show ?thesis unfolding append chunks_ok_snoc by blast
  qed
qed

lemma append_kind_iff:
  assumes ok: "chunks_ok s cs" and sq: "sq = of_nat (length (stream_kinds s cs) + 1)"
  shows "\<not> turn_state_is_terminal s \<and> validate_turn_event_kind k = Inr () \<and>
      map_ok (el_last_sequence_update (\<lambda>_. sq)) (append_event_kind (stream_log tid s cs) sq k) = Inr log
    \<longleftrightarrow> (\<exists>t ds. extends s cs k t ds \<and> log = stream_log tid t ds)"
proof (cases k)
  case EventCreated
  then show ?thesis
    by (simp add: append_event_kind_def stream_log_def extends_iff)
next
  case (EventStateChanged u t)
  have "\<not> turn_state_is_terminal s" if "turn_state_permits s t" using that by (cases s) auto
  moreover have "length (stream_kinds t cs) = length (stream_kinds s cs) + 1" if "turn_state_permits s t"
    using stream_kinds_extends(1) [OF extends.edge [OF that] ok] by simp
  ultimately show ?thesis
    using EventStateChanged sq
    by (auto simp: append_event_kind_def stream_log_def extends_iff result_simps)
next
  case (EventTextAppended off c)
  show ?thesis
  proof (cases "s = TurnProviderStarted")
    case True
    have log: "stream_log tid s (cs @ [c]) = (stream_log tid s cs)\<lparr>el_text := concat (cs @ [c]),
        el_text_events := length (cs @ [c]), el_last_sequence := sq\<rparr>"
      using True sq by (simp add: stream_log_def stream_kinds_def chunk_events_snoc)
    have "\<not> turn_state_is_terminal s \<and> validate_turn_event_kind k = Inr () \<and>
        map_ok (el_last_sequence_update (\<lambda>_. sq)) (append_event_kind (stream_log tid s cs) sq k) = Inr log
      \<longleftrightarrow> (\<exists>l. (validate_turn_event_kind (EventTextAppended off c) = Inr () \<and>
          append_event_kind (stream_log tid TurnProviderStarted cs) sq (EventTextAppended off c) = Inr l) \<and>
          log = l\<lparr>el_last_sequence := sq\<rparr>)"
      unfolding EventTextAppended True map_ok_Inr by simp
    also have "\<dots> \<longleftrightarrow> off = of_nat (str_len (concat cs)) \<and>
        chunks_ok TurnProviderStarted (cs @ [c]) \<and> log = stream_log tid s (cs @ [c])"
      unfolding append_text_iff [OF ok [unfolded True]] using log True by auto
    also have "\<dots> \<longleftrightarrow> (\<exists>t ds. extends s cs k t ds \<and> log = stream_log tid t ds)"
      unfolding EventTextAppended True extends_iff by simp
    finally show ?thesis .
  next
    case False
    then show ?thesis using EventTextAppended
      by (auto simp: append_event_kind_def stream_log_def extends_iff result_simps)
  qed
qed

lemma append_event_stream:
  assumes ok: "chunks_ok s cs"
  shows "event_log_append_event (stream_log tid s cs) e = Inr log \<longleftrightarrow>
    e = \<lparr>ce_sequence = of_nat (length (stream_kinds s cs) + 1), ce_turn_id = tid, ce_kind = ce_kind e\<rparr> \<and>
    (\<exists>t ds. extends s cs (ce_kind e) t ds \<and> log = stream_log tid t ds)"
    (is "_ \<longleftrightarrow> e = ?e \<and> _")
proof -
  define sq :: u64 where "sq = of_nat (length (stream_kinds s cs) + 1)"
  have "unat sq = length (stream_kinds s cs) + 1"
    unfolding sq_def unat_of_nat by (rule mod_less) (use length_stream_kinds [OF ok] in simp)
  then have nz: "sq \<noteq> 0" by auto
  have seq: "checked_add (of_nat (length (stream_kinds s cs))) 1 = Some sq"
    using stream_sequence [OF ok] by (simp only: sq_def)
  have fields: "el_turn_id (stream_log tid s cs) = tid" "el_state (stream_log tid s cs) = Some s"
    "el_last_sequence (stream_log tid s cs) = of_nat (length (stream_kinds s cs))"
    by (simp_all add: stream_log_def)
  have e: "e = ?e \<longleftrightarrow> ce_sequence e = sq \<and> ce_turn_id e = tid"
    unfolding sq_def [symmetric] by (cases e) auto
  have "event_log_append_event (stream_log tid s cs) e = Inr log \<longleftrightarrow>
    e = ?e \<and> \<not> turn_state_is_terminal s \<and> validate_turn_event_kind (ce_kind e) = Inr () \<and>
    map_ok (el_last_sequence_update (\<lambda>_. sq)) (append_event_kind (stream_log tid s cs) sq (ce_kind e)) = Inr log"
    unfolding e event_log_append_event_def turn_event_restore_def fields seq
    by (auto simp: result_simps nz)
  then show ?thesis using append_kind_iff [OF ok sq_def, of "ce_kind e" tid log] by blast
qed

lemma append_event_new:
  "event_log_append_event (event_log_new tid) e = Inr log \<longleftrightarrow>
     e = \<lparr>ce_sequence = 1, ce_turn_id = tid, ce_kind = EventCreated\<rparr> \<and>
     log = stream_log tid TurnReserved []"
proof (cases "ce_kind e")
  case EventCreated
  then show ?thesis
    by (cases e) (auto simp: event_log_append_event_def turn_event_restore_def event_log_new_def
        checked_add_def append_event_kind_def stream_log_def stream_kinds_def result_simps)
qed (cases e; auto simp: event_log_append_event_def turn_event_restore_def event_log_new_def
        append_event_kind_def result_simps)+

lemma event_log_append_all_snoc:
  "event_log_append_all log (es @ [e]) =
     and_then (event_log_append_all log es) (\<lambda>log. event_log_append_event log e)"
proof (induction es arbitrary: log)
  case Nil
  then show ?case by (cases "event_log_append_event log e") simp_all
next
  case (Cons d es)
  then show ?case by (cases "event_log_append_event log d") simp_all
qed

definition describes ::
  "conversation_turn_id \<Rightarrow> conversation_turn_event list \<Rightarrow> turn_event_log \<Rightarrow> bool" where
  "describes tid evs log \<longleftrightarrow> (\<exists>s cs. chunks_ok s cs \<and> evs = numbered tid (stream_kinds s cs) \<and>
     log = stream_log tid s cs)"

lemma describes_new: "describes tid [e] (stream_log tid TurnReserved [])"
  if "e = \<lparr>ce_sequence = 1, ce_turn_id = tid, ce_kind = EventCreated\<rparr>"
proof -
  have "chunks_ok TurnReserved []" by (simp add: chunks_ok_def)
  moreover have "[e] = numbered tid (stream_kinds TurnReserved [])"
    using numbered_snoc [of tid "[]" EventCreated] that by (simp add: stream_kinds_def)
  ultimately show ?thesis unfolding describes_def by blast
qed

lemma append_all_sound:
  assumes "event_log_append_all (event_log_new tid) evs = Inr log"
  shows "evs = [] \<and> log = event_log_new tid \<or> describes tid evs log"
  using assms
proof (induction evs arbitrary: log rule: rev_induct)
  case (snoc e es)
  then obtain l where l: "event_log_append_all (event_log_new tid) es = Inr l"
    "event_log_append_event l e = Inr log"
    by (auto simp: event_log_append_all_snoc and_then_Inr)
  from snoc.IH [OF l(1)] consider "es = []" "l = event_log_new tid" | "describes tid es l" by blast
  then show ?case
  proof cases
    case 1
    with l(2) describes_new [of e tid] show ?thesis by (simp add: append_event_new)
  next
    case 2
    then obtain s cs where ok: "chunks_ok s cs" and es: "es = numbered tid (stream_kinds s cs)"
      and "l = stream_log tid s cs" by (auto simp: describes_def)
    with l(2) obtain t ds where e: "e = \<lparr>ce_sequence = of_nat (length (stream_kinds s cs) + 1),
          ce_turn_id = tid, ce_kind = ce_kind e\<rparr>"
      and ext: "extends s cs (ce_kind e) t ds" "log = stream_log tid t ds"
      by (auto simp: append_event_stream)
    have "numbered tid (stream_kinds t ds) = es @ [e]"
      unfolding stream_kinds_extends(1) [OF ext(1) ok] numbered_snoc es using e by simp
    with stream_kinds_extends(2) [OF ext(1) ok] ext(2) show ?thesis
      unfolding describes_def by metis
  qed
qed simp

lemma append_all_complete:
  assumes "chunks_ok s cs"
  shows "event_log_append_all (event_log_new tid) (numbered tid (stream_kinds s cs)) =
    Inr (stream_log tid s cs)"
  using assms
proof (induction "length (stream_kinds s cs)" arbitrary: s cs rule: less_induct)
  case less
  obtain ks k where ks: "stream_kinds s cs = ks @ [k]"
    by (cases "stream_kinds s cs" rule: rev_cases) (auto simp: stream_kinds_neq_Nil)
  let ?e = "\<lparr>ce_sequence = of_nat (length ks + 1), ce_turn_id = tid, ce_kind = k\<rparr>"
  have step: "event_log_append_all (event_log_new tid) (numbered tid (stream_kinds s cs)) =
      and_then (event_log_append_all (event_log_new tid) (numbered tid ks))
        (\<lambda>log. event_log_append_event log ?e)"
    unfolding ks numbered_snoc by (rule event_log_append_all_snoc)
  from stream_kinds_split [OF ks less.prems]
  consider "ks = []" "k = EventCreated" "s = TurnReserved" "cs = []"
    | s' cs' where "chunks_ok s' cs'" "ks = stream_kinds s' cs'" "extends s' cs' k s cs" by blast
  then show ?case
  proof cases
    case 1
    then show ?thesis unfolding step using append_event_new [of tid ?e "stream_log tid s cs"] by simp
  next
    case 2
    have "event_log_append_event (stream_log tid s' cs') ?e = Inr (stream_log tid s cs)"
      unfolding append_event_stream [OF 2(1)] using 2 by auto
    with less.hyps [OF _ 2(1)] 2(2) show ?thesis unfolding step by (simp add: ks)
  qed
qed

lemma event_log_restore_describes: "event_log_restore tid evs = Inr log \<longleftrightarrow> describes tid evs log"
proof
  assume "event_log_restore tid evs = Inr log"
  then have "event_log_append_all (event_log_new tid) evs = Inr log" "el_state log \<noteq> None"
    by (auto simp: event_log_restore_def result_simps)
  with append_all_sound [of tid evs log] show "describes tid evs log"
    by (auto simp: event_log_new_def)
next
  assume "describes tid evs log"
  then obtain s cs where "chunks_ok s cs" "evs = numbered tid (stream_kinds s cs)"
    "log = stream_log tid s cs" by (auto simp: describes_def)
  with append_all_complete [of s cs tid] show "event_log_restore tid evs = Inr log"
    by (simp add: event_log_restore_def stream_log_def)
qed

text \<open>C28. An event stream restores to a projection exactly when it is the canonical stream of some
  turn state and list of text chunks: owned by the turn, numbered 1, 2, 3, ... without gaps, the
  legal lifecycle edges in order, text only while the provider is started, every chunk at the
  byte offset where the previous ones end, at most 4097 valid chunks and one megabyte of text.
  The projection then carries that state, the concatenated text and the stream's length.\<close>

theorem event_stream_restore_exact:
  "event_log_restore tid evs = Inr log \<longleftrightarrow>
     (\<exists>s cs. chunks_ok s cs \<and> evs = numbered tid (stream_kinds s cs) \<and> log = stream_log tid s cs)"
  unfolding event_log_restore_describes describes_def ..

section \<open>Writers\<close>

text \<open>A writer appends kinds one after the other; a refused kind leaves the log as it is. The result
  is the final projection and the events to store.\<close>

fun event_log_emit ::
  "turn_event_log \<Rightarrow> conversation_turn_event_kind list \<Rightarrow>
   turn_event_log \<times> conversation_turn_event list" where
  "event_log_emit log [] = (log, [])"
| "event_log_emit log (k # ks) =
     (case event_log_append_kind log k of
        Inl _ \<Rightarrow> event_log_emit log ks
      | Inr (log', e) \<Rightarrow> map_prod id ((#) e) (event_log_emit log' ks))"

lemma append_kind_event:
  "event_log_append_kind log k = Inr (log', e) \<Longrightarrow> event_log_append_event log e = Inr log'"
  by (auto simp: event_log_append_kind_def result_simps Let_def)

lemma emit_append_all:
  "event_log_append_all log (snd (event_log_emit log ks)) = Inr (fst (event_log_emit log ks))"
proof (induction ks arbitrary: log)
  case (Cons k ks)
  show ?case
  proof (cases "event_log_append_kind log k")
    case (Inl err)
    with Cons.IH [of log] show ?thesis by simp
  next
    case (Inr p)
    obtain log' e where p: "p = (log', e)" by (cases p)
    with Inr have "event_log_append_event log e = Inr log'" by (simp add: append_kind_event)
    with Cons.IH [of log'] Inr p show ?thesis by simp
  qed
qed simp

lemma append_kind_created:
  "event_log_append_kind (event_log_new tid) EventCreated =
     Inr (stream_log tid TurnReserved [],
          \<lparr>ce_sequence = 1, ce_turn_id = tid, ce_kind = EventCreated\<rparr>)"
proof -
  have "event_log_append_event (event_log_new tid)
      \<lparr>ce_sequence = 1, ce_turn_id = tid, ce_kind = EventCreated\<rparr> = Inr (stream_log tid TurnReserved [])"
    by (simp add: append_event_new)
  moreover have "checked_add (el_last_sequence (event_log_new tid)) 1 = Some 1"
    "el_turn_id (event_log_new tid) = tid"
    by (simp_all add: event_log_new_def checked_add_def)
  ultimately show ?thesis by (simp add: event_log_append_kind_def)
qed


text \<open>C30. The stream simulates the aggregate: whenever an operation moves a turn whose log is at the
  turn's state, appending the corresponding lifecycle event to the log succeeds, keeps the text
  and leaves the extended stream restorable at the turn's new state.\<close>

theorem turn_log_simulation:
  assumes "event_log_restore (ct_id t) evs = Inr log" and "el_state log = Some (ct_state t)"
    and "turn_step url t t'"
  shows "\<exists>log' e. event_log_append_kind log (EventStateChanged (ct_state t) (ct_state t')) = Inr (log', e) \<and>
      event_log_restore (ct_id t') (evs @ [e]) = Inr log' \<and>
      el_state log' = Some (ct_state t') \<and> el_text log' = el_text log"
proof -
  from assms(1) obtain s cs where ok: "chunks_ok s cs"
    and evs: "evs = numbered (ct_id t) (stream_kinds s cs)" and log: "log = stream_log (ct_id t) s cs"
    by (auto simp: event_log_restore_describes describes_def)
  with assms(2) have s: "s = ct_state t" by (simp add: stream_log_def)
  define e where "e = \<lparr>ce_sequence = of_nat (length (stream_kinds s cs) + 1), ce_turn_id = ct_id t,
    ce_kind = EventStateChanged s (ct_state t')\<rparr>"
  have ext: "extends s cs (ce_kind e) (ct_state t') cs"
    using turn_life.step_permits [OF assms(3)] by (simp add: e_def s extends.edge)
  have "event_log_append_event log e = Inr (stream_log (ct_id t) (ct_state t') cs)"
    unfolding log append_event_stream [OF ok] using ext by (auto simp: e_def)
  moreover have "el_last_sequence log = of_nat (length (stream_kinds s cs))" "el_turn_id log = ct_id t"
    by (simp_all add: log stream_log_def)
  ultimately have kind: "event_log_append_kind log (EventStateChanged s (ct_state t')) =
      Inr (stream_log (ct_id t) (ct_state t') cs, e)"
    unfolding event_log_append_kind_def Let_def using stream_sequence [OF ok] by (simp add: e_def)
  have "numbered (ct_id t) (stream_kinds (ct_state t') cs) = evs @ [e]"
    using stream_kinds_extends(1) [OF ext ok] by (simp add: numbered_snoc evs e_def)
  with stream_kinds_extends(2) [OF ext ok]
  have "describes (ct_id t) (evs @ [e]) (stream_log (ct_id t) (ct_state t') cs)"
    unfolding describes_def by metis
  moreover have "ct_id t' = ct_id t"
    using turn_life.step_ident [OF assms(3)] by (simp add: turn_frame_def)
  ultimately show ?thesis
    using kind s log by (auto simp: event_log_restore_describes stream_log_def)
qed

definition sample_turn :: conversation_turn where
  "sample_turn = \<lparr>ct_id = ConversationTurnId (lit ''t''), ct_idempotency_key = lit ''k'',
     ct_request_fingerprint = [], ct_provider_request_fingerprint = None,
     ct_project_id = ProjectId (lit ''p''), ct_thread_id = ThreadId (lit ''h''),
     ct_user_message_id = MessageId (lit ''m''), ct_run_id = RunId (lit ''r''),
     ct_model_id = lit ''g'', ct_search_enabled = False, ct_state = TurnReserved,
     ct_effect_id = None, ct_assistant_message_id = None, ct_failure = None,
     ct_provider_response_id = None, ct_citations = [], ct_usage = usage_default,
     ct_zero_data_retention = None, ct_revision = 0, ct_created_at = 5, ct_updated_at = 5\<rparr>"

theorem turn_log_simulation_witness:
  "\<exists>log' e. event_log_append_kind (stream_log (ConversationTurnId (lit ''t'')) TurnReserved [])
       (EventStateChanged TurnReserved TurnCancelled) = Inr (log', e) \<and>
     el_state log' = Some TurnCancelled"
proof -
  let ?t' = "sample_turn\<lparr>ct_revision := 1, ct_state := TurnCancelled, ct_updated_at := 7\<rparr>"
  let ?evs = "[\<lparr>ce_sequence = 1, ce_turn_id = ct_id sample_turn, ce_kind = EventCreated\<rparr>]"
  have "turn_apply (\<lambda>_. None) OpCancel sample_turn 7 = Inr ?t'"
    by (simp add: sample_turn_def turn_cancel_def turn_move_to_def checked_add_def)
  then have step: "turn_step (\<lambda>_. None) sample_turn ?t'" by (rule turn_step.apply_op)
  have log: "event_log_restore (ct_id sample_turn) ?evs = Inr (stream_log (ct_id sample_turn) TurnReserved [])"
    unfolding event_log_restore_describes by (rule describes_new) simp
  have "el_state (stream_log (ct_id sample_turn) TurnReserved []) = Some (ct_state sample_turn)"
    by (simp add: stream_log_def sample_turn_def)
  from turn_log_simulation [OF log this step] show ?thesis
    by (auto simp: sample_turn_def)
qed

end
