(* ===== verification/MemoryState.thy ===== *)
theory MemoryState
  imports ExecutionStore
begin

text \<open>
  The state of the in-memory store (grok-memory, \<open>lib.rs\<close>, \<open>struct State\<close>) as nested records, one
  per store port: the execution maps of \<open>ExecutionStore\<close>, the workspace maps, the maps of
  conversation turns the workspace operations read, and the scheduler journal with the data types
  its port exchanges (grok-application, \<open>automation_scheduler.rs\<close>). The helpers every store of the
  file uses follow: the workspace command journal, optimistic replacement and keyset pages.
\<close>

section \<open>Data of the scheduler port\<close>

datatype automation_scheduler_lease_acquisition =
    LeaseAcquired automation_scheduler_lease bool unix_millis
  | LeaseBusy automation_scheduler_lease
  | LeaseClockRegressed unix_millis

record automation_schedule_candidate =
  sk_automation :: automation
  sk_cursor :: "automation_schedule_cursor option"

record automation_schedule_evaluation_commit =
  ve_lease :: automation_scheduler_lease_token
  ve_expected_automation_revision :: u64
  ve_expected_cursor_revision :: "u64 option"
  ve_cursor :: automation_schedule_cursor
  ve_occurrences :: "automation_occurrence list"
  ve_observed_at :: unix_millis
  ve_command :: mutation_command

record automation_schedule_evaluation_result =
  vr_cursor :: automation_schedule_cursor
  vr_occurrences :: "automation_occurrence list"

datatype claim_completion = ExpiredUnlinked | CompletionRunLinked | AttemptsExhausted | Terminalized

record claim_attempt =
  ca_occurrence_id :: automation_occurrence_id
  ca_sequence :: u32
  ca_owner_id :: automation_scheduler_owner_id
  ca_fence :: u64
  ca_claimed_at :: unix_millis
  ca_expires_at :: unix_millis
  ca_completed_at :: "unix_millis option"
  ca_completion :: "claim_completion option"
  ca_request_fingerprint :: "u8 list"

record claim_automation_occurrence =
  cl_lease :: automation_scheduler_lease_token
  cl_occurrence_id :: automation_occurrence_id
  cl_expected_revision :: u64
  cl_claimed_at :: unix_millis
  cl_expires_at :: unix_millis
  cl_command :: mutation_command

record automation_occurrence_dispatch =
  di_claim :: claim_automation_occurrence
  di_thread :: thread
  di_prompt :: message
  di_run :: run

record automation_occurrence_dispatch_result =
  dr_occurrence :: automation_occurrence
  dr_thread :: thread
  dr_prompt :: message
  dr_run :: run

datatype automation_occurrence_run_completion =
    RunSucceeded | RunFailed | RunInterruptedNeedsReview | RunCancelled

record automation_scheduler_recovery_summary =
  rs_released_unlinked :: nat
  rs_interrupted_linked :: nat
  rs_attempts_exhausted :: nat
  rs_resumable_bound_queued :: nat
  rs_truncated :: bool

record automation_scheduler_journal_status =
  js_lease :: "automation_scheduler_lease option"
  js_cursor_count :: u64
  js_pending_count :: u64
  js_queued_overlap_count :: u64
  js_claimed_count :: u64
  js_run_linked_count :: u64
  js_needs_review_count :: u64

section \<open>The maps of the store\<close>

record command_record =
  cr_fingerprint :: "u8 list"
  cr_entity_id :: rstr

record evaluation_command_record =
  er_fingerprint :: "u8 list"
  er_result :: automation_schedule_evaluation_result

record claim_command_record =
  lr_fingerprint :: "u8 list"
  lr_occurrence_id :: automation_occurrence_id
  lr_result :: automation_occurrence

record workspace_state =
  ws_projects :: "(project_id, project) hmap"
  ws_threads :: "(thread_id, thread) hmap"
  ws_messages :: "(message_id, message) hmap"
  ws_automations :: "(automation_id, automation) hmap"
  ws_history :: "(automation_id, automation_history_entry list) hmap"
  ws_commands :: "(rstr \<times> rstr, command_record) hmap"

record conversation_state =
  cv_turns :: "(conversation_turn_id, conversation_turn) hmap"
  cv_contexts :: "(conversation_turn_id, message list) hmap"

record sched_state =
  sc_lease :: "automation_scheduler_lease option"
  sc_cursors :: "(automation_id, automation_schedule_cursor) hmap"
  sc_evaluation_commands :: "(rstr \<times> rstr, evaluation_command_record) hmap"
  sc_occurrences :: "(automation_occurrence_id, automation_occurrence) hmap"
  sc_claim_attempts :: "(automation_occurrence_id, claim_attempt list) hmap"
  sc_claim_commands :: "(rstr \<times> rstr, claim_command_record) hmap"
  sc_dispatches :: "(automation_occurrence_id, automation_occurrence_dispatch_result) hmap"

record mem_state =
  mm_exec :: exec_state
  mm_ws :: workspace_state
  mm_conv :: conversation_state
  mm_sched :: sched_state

definition mem_empty :: mem_state where
  "mem_empty =
     \<lparr>mm_exec = exec_empty,
      mm_ws = \<lparr>ws_projects = [], ws_threads = [], ws_messages = [], ws_automations = [],
               ws_history = [], ws_commands = []\<rparr>,
      mm_conv = \<lparr>cv_turns = [], cv_contexts = []\<rparr>,
      mm_sched = \<lparr>sc_lease = None, sc_cursors = [], sc_evaluation_commands = [],
                  sc_occurrences = [], sc_claim_attempts = [], sc_claim_commands = [],
                  sc_dispatches = []\<rparr>\<rparr>"

abbreviation mm_runs :: "mem_state \<Rightarrow> (run_id, run) hmap" where
  "mm_runs s \<equiv> es_runs (mm_exec s)"

abbreviation mm_occurrences :: "mem_state \<Rightarrow> (automation_occurrence_id, automation_occurrence) hmap" where
  "mm_occurrences s \<equiv> sc_occurrences (mm_sched s)"

abbreviation mm_dispatches ::
  "mem_state \<Rightarrow> (automation_occurrence_id, automation_occurrence_dispatch_result) hmap" where
  "mm_dispatches s \<equiv> sc_dispatches (mm_sched s)"

section \<open>Shared helpers\<close>

definition prior_command ::
  "mem_state \<Rightarrow> rstr \<Rightarrow> mutation_command \<Rightarrow> store_error + rstr option" where
  "prior_command s scope command =
     (if scope \<noteq> mc_scope command then Inl StoreConflict
      else case hm_get (ws_commands (mm_ws s)) (scope, mc_key command) of
             Some record \<Rightarrow>
               if cr_fingerprint record = mc_fingerprint command then Inr (Some (cr_entity_id record))
               else Inl StoreConflict
           | None \<Rightarrow> Inr None)"

definition record_command :: "mem_state \<Rightarrow> mutation_command \<Rightarrow> rstr \<Rightarrow> mem_state" where
  "record_command s command entity_id =
     mm_ws_update (ws_commands_update (hm_insert (mc_scope command, mc_key command)
       \<lparr>cr_fingerprint = mc_fingerprint command, cr_entity_id = entity_id\<rparr>)) s"

definition invalid_stored_id :: "id_error \<Rightarrow> store_error" where
  "invalid_stored_id e = StoreInternal (MsgId e)"

definition revisioned_replace ::
  "('k, 'v) hmap \<Rightarrow> 'k \<Rightarrow> 'v \<Rightarrow> u64 \<Rightarrow> ('v \<Rightarrow> u64) \<Rightarrow> store_error + ('k, 'v) hmap" where
  "revisioned_replace values i value expected_revision revision =
     and_then (ok_or (hm_get values i) StoreNotFound) (\<lambda>current.
     and_then (ok_or (checked_add expected_revision 1) StoreConflict) (\<lambda>next_revision.
     and_then (fail_if (revision current \<noteq> expected_revision \<or> revision value \<noteq> next_revision)
       StoreConflict) (\<lambda>_.
     Inr (hm_insert i value values))))"

fun list_position :: "('a \<Rightarrow> bool) \<Rightarrow> 'a list \<Rightarrow> nat option" where
  "list_position p [] = None"
| "list_position p (x # xs) = (if p x then Some 0 else map_option Suc (list_position p xs))"

definition after_position ::
  "'a list \<Rightarrow> rstr option \<Rightarrow> nat \<Rightarrow> ('a \<Rightarrow> rstr) \<Rightarrow> store_error + 'a list" where
  "after_position values after limit i =
     and_then (case after of
                 None \<Rightarrow> Inr 0
               | Some cursor \<Rightarrow>
                   map_ok Suc (ok_or (list_position (\<lambda>v. i v = cursor) values) StoreNotFound)) (\<lambda>start.
     Inr (take limit (drop start values)))"

definition recent_page ::
  "'a list \<Rightarrow> rstr option \<Rightarrow> nat \<Rightarrow> ('a \<Rightarrow> unix_millis) \<Rightarrow> ('a \<Rightarrow> rstr) \<Rightarrow> store_error + 'a list" where
  "recent_page values after limit updated_at i =
     after_position (sort_key (\<lambda>v. (- 1 - updated_at v, i v)) values) after limit i"

text \<open>\<open>collect::<Result<Vec<_>, _>>()\<close>: the first error, or every result.\<close>

fun result_map :: "('a \<Rightarrow> 'e + 'b) \<Rightarrow> 'a list \<Rightarrow> 'e + 'b list" where
  "result_map f [] = Inr []"
| "result_map f (x # xs) = and_then (f x) (\<lambda>y. map_ok (\<lambda>ys. y # ys) (result_map f xs))"

text \<open>A loop whose body may return an error: \<open>for x in xs { acc = body(acc, x)?; }\<close>.\<close>

fun result_fold :: "('b \<Rightarrow> 'a \<Rightarrow> 'e + 'b) \<Rightarrow> 'b \<Rightarrow> 'a list \<Rightarrow> 'e + 'b" where
  "result_fold f acc [] = Inr acc"
| "result_fold f acc (x # xs) = and_then (f acc x) (\<lambda>acc'. result_fold f acc' xs)"

lemma result_map_Inr: "result_map f xs = Inr ys \<longleftrightarrow> list_all2 (\<lambda>x y. f x = Inr y) xs ys"
proof (induction xs arbitrary: ys)
  case (Cons x xs)
  show ?case by (cases ys) (auto simp: result_simps Cons.IH)
qed auto

lemma revisioned_replace_Inr [result_simps]:
  "revisioned_replace m i v e r = Inr m' \<longleftrightarrow>
     (\<exists>c. hm_get m i = Some c \<and> r c = e \<and> e \<noteq> - 1 \<and> r v = e + 1 \<and> m' = hm_insert i v m)"
  by (auto simp: revisioned_replace_def result_simps checked_add_one split: if_splits)

lemma result_map_ok: "(\<And>x. x \<in> set xs \<Longrightarrow> \<exists>y. f x = Inr y) \<Longrightarrow> \<exists>ys. result_map f xs = Inr ys"
  by (induction xs) (fastforce simp: and_then_Inr map_ok_Inr)+

lemma result_fold_ok:
  "(\<And>b x. x \<in> set xs \<Longrightarrow> \<exists>c. f b x = Inr c) \<Longrightarrow> \<exists>c. result_fold f b xs = Inr c"
proof (induction xs arbitrary: b)
  case (Cons x xs)
  then obtain c where "f b x = Inr c" by fastforce
  with Cons show ?case by simp
qed simp

end
