(* ===== verification/SchedulerStore.thy ===== *)
theory SchedulerStore
  imports MemoryState
begin

text \<open>
  The in-memory implementation of the scheduler journal (grok-memory, \<open>lib.rs\<close>,
  \<open>impl AutomationSchedulerStore\<close>): the lease, the evaluation commit with its overlap adjudication,
  occurrence claims, atomic dispatch, run begin and completion, and the recovery of expired claims.
  Every operation runs under the store's lock and is one function of the state; an operation that
  returns an error leaves the state as it was. The calendar \<open>cal\<close> and SHA-256 \<open>sha\<close> are parameters.
\<close>

section \<open>Constants and validation\<close>

definition max_automation_scheduler_tick_definitions :: nat where
  "max_automation_scheduler_tick_definitions = 100"
definition max_automation_scheduler_recovery_batch :: nat where
  "max_automation_scheduler_recovery_batch = 100"
definition max_automation_scheduler_evaluation_occurrences :: nat where
  "max_automation_scheduler_evaluation_occurrences = 3"
definition max_automation_occurrence_page_size :: nat where
  "max_automation_occurrence_page_size = 100"
definition automation_evaluation_scope :: rstr where
  "automation_evaluation_scope = lit ''automation_scheduler_evaluate_v1''"
definition automation_claim_scope :: rstr where
  "automation_claim_scope = lit ''automation_scheduler_claim_v1''"
definition automation_skipped_missed_summary :: rstr where
  "automation_skipped_missed_summary = lit ''Skipped by missed-run policy.''"
definition automation_skipped_overlap_summary :: rstr where
  "automation_skipped_overlap_summary = lit ''Skipped by overlap policy.''"

definition invalid_automation_scheduler_journal :: store_error where
  "invalid_automation_scheduler_journal =
     StoreInternal (MsgText ''invalid durable automation scheduler journal'')"

fun automation_occurrence_is_active :: "automation_occurrence_state \<Rightarrow> bool" where
  "automation_occurrence_is_active OccPending = True"
| "automation_occurrence_is_active OccClaimed = True"
| "automation_occurrence_is_active OccRunLinked = True"
| "automation_occurrence_is_active _ = False"

text \<open>
  The calendar calculator with its possible divergence closed: under the calendar laws the loop
  returns (\<open>calculate_eq\<close>), so the last branch is not taken.
\<close>

definition calculate ::
  "('d, 'z) calendar \<Rightarrow> automation_schedule \<Rightarrow> rstr \<Rightarrow> unix_millis \<Rightarrow> unix_millis \<Rightarrow> nat \<Rightarrow>
   automation_schedule_error + automation_schedule_evaluation" where
  "calculate cal s timezone after_exclusive through_inclusive limit =
     (case decisions_between cal s timezone after_exclusive through_inclusive limit of
        Some result \<Rightarrow> result | None \<Rightarrow> Inl ScheduleTimestampOutOfRange)"

definition calculate_next ::
  "('d, 'z) calendar \<Rightarrow> automation_schedule \<Rightarrow> rstr \<Rightarrow> unix_millis \<Rightarrow>
   automation_schedule_error + automation_schedule_decision" where
  "calculate_next cal s timezone after =
     (case next_decision_after cal s timezone after of
        Some result \<Rightarrow> result | None \<Rightarrow> Inl ScheduleTimestampOutOfRange)"

lemma calculate_eq:
  assumes "calendar_laws cal"
  shows "decisions_between cal s timezone after through limit = Some (calculate cal s timezone after through limit)"
proof -
  have "\<exists>r. decisions_between cal s timezone after through limit = Some r"
    using decisions_loop_returns [OF assms] by (auto simp: decisions_between_def split: sum.split)
  then show ?thesis by (auto simp: calculate_def)
qed

lemma calculate_next_eq:
  assumes "calendar_laws cal"
  shows "next_decision_after cal s timezone after = Some (calculate_next cal s timezone after)"
  by (simp add: calculate_next_def next_decision_after_def calculate_eq [OF assms] split: sum.split)

definition validate_scheduler_command :: "mutation_command \<Rightarrow> rstr \<Rightarrow> store_error + unit" where
  "validate_scheduler_command command expected_scope =
     fail_if (mc_scope command \<noteq> expected_scope \<or> mc_key command = [] \<or>
              128 < str_len (mc_key command) \<or> list_ex char_is_control (mc_key command)) StoreConflict"

definition require_automation_scheduler_lease ::
  "mem_state \<Rightarrow> automation_scheduler_lease_token \<Rightarrow> unix_millis \<Rightarrow>
   store_error + automation_scheduler_lease" where
  "require_automation_scheduler_lease s token now =
     and_then (ok_or (sc_lease (mm_sched s)) StoreConflict) (\<lambda>lease.
     and_then (map_err (\<lambda>_. invalid_automation_scheduler_journal) (lease_restore lease)) (\<lambda>_.
     and_then (fail_if (le_owner_id lease \<noteq> lt_owner_id token \<or> le_fence lease \<noteq> lt_fence token \<or>
                        now < le_renewed_at lease \<or> \<not> lease_is_valid_at lease now) StoreConflict) (\<lambda>_.
     Inr lease)))"

definition automation_scheduler_snapshot ::
  "('d, 'z) calendar \<Rightarrow> sha256 \<Rightarrow> automation \<Rightarrow> store_error + automation_execution_snapshot" where
  "automation_scheduler_snapshot cal sha a =
     and_then (map_err (\<lambda>_. invalid_automation_scheduler_journal) (automation_restore cal a)) (\<lambda>_.
     map_err (\<lambda>_. invalid_automation_scheduler_journal) (automation_snapshot cal sha a))"

definition attempt_times :: "claim_attempt \<Rightarrow> unix_millis list" where
  "attempt_times a =
     ca_claimed_at a # (case ca_completed_at a of None \<Rightarrow> [] | Some t \<Rightarrow> [t])"

definition durable_times :: "mem_state \<Rightarrow> unix_millis list" where
  "durable_times s =
     (case sc_lease (mm_sched s) of None \<Rightarrow> [] | Some lease \<Rightarrow> [le_renewed_at lease]) @
     concat (map (\<lambda>c. [cu_evaluated_through c, cu_updated_at c]) (hm_values (sc_cursors (mm_sched s)))) @
     map oc_updated_at (hm_values (mm_occurrences s)) @
     concat (map attempt_times (concat (hm_values (sc_claim_attempts (mm_sched s)))))"

definition automation_scheduler_durable_floor :: "mem_state \<Rightarrow> unix_millis option" where
  "automation_scheduler_durable_floor s =
     (case durable_times s of [] \<Rightarrow> None | t # ts \<Rightarrow> Some (fold max ts t))"

definition automation_schedule_cursor_is_valid ::
  "('d, 'z) calendar \<Rightarrow> automation_schedule_cursor \<Rightarrow> automation_execution_snapshot \<Rightarrow> bool" where
  "automation_schedule_cursor_is_valid cal cursor snapshot \<longleftrightarrow>
     is_ok (cursor_restore cal cursor) \<and>
     cu_definition_revision cursor = es_definition_revision snapshot \<and>
     cu_schedule_fingerprint cursor = es_schedule_fingerprint snapshot \<and>
     cu_calculator_version cursor = es_calculator_version snapshot \<and>
     cu_next_decision cursor =
       (case calculate_next cal (es_schedule snapshot) (es_timezone snapshot)
               (cu_evaluated_through cursor) of
          Inl _ \<Rightarrow> None | Inr decision \<Rightarrow> Some decision)"

definition matching_automation_schedule_cursor ::
  "('d, 'z) calendar \<Rightarrow> mem_state \<Rightarrow> automation \<Rightarrow> automation_execution_snapshot \<Rightarrow>
   store_error + automation_schedule_cursor option" where
  "matching_automation_schedule_cursor cal s a snapshot =
     (case hm_get (sc_cursors (mm_sched s)) (au_id a) of
        None \<Rightarrow> Inr None
      | Some cursor \<Rightarrow>
          and_then (fail_if
              (cu_automation_id cursor \<noteq> au_id a \<or> cu_definition_revision cursor \<noteq> au_revision a \<or>
               cu_schedule_fingerprint cursor \<noteq> es_schedule_fingerprint snapshot \<or>
               cu_calculator_version cursor \<noteq> es_calculator_version snapshot)
            invalid_automation_scheduler_journal) (\<lambda>_.
          and_then (fail_if (\<not> automation_schedule_cursor_is_valid cal cursor snapshot)
            invalid_automation_scheduler_journal) (\<lambda>_.
          Inr (Some cursor))))"

definition project_is_active :: "mem_state \<Rightarrow> project_id \<Rightarrow> bool" where
  "project_is_active s pid =
     (case hm_get (ws_projects (mm_ws s)) pid of
        None \<Rightarrow> False | Some p \<Rightarrow> pr_state p = ProjectActive)"

section \<open>The lease\<close>

definition put_lease :: "automation_scheduler_lease \<Rightarrow> mem_state \<Rightarrow> mem_state" where
  "put_lease lease = mm_sched_update (sc_lease_update (\<lambda>_. Some lease))"

definition acquire_at_or_after_floor ::
  "mem_state \<Rightarrow> automation_scheduler_owner_id \<Rightarrow> unix_millis \<Rightarrow> u64 \<Rightarrow>
   store_error + automation_scheduler_lease_acquisition \<times> mem_state" where
  "acquire_at_or_after_floor s owner now ttl_ms =
     (case sc_lease (mm_sched s) of
        None \<Rightarrow>
          and_then (map_err (\<lambda>_. StoreConflict) (lease_acquire owner 1 now ttl_ms)) (\<lambda>lease.
          Inr (LeaseAcquired lease False now, put_lease lease s))
      | Some lease \<Rightarrow>
          and_then (map_err (\<lambda>_. invalid_automation_scheduler_journal) (lease_restore lease)) (\<lambda>_.
          if now < le_renewed_at lease then Inr (LeaseClockRegressed (le_renewed_at lease), s)
          else if now < le_expires_at lease then
            (if le_owner_id lease \<noteq> owner then Inr (LeaseBusy lease, s)
             else
               and_then (map_err (\<lambda>_. StoreConflict) (lease_renew lease (lease_token lease) now ttl_ms)) (\<lambda>lease'.
               Inr (LeaseAcquired lease' True (le_renewed_at lease), put_lease lease' s)))
          else
            and_then (ok_or (checked_add (le_fence lease) 1) invalid_automation_scheduler_journal) (\<lambda>next_fence.
            and_then (map_err (\<lambda>_. StoreConflict) (lease_take_over lease owner next_fence now ttl_ms)) (\<lambda>lease'.
            Inr (LeaseAcquired lease' False now, put_lease lease' s)))))"

definition mem_acquire_automation_scheduler_lease ::
  "mem_state \<Rightarrow> automation_scheduler_owner_id \<Rightarrow> unix_millis \<Rightarrow> u64 \<Rightarrow>
   store_error + automation_scheduler_lease_acquisition \<times> mem_state" where
  "mem_acquire_automation_scheduler_lease s owner now ttl_ms =
     and_then (fail_if (ttl_ms = 0 \<or> max_automation_scheduler_lease_ms < ttl_ms) StoreConflict) (\<lambda>_.
     case automation_scheduler_durable_floor s of
       Some durable_floor \<Rightarrow>
         if now < durable_floor then Inr (LeaseClockRegressed durable_floor, s)
         else acquire_at_or_after_floor s owner now ttl_ms
     | None \<Rightarrow> acquire_at_or_after_floor s owner now ttl_ms)"

section \<open>Candidates and reads\<close>

definition mem_list_automation_schedule_candidates ::
  "('d, 'z) calendar \<Rightarrow> sha256 \<Rightarrow> mem_state \<Rightarrow> automation_id option \<Rightarrow> nat \<Rightarrow>
   store_error + automation_schedule_candidate list" where
  "mem_list_automation_schedule_candidates cal sha s after limit =
     and_then (fail_if (limit = 0 \<or> max_automation_scheduler_tick_definitions + 1 < limit) StoreConflict) (\<lambda>_.
     result_map (\<lambda>a.
         and_then (automation_scheduler_snapshot cal sha a) (\<lambda>snapshot.
         and_then (matching_automation_schedule_cursor cal s a snapshot) (\<lambda>cursor.
         Inr \<lparr>sk_automation = a, sk_cursor = cursor\<rparr>)))
       (take limit (filter (\<lambda>a. case after of
                                  None \<Rightarrow> True
                                | Some i \<Rightarrow> automation_id_str i < automation_id_str (au_id a))
         (sort_key (\<lambda>a. automation_id_str (au_id a))
           (filter (\<lambda>a. au_state a = AutomationEnabled \<and> project_is_active s (au_project_id a))
             (hm_values (ws_automations (mm_ws s))))))))"

definition journal_restore ::
  "('d, 'z) calendar \<Rightarrow> sha256 \<Rightarrow> automation_occurrence \<Rightarrow> store_error + automation_occurrence" where
  "journal_restore cal sha oc =
     map_err (\<lambda>_. invalid_automation_scheduler_journal) (occurrence_restore cal sha oc)"

definition mem_get_automation_occurrence ::
  "('d, 'z) calendar \<Rightarrow> sha256 \<Rightarrow> mem_state \<Rightarrow> automation_occurrence_id \<Rightarrow>
   store_error + automation_occurrence" where
  "mem_get_automation_occurrence cal sha s i =
     and_then (ok_or (hm_get (mm_occurrences s) i) StoreNotFound) (journal_restore cal sha)"

text \<open>The derived order of \<open>AutomationLocalDateTime\<close> compares the fields in turn.\<close>

definition local_order_key :: "automation_local_date_time \<Rightarrow> int \<times> u8 \<times> u8 \<times> u8 \<times> u8" where
  "local_order_key l = (ld_year l, ld_month l, ld_day l, ld_hour l, ld_minute l)"

definition mem_list_automation_occurrences ::
  "('d, 'z) calendar \<Rightarrow> sha256 \<Rightarrow> mem_state \<Rightarrow> automation_id \<Rightarrow> automation_occurrence_id option \<Rightarrow> nat \<Rightarrow>
   store_error + automation_occurrence list" where
  "mem_list_automation_occurrences cal sha s aid after limit =
     and_then (fail_if (\<not> (1 \<le> limit \<and> limit \<le> max_automation_occurrence_page_size)) StoreConflict) (\<lambda>_.
     and_then (fail_if (\<not> hm_contains (ws_automations (mm_ws s)) aid) StoreNotFound) (\<lambda>_.
     let occurrences = filter (\<lambda>oc. oc_automation_id oc = aid) (hm_values (mm_occurrences s)) in
     and_then (result_map (journal_restore cal sha) occurrences) (\<lambda>_.
     after_position
       (sort_key (\<lambda>oc. (es_definition_revision (oc_snapshot oc), local_order_key (oc_nominal_local oc),
                        automation_occurrence_id_str (oc_id oc))) occurrences)
       (map_option automation_occurrence_id_str after) limit
       (\<lambda>oc. automation_occurrence_id_str (oc_id oc)))))"

section \<open>The evaluation commit\<close>

definition valid_initial_state :: "automation_occurrence \<Rightarrow> automation_execution_snapshot \<Rightarrow> bool" where
  "valid_initial_state oc snapshot =
     (case oc_state oc of
        OccPending \<Rightarrow> oc_revision oc = 0
      | OccSkippedInvalidLocalTime \<Rightarrow> oc_revision oc = 0
      | OccSkippedMissed \<Rightarrow> oc_revision oc = 1 \<and> es_missed_run_policy snapshot = MissedSkip
      | _ \<Rightarrow> False)"

definition validate_new_automation_occurrence ::
  "('d, 'z) calendar \<Rightarrow> sha256 \<Rightarrow> automation_occurrence \<Rightarrow> automation \<Rightarrow> automation_execution_snapshot \<Rightarrow>
   automation_schedule_cursor \<Rightarrow> unix_millis \<Rightarrow> store_error + unit" where
  "validate_new_automation_occurrence cal sha oc a snapshot cursor observed_at =
     and_then (map_err (\<lambda>_. StoreConflict) (occurrence_restore cal sha oc)) (\<lambda>_.
     fail_if
       (\<not> valid_initial_state oc snapshot \<or> automation_occurrence_id_str (oc_id oc) = [] \<or>
        oc_automation_id oc \<noteq> au_id a \<or> oc_snapshot oc \<noteq> snapshot \<or>
        es_definition_revision (oc_snapshot oc) \<noteq> au_revision a \<or>
        oc_created_at oc \<noteq> observed_at \<or> oc_updated_at oc \<noteq> observed_at \<or>
        oc_claim_attempt_count oc \<noteq> 0 \<or> oc_occurrence_count oc = 0 \<or>
        max_automation_schedule_decisions < unat (oc_occurrence_count oc) \<or>
        (case oc_scheduled_for oc of None \<Rightarrow> False | Some at \<Rightarrow> cu_evaluated_through cursor < at) \<or>
        (1 < oc_occurrence_count oc \<and> es_missed_run_policy snapshot = MissedSkip \<and>
         oc_state oc \<noteq> OccSkippedMissed))
       StoreConflict)"

fun validate_automation_history_from ::
  "nat \<Rightarrow> automation_history_entry list \<Rightarrow> store_error + unit" where
  "validate_automation_history_from index [] = Inr ()"
| "validate_automation_history_from index (entry # history) =
     and_then (fail_if (ah_sequence entry \<noteq> saturating_add (u64_of_usize index) 1)
       invalid_automation_scheduler_journal) (\<lambda>_.
     validate_automation_history_from (Suc index) history)"

definition validate_automation_history_sequence ::
  "automation_history_entry list \<Rightarrow> store_error + unit" where
  "validate_automation_history_sequence history = validate_automation_history_from 0 history"

fun scheduler_history_status ::
  "automation_occurrence_state \<Rightarrow> (automation_history_status \<times> rstr) option" where
  "scheduler_history_status OccSkippedMissed = Some (HistorySkippedMissed, automation_skipped_missed_summary)"
| "scheduler_history_status OccSkippedOverlap = Some (HistorySkippedOverlap, automation_skipped_overlap_summary)"
| "scheduler_history_status _ = None"

definition stage_scheduler_history ::
  "unix_millis \<Rightarrow> automation_history_entry list \<Rightarrow> automation_occurrence \<Rightarrow>
   store_error + automation_history_entry list" where
  "stage_scheduler_history recorded_at history oc =
     (case scheduler_history_status (oc_state oc) of
        None \<Rightarrow> Inr history
      | Some (status, summary) \<Rightarrow>
          and_then (ok_or (oc_scheduled_for oc) invalid_automation_scheduler_journal) (\<lambda>scheduled_for.
          case find (\<lambda>e. ah_scheduled_for e = scheduled_for) history of
            Some existing \<Rightarrow>
              if ah_automation_id existing = oc_automation_id oc \<and> ah_recorded_at existing = recorded_at \<and>
                 ah_status existing = status \<and> ah_summary existing = summary
              then Inr history else Inl StoreConflict
          | None \<Rightarrow>
              and_then (map_err (\<lambda>_. StoreConflict)
                (history_entry_new (oc_automation_id oc) scheduled_for recorded_at status summary)) (\<lambda>entry.
              and_then (ok_or (u64_try_from (length history)) invalid_automation_scheduler_journal) (\<lambda>n.
              and_then (ok_or (checked_add n 1) invalid_automation_scheduler_journal) (\<lambda>sequence.
              Inr (history @ [entry\<lparr>ah_sequence := sequence\<rparr>]))))))"

text \<open>Counts of the stored occurrences of one automation, with the check of each row.\<close>

definition count_overlap ::
  "('d, 'z) calendar \<Rightarrow> sha256 \<Rightarrow> nat \<times> nat \<Rightarrow> automation_occurrence \<Rightarrow> store_error + nat \<times> nat" where
  "count_overlap cal sha counts oc =
     and_then (journal_restore cal sha oc) (\<lambda>_.
     Inr (if automation_occurrence_is_active (oc_state oc) then (fst counts + 1, snd counts)
          else if oc_state oc = OccQueuedOverlap then (fst counts, snd counts + 1)
          else counts))"

definition overlap_counts ::
  "('d, 'z) calendar \<Rightarrow> sha256 \<Rightarrow> mem_state \<Rightarrow> automation_id \<Rightarrow> store_error + nat \<times> nat" where
  "overlap_counts cal sha s aid =
     and_then (result_fold (count_overlap cal sha) (0, 0)
       (filter (\<lambda>oc. oc_automation_id oc = aid) (hm_values (mm_occurrences s)))) (\<lambda>(active, queued).
     and_then (fail_if (1 < active \<or> 1 < queued \<or> (active = 0 \<and> queued \<noteq> 0))
       invalid_automation_scheduler_journal) (\<lambda>_.
     Inr (active, queued)))"

text \<open>The staging loop: its accumulator holds the counts, the last local slot and the staged rows.\<close>

record staging =
  sg_active :: nat
  sg_queued :: nat
  sg_prior_local :: "automation_local_date_time option"
  sg_slots :: "automation_occurrence_slot list"
  sg_staged :: "automation_occurrence list"

definition adjudicate_overlap ::
  "unix_millis \<Rightarrow> staging \<Rightarrow> automation_occurrence \<Rightarrow>
   store_error + automation_occurrence \<times> nat \<times> nat" where
  "adjudicate_overlap observed_at g oc =
     (if oc_state oc \<noteq> OccPending then Inr (oc, sg_active g, sg_queued g)
      else if sg_active g = 0 then Inr (oc, 1, sg_queued g)
      else if es_overlap_policy (oc_snapshot oc) = OverlapQueueOne \<and> sg_queued g = 0 then
        map_ok (\<lambda>oc. (oc, sg_active g, 1))
          (map_err (\<lambda>_. StoreConflict) (occurrence_queue_overlap oc observed_at))
      else
        map_ok (\<lambda>oc. (oc, sg_active g, sg_queued g))
          (map_err (\<lambda>_. StoreConflict) (occurrence_skip_overlap oc observed_at)))"

definition stage_occurrence ::
  "('d, 'z) calendar \<Rightarrow> sha256 \<Rightarrow> mem_state \<Rightarrow> automation \<Rightarrow> automation_execution_snapshot \<Rightarrow>
   automation_schedule_cursor \<Rightarrow> unix_millis \<Rightarrow> automation_local_date_time list \<Rightarrow>
   staging \<Rightarrow> automation_occurrence \<Rightarrow> store_error + staging" where
  "stage_occurrence cal sha s a snapshot cursor observed_at allowed_slots g proposed =
     and_then (validate_new_automation_occurrence cal sha proposed a snapshot cursor observed_at) (\<lambda>_.
     and_then (fail_if
         ((case sg_prior_local g of
             None \<Rightarrow> False
           | Some prior \<Rightarrow> local_order_key (oc_nominal_local proposed) \<le> local_order_key prior) \<or>
          oc_nominal_local proposed \<notin> set allowed_slots \<or>
          occurrence_slot proposed \<in> set (sg_slots g) \<or>
          hm_contains (mm_occurrences s) (oc_id proposed) \<or>
          list_ex (\<lambda>stored. oc_automation_id stored = oc_automation_id proposed \<and>
                            occurrence_slot stored = occurrence_slot proposed)
            (hm_values (mm_occurrences s)))
       StoreConflict) (\<lambda>_.
     and_then (adjudicate_overlap observed_at g proposed) (\<lambda>(actual, active, queued).
     Inr \<lparr>sg_active = active, sg_queued = queued, sg_prior_local = Some (oc_nominal_local proposed),
          sg_slots = occurrence_slot proposed # sg_slots g, sg_staged = sg_staged g @ [actual]\<rparr>)))"

definition expected_evaluation_cursor ::
  "('d, 'z) calendar \<Rightarrow> sha256 \<Rightarrow> automation \<Rightarrow> automation_execution_snapshot \<Rightarrow>
   automation_schedule_cursor option \<Rightarrow> automation_schedule_evaluation_commit \<Rightarrow>
   store_error + automation_schedule_cursor" where
  "expected_evaluation_cursor cal sha a snapshot current ev =
     map_err (\<lambda>_. StoreConflict)
       (case current of
          Some cursor \<Rightarrow>
            cursor_advance cal cursor (cu_evaluated_through (ve_cursor ev)) (cu_next_decision (ve_cursor ev))
              (ve_observed_at ev)
        | None \<Rightarrow>
            cursor_new cal sha (au_id a) snapshot (cu_evaluated_through (ve_cursor ev))
              (cu_next_decision (ve_cursor ev)) (ve_observed_at ev))"

definition allowed_evaluation_slots ::
  "('d, 'z) calendar \<Rightarrow> automation_execution_snapshot \<Rightarrow> automation_schedule_cursor option \<Rightarrow>
   automation_schedule_cursor \<Rightarrow> store_error + automation_local_date_time list" where
  "allowed_evaluation_slots cal snapshot current cursor =
     (case current of
        None \<Rightarrow> Inr []
      | Some prior \<Rightarrow>
          and_then (map_err (\<lambda>_. StoreConflict)
            (calculate cal (es_schedule snapshot) (es_timezone snapshot) (cu_evaluated_through prior)
               (cu_evaluated_through cursor) max_automation_schedule_decisions)) (\<lambda>calculation.
          and_then (fail_if (ev_truncated calculation) StoreConflict) (\<lambda>_.
          Inr (map decision_nominal_local (ev_decisions calculation)))))"

definition commit_evaluation_state ::
  "mem_state \<Rightarrow> automation \<Rightarrow> automation_schedule_evaluation_commit \<Rightarrow> automation_occurrence list \<Rightarrow>
   automation_history_entry list \<Rightarrow> automation_schedule_evaluation_result \<Rightarrow> mem_state" where
  "commit_evaluation_state s a ev staged history result =
     (let s = mm_sched_update (sc_cursors_update (hm_insert (au_id a) (ve_cursor ev))) s;
          s = fold (\<lambda>oc. mm_sched_update (sc_occurrences_update (hm_insert (oc_id oc) oc))) staged s;
          s = (if history = [] then s
               else mm_ws_update (ws_history_update (hm_insert (au_id a) history)) s)
      in mm_sched_update (sc_evaluation_commands_update
           (hm_insert (mc_scope (ve_command ev), mc_key (ve_command ev))
              \<lparr>er_fingerprint = mc_fingerprint (ve_command ev), er_result = result\<rparr>)) s)"

definition mem_commit_automation_schedule_evaluation ::
  "('d, 'z) calendar \<Rightarrow> sha256 \<Rightarrow> mem_state \<Rightarrow> automation_schedule_evaluation_commit \<Rightarrow>
   store_error + automation_schedule_evaluation_result \<times> mem_state" where
  "mem_commit_automation_schedule_evaluation cal sha s ev =
     and_then (validate_scheduler_command (ve_command ev) automation_evaluation_scope) (\<lambda>_.
     case hm_get (sc_evaluation_commands (mm_sched s)) (mc_scope (ve_command ev), mc_key (ve_command ev)) of
       Some record \<Rightarrow>
         if er_fingerprint record = mc_fingerprint (ve_command ev) \<and>
            cu_automation_id (vr_cursor (er_result record)) = cu_automation_id (ve_cursor ev)
         then Inr (er_result record, s) else Inl StoreConflict
     | None \<Rightarrow>
         and_then (require_automation_scheduler_lease s (ve_lease ev) (ve_observed_at ev)) (\<lambda>_.
         and_then (fail_if (max_automation_scheduler_evaluation_occurrences < length (ve_occurrences ev))
           StoreConflict) (\<lambda>_.
         and_then (ok_or (hm_get (ws_automations (mm_ws s)) (cu_automation_id (ve_cursor ev))) StoreNotFound) (\<lambda>a.
         and_then (fail_if
             (au_state a \<noteq> AutomationEnabled \<or> au_revision a \<noteq> ve_expected_automation_revision ev \<or>
              \<not> project_is_active s (au_project_id a)) StoreConflict) (\<lambda>_.
         and_then (automation_scheduler_snapshot cal sha a) (\<lambda>snapshot.
         and_then (matching_automation_schedule_cursor cal s a snapshot) (\<lambda>current.
         and_then (fail_if (map_option cu_revision current \<noteq> ve_expected_cursor_revision ev) StoreConflict) (\<lambda>_.
         and_then (fail_if
             (current = None \<and> (cu_evaluated_through (ve_cursor ev) \<noteq> au_updated_at a \<or> ve_occurrences ev \<noteq> []))
           StoreConflict) (\<lambda>_.
         and_then (expected_evaluation_cursor cal sha a snapshot current ev) (\<lambda>expected.
         and_then (fail_if (expected \<noteq> ve_cursor ev) StoreConflict) (\<lambda>_.
         and_then (fail_if (\<not> automation_schedule_cursor_is_valid cal (ve_cursor ev) snapshot) StoreConflict) (\<lambda>_.
         and_then (allowed_evaluation_slots cal snapshot current (ve_cursor ev)) (\<lambda>allowed_slots.
         and_then (overlap_counts cal sha s (au_id a)) (\<lambda>(active, queued).
         and_then (result_fold
             (stage_occurrence cal sha s a snapshot (ve_cursor ev) (ve_observed_at ev) allowed_slots)
             \<lparr>sg_active = active, sg_queued = queued, sg_prior_local = None, sg_slots = [], sg_staged = []\<rparr>
             (ve_occurrences ev)) (\<lambda>g.
         let history = (case hm_get (ws_history (mm_ws s)) (au_id a) of None \<Rightarrow> [] | Some h \<Rightarrow> h) in
         and_then (validate_automation_history_sequence history) (\<lambda>_.
         and_then (result_fold (stage_scheduler_history (ve_observed_at ev)) history (sg_staged g)) (\<lambda>history.
         let result = \<lparr>vr_cursor = ve_cursor ev, vr_occurrences = sg_staged g\<rparr>
         in Inr (result, commit_evaluation_state s a ev (sg_staged g) history result))))))))))))))))))"

section \<open>Claim attempts\<close>

definition attempt_matches_claim :: "automation_occurrence \<Rightarrow> claim_attempt \<Rightarrow> bool" where
  "attempt_matches_claim oc a =
     (case oc_claim oc of
        None \<Rightarrow> False
      | Some claim \<Rightarrow>
          ca_sequence a = oc_claim_attempt_count oc \<and> ca_owner_id a = cm_owner_id claim \<and>
          ca_fence a = cm_fence claim \<and> ca_claimed_at a = cm_claimed_at claim \<and>
          ca_expires_at a = cm_expires_at claim)"

definition validate_claim_attempt ::
  "automation_occurrence \<Rightarrow> nat \<times> nat \<Rightarrow> claim_attempt \<Rightarrow> store_error + nat \<times> nat" where
  "validate_claim_attempt oc acc a =
     (case acc of (index, open_count) \<Rightarrow>
       and_then (ok_or (if index < 2 ^ 32 then checked_add (of_nat index :: u32) 1 else None)
         invalid_automation_scheduler_journal) (\<lambda>sequence.
       and_then (fail_if
           (ca_occurrence_id a \<noteq> oc_id oc \<or> ca_sequence a \<noteq> sequence \<or>
            max_automation_occurrence_claim_attempts < ca_sequence a \<or> ca_fence a = 0 \<or>
            ca_expires_at a \<le> ca_claimed_at a \<or>
            max_automation_scheduler_lease_ms < ca_expires_at a - ca_claimed_at a \<or>
            (ca_completed_at a = None) \<noteq> (ca_completion a = None) \<or>
            (case ca_completed_at a of None \<Rightarrow> False | Some t \<Rightarrow> t < ca_claimed_at a))
         invalid_automation_scheduler_journal) (\<lambda>_.
       if ca_completed_at a \<noteq> None then Inr (Suc index, open_count)
       else and_then (fail_if (\<not> attempt_matches_claim oc a) invalid_automation_scheduler_journal) (\<lambda>_.
         Inr (Suc index, Suc open_count)))))"

definition run_linked_sealed :: "automation_occurrence \<Rightarrow> nat \<Rightarrow> claim_attempt list \<Rightarrow> bool" where
  "run_linked_sealed oc open_count attempts \<longleftrightarrow>
     oc_state oc = OccRunLinked \<and> open_count = 0 \<and> attempts \<noteq> [] \<and>
     ca_completion (last attempts) = Some CompletionRunLinked \<and> ca_completed_at (last attempts) \<noteq> None"

definition validate_claim_attempt_sequence ::
  "automation_occurrence \<Rightarrow> claim_attempt list \<Rightarrow> store_error + unit" where
  "validate_claim_attempt_sequence oc attempts =
     and_then (fail_if (length attempts \<noteq> unat (oc_claim_attempt_count oc))
       invalid_automation_scheduler_journal) (\<lambda>_.
     and_then (result_fold (validate_claim_attempt oc) (0, 0) attempts) (\<lambda>(_, open_count).
     fail_if (1 < open_count \<or>
              \<not> (case oc_state oc of
                   OccClaimed \<Rightarrow> open_count = 1
                 | OccRunLinked \<Rightarrow> open_count = 1 \<or> run_linked_sealed oc open_count attempts
                 | _ \<Rightarrow> open_count = 0))
       invalid_automation_scheduler_journal))"

definition complete_claim_attempt ::
  "automation_occurrence \<Rightarrow> claim_attempt list \<Rightarrow> claim_completion \<Rightarrow> unix_millis \<Rightarrow>
   store_error + claim_attempt list" where
  "complete_claim_attempt oc attempts completion completed_at =
     and_then (validate_claim_attempt_sequence oc attempts) (\<lambda>_.
     and_then (fail_if (attempts = []) invalid_automation_scheduler_journal) (\<lambda>_.
     and_then (fail_if (ca_completed_at (last attempts) \<noteq> None \<or> ca_completion (last attempts) \<noteq> None)
       invalid_automation_scheduler_journal) (\<lambda>_.
     Inr (butlast attempts @
          [(last attempts)\<lparr>ca_completed_at := Some completed_at, ca_completion := Some completion\<rparr>]))))"

definition occurrence_attempts :: "mem_state \<Rightarrow> automation_occurrence_id \<Rightarrow> claim_attempt list" where
  "occurrence_attempts s i =
     (case hm_get (sc_claim_attempts (mm_sched s)) i of None \<Rightarrow> [] | Some as \<Rightarrow> as)"

definition put_occurrence :: "automation_occurrence \<Rightarrow> mem_state \<Rightarrow> mem_state" where
  "put_occurrence oc = mm_sched_update (sc_occurrences_update (hm_insert (oc_id oc) oc))"

definition put_attempts :: "automation_occurrence_id \<Rightarrow> claim_attempt list \<Rightarrow> mem_state \<Rightarrow> mem_state" where
  "put_attempts i attempts = mm_sched_update (sc_claim_attempts_update (hm_insert i attempts))"

definition put_claim_command ::
  "mutation_command \<Rightarrow> automation_occurrence \<Rightarrow> mem_state \<Rightarrow> mem_state" where
  "put_claim_command command result =
     mm_sched_update (sc_claim_commands_update (hm_insert (mc_scope command, mc_key command)
       \<lparr>lr_fingerprint = mc_fingerprint command, lr_occurrence_id = oc_id result, lr_result = result\<rparr>))"

section \<open>Claiming\<close>

definition validate_claim_window ::
  "claim_automation_occurrence \<Rightarrow> automation_scheduler_lease \<Rightarrow> store_error + unit" where
  "validate_claim_window claim lease =
     fail_if ((case checked_sub (cl_expires_at claim) (cl_claimed_at claim) of
                 None \<Rightarrow> True
               | Some duration \<Rightarrow> duration = 0 \<or> max_automation_scheduler_lease_ms < duration) \<or>
              le_expires_at lease < cl_expires_at claim) StoreConflict"

definition claimable_occurrence ::
  "('d, 'z) calendar \<Rightarrow> sha256 \<Rightarrow> mem_state \<Rightarrow> claim_automation_occurrence \<Rightarrow>
   store_error + automation_occurrence \<times> claim_attempt list" where
  "claimable_occurrence cal sha s claim =
     and_then (require_automation_scheduler_lease s (cl_lease claim) (cl_claimed_at claim)) (\<lambda>lease.
     and_then (validate_claim_window claim lease) (\<lambda>_.
     and_then (ok_or (hm_get (mm_occurrences s) (cl_occurrence_id claim)) StoreNotFound) (\<lambda>current.
     and_then (journal_restore cal sha current) (\<lambda>_.
     and_then (fail_if (oc_revision current \<noteq> cl_expected_revision claim \<or> oc_state current \<noteq> OccPending)
       StoreConflict) (\<lambda>_.
     let attempts = occurrence_attempts s (cl_occurrence_id claim) in
     and_then (validate_claim_attempt_sequence current attempts) (\<lambda>_.
     and_then (fail_if (list_ex (\<lambda>a. ca_completed_at a = None) attempts)
       invalid_automation_scheduler_journal) (\<lambda>_.
     Inr (current, attempts))))))))"

definition claim_next_attempt ::
  "claim_automation_occurrence \<Rightarrow> automation_occurrence \<Rightarrow> claim_attempt list \<Rightarrow>
   store_error + automation_occurrence \<times> claim_attempt" where
  "claim_next_attempt claim current attempts =
     and_then (map_err (\<lambda>_. StoreConflict)
       (occurrence_claim_run current (cl_lease claim) (cl_claimed_at claim) (cl_expires_at claim))) (\<lambda>claimed.
     and_then (fail_if (unat (oc_claim_attempt_count claimed) \<noteq> length attempts + 1)
       invalid_automation_scheduler_journal) (\<lambda>_.
     Inr (claimed,
          \<lparr>ca_occurrence_id = oc_id claimed, ca_sequence = oc_claim_attempt_count claimed,
           ca_owner_id = lt_owner_id (cl_lease claim), ca_fence = lt_fence (cl_lease claim),
           ca_claimed_at = cl_claimed_at claim, ca_expires_at = cl_expires_at claim,
           ca_completed_at = None, ca_completion = None,
           ca_request_fingerprint = mc_fingerprint (cl_command claim)\<rparr>)))"

definition mem_claim_automation_occurrence ::
  "('d, 'z) calendar \<Rightarrow> sha256 \<Rightarrow> mem_state \<Rightarrow> claim_automation_occurrence \<Rightarrow>
   store_error + automation_occurrence \<times> mem_state" where
  "mem_claim_automation_occurrence cal sha s claim =
     and_then (validate_scheduler_command (cl_command claim) automation_claim_scope) (\<lambda>_.
     case hm_get (sc_claim_commands (mm_sched s)) (mc_scope (cl_command claim), mc_key (cl_command claim)) of
       Some record \<Rightarrow>
         if lr_fingerprint record = mc_fingerprint (cl_command claim) \<and>
            lr_occurrence_id record = cl_occurrence_id claim
         then Inr (lr_result record, s) else Inl StoreConflict
     | None \<Rightarrow>
         and_then (claimable_occurrence cal sha s claim) (\<lambda>(current, attempts).
         and_then (claim_next_attempt claim current attempts) (\<lambda>(claimed, attempt).
         Inr (claimed,
              put_claim_command (cl_command claim) claimed
                (put_attempts (oc_id claimed) (attempts @ [attempt])
                  (put_occurrence claimed s))))))"

section \<open>Atomic dispatch\<close>

definition thread_is_original :: "thread \<Rightarrow> bool" where
  "thread_is_original t =
     (case tl_origin (th_lineage t) of ThreadOriginal \<Rightarrow> True | _ \<Rightarrow> False)"

definition dispatch_mismatch ::
  "mem_state \<Rightarrow> automation_occurrence_dispatch \<Rightarrow> message \<Rightarrow> automation_occurrence \<Rightarrow> bool" where
  "dispatch_mismatch s d prompt current \<longleftrightarrow>
     \<not> is_ok (thread_restore (di_thread d)) \<or> \<not> thread_is_original (di_thread d) \<or>
     \<not> is_ok (message_restore prompt) \<or> \<not> derivation_is_original (ms_derivation prompt) \<or>
     ms_role prompt \<noteq> RoleUser \<or> ms_state prompt \<noteq> MessageActive \<or>
     ms_thread_id prompt \<noteq> th_id (di_thread d) \<or> ms_content prompt \<noteq> es_prompt (oc_snapshot current) \<or>
     th_project_id (di_thread d) \<noteq> es_project_id (oc_snapshot current) \<or>
     run_project_id (di_run d) \<noteq> es_project_id (oc_snapshot current) \<or>
     run_thread_id (di_run d) \<noteq> th_id (di_thread d) \<or> run_state_of (di_run d) \<noteq> Queued \<or>
     run_revision (di_run d) \<noteq> 0 \<or> th_created_at (di_thread d) \<noteq> cl_claimed_at (di_claim d) \<or>
     ms_created_at prompt \<noteq> cl_claimed_at (di_claim d) \<or>
     run_created_at (di_run d) \<noteq> cl_claimed_at (di_claim d) \<or>
     \<not> project_is_active s (es_project_id (oc_snapshot current)) \<or>
     hm_contains (ws_threads (mm_ws s)) (th_id (di_thread d)) \<or>
     hm_contains (ws_messages (mm_ws s)) (ms_id prompt) \<or>
     hm_contains (mm_runs s) (run_id_of (di_run d)) \<or>
     hm_contains (mm_dispatches s) (oc_id current)"

definition put_dispatch :: "automation_occurrence_dispatch_result \<Rightarrow> mem_state \<Rightarrow> mem_state" where
  "put_dispatch r =
     mm_sched_update (sc_dispatches_update (hm_insert (oc_id (dr_occurrence r)) r))"

definition bind_dispatch_state ::
  "mem_state \<Rightarrow> automation_occurrence_dispatch \<Rightarrow> automation_occurrence_dispatch_result \<Rightarrow>
   automation_occurrence \<Rightarrow> claim_attempt list \<Rightarrow> mem_state" where
  "bind_dispatch_state s d r claimed attempts =
     (let run = dr_run r;
          s = mm_ws_update (ws_threads_update (hm_insert (th_id (dr_thread r)) (dr_thread r))) s;
          s = mm_ws_update (ws_messages_update (hm_insert (ms_id (dr_prompt r)) (dr_prompt r))) s;
          s = mm_exec_update (es_runs_update (hm_insert (run_id_of run) run)) s;
          s = mm_exec_update (\<lambda>e. append_events e (run_id_of run)
                [\<lparr>ne_occurred_at = cl_claimed_at (di_claim d), ne_kind = RunCreated\<rparr>]) s;
          s = put_occurrence (dr_occurrence r) s;
          s = put_attempts (oc_id (dr_occurrence r)) attempts s;
          s = put_claim_command (cl_command (di_claim d)) claimed s
      in put_dispatch r s)"

definition mem_claim_and_bind_automation_occurrence ::
  "('d, 'z) calendar \<Rightarrow> sha256 \<Rightarrow> mem_state \<Rightarrow> automation_occurrence_dispatch \<Rightarrow>
   store_error + automation_occurrence_dispatch_result \<times> mem_state" where
  "mem_claim_and_bind_automation_occurrence cal sha s d =
     (let claim = di_claim d in
     and_then (validate_scheduler_command (cl_command claim) automation_claim_scope) (\<lambda>_.
     case hm_get (sc_claim_commands (mm_sched s)) (mc_scope (cl_command claim), mc_key (cl_command claim)) of
       Some record \<Rightarrow>
         and_then (fail_if (lr_fingerprint record \<noteq> mc_fingerprint (cl_command claim) \<or>
                            lr_occurrence_id record \<noteq> cl_occurrence_id claim) StoreConflict) (\<lambda>_.
         and_then (ok_or (hm_get (mm_dispatches s) (cl_occurrence_id claim))
           invalid_automation_scheduler_journal) (\<lambda>r.
         Inr (r, s)))
     | None \<Rightarrow>
         and_then (claimable_occurrence cal sha s claim) (\<lambda>(current, attempts).
         let prompt = (di_prompt d)\<lparr>ms_sequence := 1\<rparr> in
         and_then (fail_if (dispatch_mismatch s d prompt current) StoreConflict) (\<lambda>_.
         and_then (claim_next_attempt claim current attempts) (\<lambda>(claimed, attempt).
         and_then (map_err (\<lambda>_. StoreConflict)
           (occurrence_link_run claimed (cl_lease claim) (run_id_of (di_run d)) (cl_claimed_at claim))) (\<lambda>linked.
         let attempt = attempt\<lparr>ca_completed_at := Some (cl_claimed_at claim),
                               ca_completion := Some CompletionRunLinked\<rparr>;
             r = \<lparr>dr_occurrence = linked, dr_thread = di_thread d, dr_prompt = prompt, dr_run = di_run d\<rparr>
         in Inr (r, bind_dispatch_state s d r claimed (attempts @ [attempt]))))))))"

section \<open>Running the bound work\<close>

definition mem_list_resumable_automation_dispatches ::
  "mem_state \<Rightarrow> automation_occurrence_id option \<Rightarrow> nat \<Rightarrow>
   store_error + automation_occurrence_dispatch_result list" where
  "mem_list_resumable_automation_dispatches s after limit =
     and_then (fail_if (limit = 0 \<or> max_automation_scheduler_tick_definitions < limit) StoreConflict) (\<lambda>_.
     let resumable = (\<lambda>binding.
           case (hm_get (mm_occurrences s) (oc_id (dr_occurrence binding)),
                 hm_get (mm_runs s) (run_id_of (dr_run binding))) of
             (Some occurrence, Some run) \<Rightarrow>
               if oc_state occurrence = OccRunLinked \<and> run_state_of run = Queued \<and>
                  oc_run_id occurrence = Some (run_id_of run) \<and>
                  (case after of
                     None \<Rightarrow> True
                   | Some i \<Rightarrow> automation_occurrence_id_str i < automation_occurrence_id_str (oc_id occurrence))
               then Some (binding\<lparr>dr_occurrence := occurrence, dr_run := run\<rparr>) else None
           | _ \<Rightarrow> None);
         results = take limit (sort_key (\<lambda>r. automation_occurrence_id_str (oc_id (dr_occurrence r)))
           (List.map_filter resumable (hm_values (mm_dispatches s))))
     in and_then (fail_if (list_ex (\<lambda>r.
            hm_get (mm_occurrences s) (oc_id (dr_occurrence r)) \<noteq> Some (dr_occurrence r) \<or>
            hm_get (ws_threads (mm_ws s)) (th_id (dr_thread r)) \<noteq> Some (dr_thread r) \<or>
            hm_get (ws_messages (mm_ws s)) (ms_id (dr_prompt r)) \<noteq> Some (dr_prompt r) \<or>
            oc_run_id (dr_occurrence r) \<noteq> Some (run_id_of (dr_run r))) results)
          invalid_automation_scheduler_journal) (\<lambda>_.
        Inr results))"

definition put_run :: "run \<Rightarrow> new_run_event list \<Rightarrow> mem_state \<Rightarrow> mem_state" where
  "put_run run events s =
     mm_exec_update (\<lambda>e. append_events e (run_id_of run) events)
       (mm_exec_update (es_runs_update (hm_insert (run_id_of run) run)) s)"

definition state_changed :: "unix_millis \<Rightarrow> run_state \<Rightarrow> run_state \<Rightarrow> new_run_event" where
  "state_changed now from to = \<lparr>ne_occurred_at = now, ne_kind = RunStateChanged from to\<rparr>"

definition mem_begin_automation_occurrence_run ::
  "mem_state \<Rightarrow> automation_occurrence_id \<Rightarrow> u64 \<Rightarrow> run_id \<Rightarrow> u64 \<Rightarrow> unix_millis \<Rightarrow>
   store_error + automation_occurrence_dispatch_result \<times> mem_state" where
  "mem_begin_automation_occurrence_run s i expected_occurrence_revision rid expected_run_revision now =
     and_then (ok_or (hm_get (mm_dispatches s) i) StoreNotFound) (\<lambda>binding.
     and_then (ok_or (hm_get (mm_occurrences s) i) StoreNotFound) (\<lambda>occurrence.
     and_then (ok_or (hm_get (mm_runs s) rid) StoreNotFound) (\<lambda>run.
     and_then (fail_if
         (run_id_of (dr_run binding) \<noteq> rid \<or> oc_state occurrence \<noteq> OccRunLinked \<or>
          oc_revision occurrence \<noteq> expected_occurrence_revision \<or> oc_run_id occurrence \<noteq> Some rid \<or>
          run_state_of run \<noteq> Queued \<or> run_revision run \<noteq> expected_run_revision) StoreConflict) (\<lambda>_.
     and_then (map_err (\<lambda>_. StoreConflict) (run_transition run Planning now)) (\<lambda>planning.
     and_then (map_err (\<lambda>_. StoreConflict) (run_transition planning Running now)) (\<lambda>running.
     let s = put_run running [state_changed now (run_state_of run) Planning,
                              state_changed now (run_state_of planning) Running] s;
         s = mm_sched_update (sc_dispatches_update (hm_insert i (binding\<lparr>dr_run := running\<rparr>))) s
     in Inr (\<lparr>dr_occurrence = occurrence, dr_thread = dr_thread binding, dr_prompt = dr_prompt binding,
              dr_run = running\<rparr>, s)))))))"

fun completion_run_state :: "automation_occurrence_run_completion \<Rightarrow> run_state" where
  "completion_run_state RunSucceeded = Completed"
| "completion_run_state RunFailed = Failed"
| "completion_run_state RunInterruptedNeedsReview = InterruptedNeedsReview"
| "completion_run_state RunCancelled = Cancelled"

fun complete_occurrence ::
  "automation_occurrence_run_completion \<Rightarrow> automation_occurrence \<Rightarrow> run_id \<Rightarrow> unix_millis \<Rightarrow>
   automation_scheduler_error + automation_occurrence" where
  "complete_occurrence RunSucceeded oc rid now = occurrence_succeed oc rid now"
| "complete_occurrence RunFailed oc rid now = occurrence_fail oc rid now"
| "complete_occurrence RunInterruptedNeedsReview oc rid now = occurrence_interrupt oc rid now"
| "complete_occurrence RunCancelled oc rid now = occurrence_cancel oc now"

definition sole_queued_occurrence ::
  "mem_state \<Rightarrow> automation_id \<Rightarrow> store_error + automation_occurrence option" where
  "sole_queued_occurrence s aid =
     (case filter (\<lambda>oc. oc_automation_id oc = aid \<and> oc_state oc = OccQueuedOverlap)
             (hm_values (mm_occurrences s)) of
        [] \<Rightarrow> Inr None
      | [oc] \<Rightarrow> Inr (Some oc)
      | _ \<Rightarrow> Inl invalid_automation_scheduler_journal)"

text \<open>The promotion of the queued overlap, if there is one, with the error the caller maps to.\<close>

definition promote_sole_queued ::
  "store_error \<Rightarrow> mem_state \<Rightarrow> automation_id \<Rightarrow> unix_millis \<Rightarrow>
   store_error + automation_occurrence option" where
  "promote_sole_queued e s aid now =
     and_then (sole_queued_occurrence s aid) (\<lambda>queued.
     case queued of
       None \<Rightarrow> Inr None
     | Some oc \<Rightarrow> map_ok Some (map_err (\<lambda>_. e) (occurrence_promote_queued oc now)))"

definition complete_run_state ::
  "mem_state \<Rightarrow> automation_occurrence_id \<Rightarrow> automation_occurrence \<Rightarrow> run \<Rightarrow> new_run_event \<Rightarrow>
   automation_occurrence_dispatch_result \<Rightarrow> automation_occurrence option \<Rightarrow> mem_state" where
  "complete_run_state s i done finished event bound promoted =
     (let s = put_occurrence done s;
          s = put_run finished [event] s;
          s = mm_sched_update (sc_dispatches_update
                (hm_insert i (bound\<lparr>dr_occurrence := done, dr_run := finished\<rparr>))) s
      in case promoted of None \<Rightarrow> s | Some queued \<Rightarrow> put_occurrence queued s)"

definition mem_complete_automation_occurrence_run ::
  "mem_state \<Rightarrow> automation_occurrence_id \<Rightarrow> u64 \<Rightarrow> run_id \<Rightarrow> automation_occurrence_run_completion \<Rightarrow>
   unix_millis \<Rightarrow> store_error + automation_occurrence \<times> mem_state" where
  "mem_complete_automation_occurrence_run s i expected_revision rid completion now =
     and_then (ok_or (hm_get (mm_runs s) rid) StoreNotFound) (\<lambda>run.
     and_then (ok_or (hm_get (mm_occurrences s) i) StoreNotFound) (\<lambda>occurrence.
     and_then (fail_if
         (run_state_of run \<noteq> Running \<or> oc_revision occurrence \<noteq> expected_revision \<or>
          oc_run_id occurrence \<noteq> Some rid) StoreConflict) (\<lambda>_.
     and_then (map_err (\<lambda>_. StoreConflict)
       (run_transition run (completion_run_state completion) now)) (\<lambda>finished.
     and_then (map_err (\<lambda>_. StoreConflict) (complete_occurrence completion occurrence rid now)) (\<lambda>done.
     and_then (promote_sole_queued StoreConflict s (oc_automation_id done) now) (\<lambda>promoted.
     and_then (ok_or (hm_get (mm_dispatches s) i) invalid_automation_scheduler_journal) (\<lambda>bound.
     Inr (done, complete_run_state s i done finished
       (state_changed now Running (completion_run_state completion)) bound promoted))))))))"

definition mem_link_automation_occurrence_run ::
  "mem_state \<Rightarrow> automation_scheduler_lease_token \<Rightarrow> automation_occurrence_id \<Rightarrow> u64 \<Rightarrow> run_id \<Rightarrow>
   unix_millis \<Rightarrow> store_error + automation_occurrence \<times> mem_state" where
  "mem_link_automation_occurrence_run s token i expected_revision rid now =
     and_then (require_automation_scheduler_lease s token now) (\<lambda>_.
     and_then (ok_or (hm_get (mm_occurrences s) i) StoreNotFound) (\<lambda>current.
     and_then (fail_if (oc_revision current \<noteq> expected_revision) StoreConflict) (\<lambda>_.
     and_then (fail_if (\<not> hm_contains (mm_runs s) rid) StoreConflict) (\<lambda>_.
     and_then (map_err (\<lambda>_. StoreConflict) (occurrence_link_run current token rid now)) (\<lambda>occurrence.
     and_then (ok_or (hm_get (sc_claim_attempts (mm_sched s)) i) StoreConflict) (\<lambda>attempts.
     and_then (complete_claim_attempt current attempts CompletionRunLinked now) (\<lambda>attempts.
     Inr (occurrence,
          put_attempts i attempts
            (mm_sched_update (sc_occurrences_update (hm_insert i occurrence)) s)))))))))"

section \<open>Recovery of expired claims\<close>

record recovery =
  rc_occurrences :: "(automation_occurrence_id, automation_occurrence) hmap"
  rc_attempts :: "(automation_occurrence_id, claim_attempt list) hmap"
  rc_runs :: "(run_id, run) hmap"
  rc_run_events :: "(run_id \<times> new_run_event) list"
  rc_summary :: automation_scheduler_recovery_summary

definition stage_recovered ::
  "mem_state \<Rightarrow> unix_millis \<Rightarrow> automation_occurrence \<Rightarrow> automation_occurrence \<Rightarrow> claim_attempt list \<Rightarrow>
   recovery \<Rightarrow> store_error + recovery" where
  "stage_recovered s now current occurrence attempts r =
     and_then (if oc_state occurrence = OccInterruptedNeedsReview
               then promote_sole_queued invalid_automation_scheduler_journal s (oc_automation_id occurrence) now
               else Inr None) (\<lambda>promoted.
     let r = (case promoted of
                None \<Rightarrow> r | Some queued \<Rightarrow> rc_occurrences_update (hm_insert (oc_id queued) queued) r);
         r = rc_attempts_update (hm_insert (oc_id current) attempts) r
     in Inr (rc_occurrences_update (hm_insert (oc_id current) occurrence) r))"

definition recover_claimed ::
  "mem_state \<Rightarrow> unix_millis \<Rightarrow> automation_occurrence \<Rightarrow> recovery \<Rightarrow> store_error + recovery" where
  "recover_claimed s now current r =
     and_then (map_err (\<lambda>_. invalid_automation_scheduler_journal)
       (occurrence_release_expired_claim current now)) (\<lambda>released.
     and_then (if oc_claim_attempt_count released = max_automation_occurrence_claim_attempts
               then and_then (map_err (\<lambda>_. invalid_automation_scheduler_journal)
                      (occurrence_mark_claims_exhausted released now)) (\<lambda>exhausted.
                    Inr (exhausted, AttemptsExhausted,
                         rc_summary_update (rs_attempts_exhausted_update Suc) r))
               else Inr (released, ExpiredUnlinked,
                         rc_summary_update (rs_released_unlinked_update Suc) r)) (\<lambda>(occurrence, completion, r).
     and_then (ok_or (hm_get (sc_claim_attempts (mm_sched s)) (oc_id current))
       invalid_automation_scheduler_journal) (\<lambda>attempts.
     and_then (complete_claim_attempt current attempts completion now) (\<lambda>attempts.
     stage_recovered s now current occurrence attempts r))))"

fun settle_linked ::
  "run_state \<Rightarrow> automation_occurrence \<Rightarrow> run_id \<Rightarrow> unix_millis \<Rightarrow>
   automation_scheduler_error + automation_occurrence" where
  "settle_linked Completed oc rid now = occurrence_succeed oc rid now"
| "settle_linked Failed oc rid now = occurrence_fail oc rid now"
| "settle_linked Cancelled oc rid now = occurrence_cancel oc now"
| "settle_linked _ oc rid now = occurrence_interrupt oc rid now"

definition interrupt_linked_run ::
  "unix_millis \<Rightarrow> run_id \<Rightarrow> run \<Rightarrow> recovery \<Rightarrow> store_error + recovery" where
  "interrupt_linked_run now rid run r =
     (if run_state_of run \<in> {Completed, Failed, Cancelled, InterruptedNeedsReview} then Inr r
      else
        and_then (map_err (\<lambda>_. invalid_automation_scheduler_journal)
          (run_transition run InterruptedNeedsReview now)) (\<lambda>interrupted.
        Inr (rc_runs_update (hm_insert rid interrupted)
              (rc_run_events_update (\<lambda>es. es @
                 [(rid, state_changed now (run_state_of run) InterruptedNeedsReview)]) r))))"

definition is_resumable_bound :: "mem_state \<Rightarrow> automation_occurrence_id \<Rightarrow> run_id \<Rightarrow> bool" where
  "is_resumable_bound s i rid \<longleftrightarrow>
     (case hm_get (mm_dispatches s) i of None \<Rightarrow> False | Some b \<Rightarrow> run_id_of (dr_run b) = rid) \<and>
     (case hm_get (mm_runs s) rid of None \<Rightarrow> False | Some run \<Rightarrow> run_state_of run = Queued)"

definition recover_linked ::
  "mem_state \<Rightarrow> unix_millis \<Rightarrow> automation_occurrence \<Rightarrow> recovery \<Rightarrow> store_error + recovery" where
  "recover_linked s now current r =
     and_then (ok_or (oc_run_id current) invalid_automation_scheduler_journal) (\<lambda>rid.
     if is_resumable_bound s (oc_id current) rid
     then Inr (rc_summary_update (rs_resumable_bound_queued_update Suc) r)
     else
       and_then (ok_or (hm_get (mm_runs s) rid) invalid_automation_scheduler_journal) (\<lambda>run.
       and_then (interrupt_linked_run now rid run r) (\<lambda>r.
       and_then (map_err (\<lambda>_. invalid_automation_scheduler_journal)
         (settle_linked (run_state_of run) current rid now)) (\<lambda>occurrence.
       let r = (if oc_state occurrence = OccInterruptedNeedsReview
                then rc_summary_update (rs_interrupted_linked_update Suc) r else r) in
       and_then (ok_or (hm_get (sc_claim_attempts (mm_sched s)) (oc_id current))
         invalid_automation_scheduler_journal) (\<lambda>attempts.
       if attempts \<noteq> [] \<and> ca_completion (last attempts) = Some CompletionRunLinked \<and>
          ca_completed_at (last attempts) \<noteq> None
       then stage_recovered s now current occurrence attempts r
       else
         and_then (complete_claim_attempt current attempts CompletionRunLinked now) (\<lambda>attempts.
         stage_recovered s now current occurrence attempts r))))))"

definition recover_one ::
  "('d, 'z) calendar \<Rightarrow> sha256 \<Rightarrow> mem_state \<Rightarrow> unix_millis \<Rightarrow> recovery \<Rightarrow> automation_occurrence \<Rightarrow>
   store_error + recovery" where
  "recover_one cal sha s now r current =
     and_then (journal_restore cal sha current) (\<lambda>_.
     case oc_state current of
       OccClaimed \<Rightarrow> recover_claimed s now current r
     | OccRunLinked \<Rightarrow> recover_linked s now current r
     | _ \<Rightarrow> Inl invalid_automation_scheduler_journal)"

definition apply_recovered_occurrence ::
  "automation_occurrence_id \<times> automation_occurrence \<Rightarrow> mem_state \<Rightarrow> mem_state" where
  "apply_recovered_occurrence p s =
     mm_sched_update (\<lambda>c.
       sc_occurrences_update (hm_insert (fst p) (snd p))
         (case hm_get (sc_dispatches c) (fst p) of
            None \<Rightarrow> c
          | Some binding \<Rightarrow>
              sc_dispatches_update (hm_insert (fst p) (binding\<lparr>dr_occurrence := snd p\<rparr>)) c)) s"

fun update_bound_run ::
  "run_id \<Rightarrow> run \<Rightarrow> (automation_occurrence_id, automation_occurrence_dispatch_result) hmap \<Rightarrow>
   (automation_occurrence_id, automation_occurrence_dispatch_result) hmap" where
  "update_bound_run rid run [] = []"
| "update_bound_run rid run ((i, b) # m) =
     (if run_id_of (dr_run b) = rid then (i, b\<lparr>dr_run := run\<rparr>) # m
      else (i, b) # update_bound_run rid run m)"

definition apply_recovered_run :: "run_id \<times> run \<Rightarrow> mem_state \<Rightarrow> mem_state" where
  "apply_recovered_run p s =
     mm_exec_update (es_runs_update (hm_insert (fst p) (snd p)))
       (mm_sched_update (sc_dispatches_update (update_bound_run (fst p) (snd p))) s)"

definition apply_recovery :: "recovery \<Rightarrow> mem_state \<Rightarrow> mem_state" where
  "apply_recovery r s =
     (let s = fold apply_recovered_occurrence (rc_occurrences r) s;
          s = fold apply_recovered_run (rc_runs r) s;
          s = fold (\<lambda>(rid, event). mm_exec_update (\<lambda>e. append_events e rid [event])) (rc_run_events r) s
      in fold (\<lambda>(i, attempts). put_attempts i attempts) (rc_attempts r) s)"

definition expired_claims :: "mem_state \<Rightarrow> unix_millis \<Rightarrow> automation_occurrence list" where
  "expired_claims s now =
     sort_key (\<lambda>oc. (case oc_claim oc of None \<Rightarrow> 0 | Some c \<Rightarrow> cm_expires_at c,
                     automation_occurrence_id_str (oc_id oc)))
       (filter (\<lambda>oc. oc_state oc \<in> {OccClaimed, OccRunLinked} \<and>
                     (case oc_claim oc of None \<Rightarrow> False | Some c \<Rightarrow> cm_expires_at c \<le> now))
         (hm_values (mm_occurrences s)))"

definition mem_recover_automation_occurrence_claims ::
  "('d, 'z) calendar \<Rightarrow> sha256 \<Rightarrow> mem_state \<Rightarrow> automation_scheduler_lease_token \<Rightarrow> unix_millis \<Rightarrow> nat \<Rightarrow>
   store_error + automation_scheduler_recovery_summary \<times> mem_state" where
  "mem_recover_automation_occurrence_claims cal sha s token now limit =
     and_then (fail_if (\<not> (1 \<le> limit \<and> limit \<le> max_automation_scheduler_recovery_batch)) StoreConflict) (\<lambda>_.
     and_then (require_automation_scheduler_lease s token now) (\<lambda>_.
     let expired = expired_claims s now;
         start = \<lparr>rc_occurrences = [], rc_attempts = [], rc_runs = [], rc_run_events = [],
                  rc_summary = \<lparr>rs_released_unlinked = 0, rs_interrupted_linked = 0,
                                rs_attempts_exhausted = 0, rs_resumable_bound_queued = 0,
                                rs_truncated = limit < length expired\<rparr>\<rparr>
     in and_then (result_fold (recover_one cal sha s now) start (take limit expired)) (\<lambda>r.
        Inr (rc_summary r, apply_recovery r s))))"

section \<open>Journal status\<close>

fun count_journal_state ::
  "automation_occurrence_state \<Rightarrow> automation_scheduler_journal_status \<Rightarrow>
   automation_scheduler_journal_status" where
  "count_journal_state OccPending js = js\<lparr>js_pending_count := saturating_add (js_pending_count js) 1\<rparr>"
| "count_journal_state OccQueuedOverlap js =
     js\<lparr>js_queued_overlap_count := saturating_add (js_queued_overlap_count js) 1\<rparr>"
| "count_journal_state OccClaimed js = js\<lparr>js_claimed_count := saturating_add (js_claimed_count js) 1\<rparr>"
| "count_journal_state OccRunLinked js =
     js\<lparr>js_run_linked_count := saturating_add (js_run_linked_count js) 1\<rparr>"
| "count_journal_state OccInterruptedNeedsReview js =
     js\<lparr>js_needs_review_count := saturating_add (js_needs_review_count js) 1\<rparr>"
| "count_journal_state _ js = js"

definition mem_automation_scheduler_journal_status ::
  "('d, 'z) calendar \<Rightarrow> sha256 \<Rightarrow> mem_state \<Rightarrow> store_error + automation_scheduler_journal_status" where
  "mem_automation_scheduler_journal_status cal sha s =
     and_then (case sc_lease (mm_sched s) of
                 None \<Rightarrow> Inr None
               | Some lease \<Rightarrow>
                   map_ok Some (map_err (\<lambda>_. invalid_automation_scheduler_journal) (lease_restore lease))) (\<lambda>lease.
     and_then (result_map (\<lambda>c. map_err (\<lambda>_. invalid_automation_scheduler_journal) (cursor_restore cal c))
       (hm_values (sc_cursors (mm_sched s)))) (\<lambda>_.
     and_then (ok_or (u64_try_from (length (sc_cursors (mm_sched s))))
       invalid_automation_scheduler_journal) (\<lambda>cursor_count.
     result_fold (\<lambda>js oc.
         and_then (journal_restore cal sha oc) (\<lambda>_.
         and_then (validate_claim_attempt_sequence oc (occurrence_attempts s (oc_id oc))) (\<lambda>_.
         Inr (count_journal_state (oc_state oc) js))))
       \<lparr>js_lease = lease, js_cursor_count = cursor_count, js_pending_count = 0,
        js_queued_overlap_count = 0, js_claimed_count = 0, js_run_linked_count = 0,
        js_needs_review_count = 0\<rparr>
       (hm_values (mm_occurrences s)))))"

end
