(* ===== verification/SchedulerServices.thy ===== *)
theory SchedulerServices
  imports SchedulerStore
begin

text \<open>
  The scheduler service (grok-application, \<open>automation_scheduler.rs\<close>) as programs over the port
  \<open>AutomationSchedulerStore\<close>. A program acts on a \<open>world\<close>: the store, the wall clock, the
  cancellation token, the number of identifiers drawn from the generator and the requests handed
  to the guest dispatcher. Every awaited port call, clock reading, generated identifier and
  reading of the token is one atomic call, so the other parts of the daemon may act in between.
  The UUID source, the outcome of a guest dispatch, the calendar and SHA-256 are parameters.
\<close>

section \<open>The port\<close>

record 's automation_scheduler_store =
  as_acquire_lease ::
    "'s \<Rightarrow> automation_scheduler_owner_id \<Rightarrow> unix_millis \<Rightarrow> u64 \<Rightarrow>
     store_error + automation_scheduler_lease_acquisition \<times> 's"
  as_list_candidates ::
    "'s \<Rightarrow> automation_id option \<Rightarrow> nat \<Rightarrow> store_error + automation_schedule_candidate list"
  as_commit_evaluation ::
    "'s \<Rightarrow> automation_schedule_evaluation_commit \<Rightarrow> store_error + automation_schedule_evaluation_result \<times> 's"
  as_get_occurrence :: "'s \<Rightarrow> automation_occurrence_id \<Rightarrow> store_error + automation_occurrence"
  as_list_occurrences ::
    "'s \<Rightarrow> automation_id \<Rightarrow> automation_occurrence_id option \<Rightarrow> nat \<Rightarrow> store_error + automation_occurrence list"
  as_claim_occurrence :: "'s \<Rightarrow> claim_automation_occurrence \<Rightarrow> store_error + automation_occurrence \<times> 's"
  as_claim_and_bind ::
    "'s \<Rightarrow> automation_occurrence_dispatch \<Rightarrow> store_error + automation_occurrence_dispatch_result \<times> 's"
  as_list_resumable ::
    "'s \<Rightarrow> automation_occurrence_id option \<Rightarrow> nat \<Rightarrow> store_error + automation_occurrence_dispatch_result list"
  as_begin_run ::
    "'s \<Rightarrow> automation_occurrence_id \<Rightarrow> u64 \<Rightarrow> run_id \<Rightarrow> u64 \<Rightarrow> unix_millis \<Rightarrow>
     store_error + automation_occurrence_dispatch_result \<times> 's"
  as_complete_run ::
    "'s \<Rightarrow> automation_occurrence_id \<Rightarrow> u64 \<Rightarrow> run_id \<Rightarrow> automation_occurrence_run_completion \<Rightarrow> unix_millis \<Rightarrow>
     store_error + automation_occurrence \<times> 's"
  as_recover_claims ::
    "'s \<Rightarrow> automation_scheduler_lease_token \<Rightarrow> unix_millis \<Rightarrow> nat \<Rightarrow>
     store_error + automation_scheduler_recovery_summary \<times> 's"
  as_journal_status :: "'s \<Rightarrow> store_error + automation_scheduler_journal_status"
  as_link_run ::
    "'s \<Rightarrow> automation_scheduler_lease_token \<Rightarrow> automation_occurrence_id \<Rightarrow> u64 \<Rightarrow> run_id \<Rightarrow> unix_millis \<Rightarrow>
     store_error + automation_occurrence \<times> 's"

definition memory_scheduler_store ::
  "('d, 'z) calendar \<Rightarrow> sha256 \<Rightarrow> mem_state automation_scheduler_store" where
  "memory_scheduler_store cal sha =
     \<lparr>as_acquire_lease = mem_acquire_automation_scheduler_lease,
      as_list_candidates = mem_list_automation_schedule_candidates cal sha,
      as_commit_evaluation = mem_commit_automation_schedule_evaluation cal sha,
      as_get_occurrence = mem_get_automation_occurrence cal sha,
      as_list_occurrences = mem_list_automation_occurrences cal sha,
      as_claim_occurrence = mem_claim_automation_occurrence cal sha,
      as_claim_and_bind = mem_claim_and_bind_automation_occurrence cal sha,
      as_list_resumable = mem_list_resumable_automation_dispatches,
      as_begin_run = mem_begin_automation_occurrence_run,
      as_complete_run = mem_complete_automation_occurrence_run,
      as_recover_claims = mem_recover_automation_occurrence_claims cal sha,
      as_journal_status = mem_automation_scheduler_journal_status cal sha,
      as_link_run = mem_link_automation_occurrence_run\<rparr>"

section \<open>The guest\<close>

record scheduled_guest_request =
  sg_occurrence_id :: automation_occurrence_id
  sg_run_id :: run_id
  sg_prompt :: rstr

datatype scheduled_guest_outcome = GuestSucceeded | GuestFailed

datatype scheduled_guest_dispatch_error = GuestUnavailable | GuestInterrupted

text \<open>What the \<open>select!\<close> around a dispatch sees first: the token, the timeout or the guest's answer.\<close>

datatype guest_race =
    GuestCancelled
  | GuestTimedOut
  | GuestAnswered "scheduled_guest_dispatch_error + scheduled_guest_outcome"

fun select_result :: "guest_race \<Rightarrow> scheduled_guest_dispatch_error + scheduled_guest_outcome" where
  "select_result GuestCancelled = Inl GuestInterrupted"
| "select_result GuestTimedOut = Inl GuestInterrupted"
| "select_result (GuestAnswered result) = result"

fun guest_completion ::
  "scheduled_guest_dispatch_error + scheduled_guest_outcome \<Rightarrow> automation_occurrence_run_completion" where
  "guest_completion (Inr GuestSucceeded) = RunSucceeded"
| "guest_completion (Inr GuestFailed) = RunFailed"
| "guest_completion (Inl GuestUnavailable) = RunFailed"
| "guest_completion (Inl GuestInterrupted) = RunInterruptedNeedsReview"

section \<open>The world of a request\<close>

record 's world =
  wd_store :: 's
  wd_clock :: unix_millis
  wd_cancelled :: bool
  wd_generated :: nat
  wd_requests :: "scheduled_guest_request list"

type_synonym ('s, 'a) app = "('s world, application_error + 'a) prog"

type_synonym guest = "nat \<Rightarrow> scheduled_guest_request \<Rightarrow> guest_race"

definition clock_now :: "('s, unix_millis) app" where
  "clock_now = Call (\<lambda>w. w) (\<lambda>w. Done (Inr (wd_clock w)))"

definition is_cancelled :: "('s, bool) app" where
  "is_cancelled = Call (\<lambda>w. w) (\<lambda>w. Done (Inr (wd_cancelled w)))"

text \<open>\<open>UuidGenerator::generate\<close>: the prefix, a hyphen and the next UUID.\<close>

definition generate :: "(nat \<Rightarrow> rstr) \<Rightarrow> rstr \<Rightarrow> ('s, rstr) app" where
  "generate uuid prefix =
     Call (wd_generated_update Suc) (\<lambda>w. Done (Inr (prefix @ lit ''-'' @ uuid (wd_generated w))))"

definition dispatch_guest :: "guest \<Rightarrow> scheduled_guest_request \<Rightarrow> ('s, guest_race) app" where
  "dispatch_guest guest request =
     Call (wd_requests_update (\<lambda>rs. rs @ [request])) (\<lambda>w. Done (Inr (guest (length (wd_requests w)) request)))"

definition store_read :: "('s \<Rightarrow> store_error + 'a) \<Rightarrow> ('s, 'a) app" where
  "store_read f = Call (\<lambda>w. w) (\<lambda>w. Done (map_err app_of_store (f (wd_store w))))"

definition store_after :: "('s \<Rightarrow> store_error + 'a \<times> 's) \<Rightarrow> 's world \<Rightarrow> 's world" where
  "store_after f w = (case f (wd_store w) of Inl _ \<Rightarrow> w | Inr (_, s') \<Rightarrow> w\<lparr>wd_store := s'\<rparr>)"

definition store_try :: "('s \<Rightarrow> store_error + 'a \<times> 's) \<Rightarrow> ('s, store_error + 'a) app" where
  "store_try f = Call (store_after f) (\<lambda>w. Done (Inr (map_ok fst (f (wd_store w)))))"

definition store_write :: "('s \<Rightarrow> store_error + 'a \<times> 's) \<Rightarrow> ('s, 'a) app" where
  "store_write f = Call (store_after f) (\<lambda>w. Done (map_err app_of_store (map_ok fst (f (wd_store w)))))"

definition new_id :: "(rstr \<Rightarrow> 'i) \<Rightarrow> (nat \<Rightarrow> rstr) \<Rightarrow> rstr \<Rightarrow> ('s, 'i) app" where
  "new_id mk uuid prefix =
     try_prog (generate uuid prefix) (\<lambda>value. Done (map_ok mk (map_err app_of_id (id_new value))))"

section \<open>The hashed evaluation command\<close>

definition push_nominal_local :: "automation_local_date_time \<Rightarrow> u8 list list" where
  "push_nominal_local l =
     [u32_to_be_bytes (word_of_int (ld_year l)), [ld_month l, ld_day l, ld_hour l, ld_minute l]]"

fun push_schedule_decision :: "automation_schedule_decision option \<Rightarrow> u8 list list" where
  "push_schedule_decision None = [[0]]"
| "push_schedule_decision (Some (DecisionDue nominal scheduled_for)) =
     [[1]] @ push_nominal_local nominal @ [u64_to_be_bytes scheduled_for]"
| "push_schedule_decision (Some (DecisionSkippedNonexistentLocalTime nominal)) =
     [[2]] @ push_nominal_local nominal"

fun push_optional_u64 :: "u64 option \<Rightarrow> u8 list list" where
  "push_optional_u64 (Some value) = [[1], u64_to_be_bytes value]"
| "push_optional_u64 None = [[0]]"

fun missed_run_policy_key :: "missed_run_policy \<Rightarrow> u8" where
  "missed_run_policy_key MissedRunOnce = 1"
| "missed_run_policy_key MissedSkip = 2"

fun overlap_policy_key :: "overlap_policy \<Rightarrow> u8" where
  "overlap_policy_key OverlapQueueOne = 1"
| "overlap_policy_key OverlapSkip = 2"

fun occurrence_state_key :: "automation_occurrence_state \<Rightarrow> u8" where
  "occurrence_state_key OccPending = 0"
| "occurrence_state_key OccQueuedOverlap = 1"
| "occurrence_state_key OccClaimed = 2"
| "occurrence_state_key OccRunLinked = 3"
| "occurrence_state_key OccSucceeded = 4"
| "occurrence_state_key OccFailed = 5"
| "occurrence_state_key OccSkippedMissed = 6"
| "occurrence_state_key OccSkippedOverlap = 7"
| "occurrence_state_key OccSkippedInvalidLocalTime = 8"
| "occurrence_state_key OccInterruptedNeedsReview = 9"
| "occurrence_state_key OccCancelled = 10"

definition occurrence_parts :: "automation_occurrence \<Rightarrow> u8 list list" where
  "occurrence_parts oc =
     (let snapshot = oc_snapshot oc in
     [str_bytes (automation_occurrence_id_str (oc_id oc)), str_bytes (automation_id_str (oc_automation_id oc)),
      str_bytes (project_id_str (es_project_id snapshot)), u64_to_be_bytes (es_definition_revision snapshot),
      str_bytes (es_title snapshot), str_bytes (es_prompt snapshot), str_bytes (es_canonical_schedule snapshot),
      str_bytes (es_timezone snapshot), [missed_run_policy_key (es_missed_run_policy snapshot)],
      [overlap_policy_key (es_overlap_policy snapshot)], fingerprint_bytes (es_schedule_fingerprint snapshot),
      u32_to_be_bytes (es_calculator_version snapshot)] @
     push_nominal_local (oc_nominal_local oc) @ push_optional_u64 (oc_scheduled_for oc) @
     [u32_to_be_bytes (oc_occurrence_count oc), [occurrence_state_key (oc_state oc)],
      u32_to_be_bytes (oc_claim_attempt_count oc), u64_to_be_bytes (oc_revision oc),
      u64_to_be_bytes (oc_created_at oc), u64_to_be_bytes (oc_updated_at oc)])"

definition evaluation_parts ::
  "automation_scheduler_lease_token \<Rightarrow> u64 \<Rightarrow> u64 option \<Rightarrow> automation_schedule_cursor \<Rightarrow>
   automation_occurrence list \<Rightarrow> u8 list list" where
  "evaluation_parts lease automation_revision expected_cursor_revision cursor occurrences =
     [str_bytes (automation_scheduler_owner_id_str (lt_owner_id lease)), u64_to_be_bytes (lt_fence lease),
      str_bytes (automation_id_str (cu_automation_id cursor)), u64_to_be_bytes automation_revision] @
     push_optional_u64 expected_cursor_revision @
     [u64_to_be_bytes (cu_definition_revision cursor), fingerprint_bytes (cu_schedule_fingerprint cursor),
      u32_to_be_bytes (cu_calculator_version cursor), u64_to_be_bytes (cu_evaluated_through cursor)] @
     push_schedule_decision (cu_next_decision cursor) @
     [u64_to_be_bytes (cu_revision cursor), u64_to_be_bytes (cu_created_at cursor),
      u64_to_be_bytes (cu_updated_at cursor), u64_to_be_bytes (u64_of_usize (length occurrences))] @
     concat (map occurrence_parts occurrences)"

definition evaluation_command ::
  "sha256 \<Rightarrow> rstr \<Rightarrow> automation_scheduler_lease_token \<Rightarrow> u64 \<Rightarrow> u64 option \<Rightarrow> automation_schedule_cursor \<Rightarrow>
   automation_occurrence list \<Rightarrow> application_error + mutation_command" where
  "evaluation_command sha key lease automation_revision expected_cursor_revision cursor occurrences =
     mutation_command_bytes sha automation_evaluation_scope key
       (evaluation_parts lease automation_revision expected_cursor_revision cursor occurrences)"

section \<open>Materializing decisions\<close>

fun is_gap :: "automation_schedule_decision \<Rightarrow> bool" where
  "is_gap (DecisionSkippedNonexistentLocalTime _) = True"
| "is_gap (DecisionDue _ _) = False"

fun is_missed :: "unix_millis \<Rightarrow> automation_schedule_decision \<Rightarrow> bool" where
  "is_missed continuity_started_at (DecisionDue _ scheduled_for) \<longleftrightarrow> scheduled_for < continuity_started_at"
| "is_missed continuity_started_at (DecisionSkippedNonexistentLocalTime _) = False"

fun is_current :: "unix_millis \<Rightarrow> automation_schedule_decision \<Rightarrow> bool" where
  "is_current continuity_started_at (DecisionDue _ scheduled_for) \<longleftrightarrow> \<not> scheduled_for < continuity_started_at"
| "is_current continuity_started_at (DecisionSkippedNonexistentLocalTime _) = False"

definition u32_try_from :: "nat \<Rightarrow> u32 option" where
  "u32_try_from n = (if n < 2 ^ 32 then Some (of_nat n) else None)"

definition new_occurrence_id :: "(nat \<Rightarrow> rstr) \<Rightarrow> ('s, automation_occurrence_id) app" where
  "new_occurrence_id uuid = new_id AutomationOccurrenceId uuid (lit ''automation-occurrence'')"

definition materialize_gap ::
  "('d, 'z) calendar \<Rightarrow> sha256 \<Rightarrow> (nat \<Rightarrow> rstr) \<Rightarrow> automation \<Rightarrow> automation_execution_snapshot \<Rightarrow> unix_millis \<Rightarrow>
   automation_schedule_decision \<Rightarrow> ('s, automation_occurrence) app" where
  "materialize_gap cal sha uuid a snapshot observed_at gap =
     try_prog (new_occurrence_id uuid) (\<lambda>i.
     Done (map_err app_of_scheduler
       (occurrence_skipped_invalid_local_time cal sha i (au_id a) snapshot gap observed_at)))"

definition materialize_due ::
  "('d, 'z) calendar \<Rightarrow> sha256 \<Rightarrow> (nat \<Rightarrow> rstr) \<Rightarrow> automation \<Rightarrow> automation_execution_snapshot \<Rightarrow> unix_millis \<Rightarrow>
   u32 \<Rightarrow> automation_schedule_decision \<Rightarrow> ('s, automation_occurrence) app" where
  "materialize_due cal sha uuid a snapshot observed_at count decision =
     try_prog (new_occurrence_id uuid) (\<lambda>i.
     Done (map_err app_of_scheduler
       (occurrence_pending cal sha i (au_id a) snapshot decision count observed_at)))"

definition materialize_missed ::
  "('d, 'z) calendar \<Rightarrow> sha256 \<Rightarrow> (nat \<Rightarrow> rstr) \<Rightarrow> automation \<Rightarrow> automation_execution_snapshot \<Rightarrow> unix_millis \<Rightarrow>
   automation_schedule_decision list \<Rightarrow> ('s, automation_occurrence list) app" where
  "materialize_missed cal sha uuid a snapshot observed_at missed =
     (if missed = [] then Done (Inr [])
      else
        try_prog (Done (ok_or (u32_try_from (length missed))
          (InvalidState (MsgText ''automation missed-run count is exhausted'')))) (\<lambda>count.
        try_prog (materialize_due cal sha uuid a snapshot observed_at count (last missed)) (\<lambda>oc.
        if es_missed_run_policy snapshot = MissedSkip
        then Done (map_ok (\<lambda>oc. [oc]) (map_err app_of_scheduler (occurrence_skip_missed oc observed_at)))
        else Done (Inr [oc]))))"

definition materialize_decisions ::
  "('d, 'z) calendar \<Rightarrow> sha256 \<Rightarrow> (nat \<Rightarrow> rstr) \<Rightarrow> automation \<Rightarrow> automation_execution_snapshot \<Rightarrow>
   automation_schedule_decision list \<Rightarrow> unix_millis \<Rightarrow> unix_millis \<Rightarrow> ('s, automation_occurrence list) app" where
  "materialize_decisions cal sha uuid a snapshot decisions continuity_started_at observed_at =
     (let gaps = filter is_gap decisions;
          missed = filter (is_missed continuity_started_at) decisions;
          current = filter (is_current continuity_started_at) decisions in
     try_prog (collect_prog (materialize_gap cal sha uuid a snapshot observed_at) gaps) (\<lambda>gap_rows.
     try_prog (materialize_missed cal sha uuid a snapshot observed_at missed) (\<lambda>missed_rows.
     try_prog (collect_prog (materialize_due cal sha uuid a snapshot observed_at 1) current) (\<lambda>current_rows.
     Done (Inr (gap_rows @ missed_rows @ current_rows))))))"

section \<open>Evaluating a definition\<close>

definition automation_scheduler_lease_ttl_ms :: u64 where
  "automation_scheduler_lease_ttl_ms = 30000"

definition automation_scheduler_evaluation_window_ms :: u64 where
  "automation_scheduler_evaluation_window_ms = 180 * 86400000"

record candidate_evaluation_summary =
  ce_initialized :: bool
  ce_occurrences :: nat

text \<open>The first evaluation of a definition stores a cursor at its activation and no occurrence.\<close>

definition initialize_cursor ::
  "'s automation_scheduler_store \<Rightarrow> ('d, 'z) calendar \<Rightarrow> sha256 \<Rightarrow> (nat \<Rightarrow> rstr) \<Rightarrow>
   automation_scheduler_lease_token \<Rightarrow> unix_millis \<Rightarrow> automation \<Rightarrow> automation_execution_snapshot \<Rightarrow>
   ('s, candidate_evaluation_summary) app" where
  "initialize_cursor port cal sha uuid lease observed_at a snapshot =
     try_prog (Done (fail_if (observed_at < au_updated_at a)
       (InvalidState (MsgText ''automation scheduler clock predates definition activation'')))) (\<lambda>_.
     try_prog (Done (map_err app_of_schedule
       (calculate_next cal (es_schedule snapshot) (es_timezone snapshot) (au_updated_at a)))) (\<lambda>decision.
     try_prog (Done (map_err app_of_scheduler
       (cursor_new cal sha (au_id a) snapshot (au_updated_at a) (Some decision) observed_at))) (\<lambda>cursor.
     try_prog (generate uuid (lit ''automation-evaluation'')) (\<lambda>key.
     try_prog (Done (evaluation_command sha key lease (au_revision a) None cursor [])) (\<lambda>command.
     try_prog (store_write (\<lambda>s. as_commit_evaluation port s
         \<lparr>ve_lease = lease, ve_expected_automation_revision = au_revision a, ve_expected_cursor_revision = None,
          ve_cursor = cursor, ve_occurrences = [], ve_observed_at = observed_at, ve_command = command\<rparr>)) (\<lambda>_.
     Done (Inr \<lparr>ce_initialized = True, ce_occurrences = 0\<rparr>)))))))"

definition evaluation_through :: "automation_schedule_cursor \<Rightarrow> unix_millis \<Rightarrow> unix_millis" where
  "evaluation_through cursor observed_at =
     (case checked_add (cu_evaluated_through cursor) automation_scheduler_evaluation_window_ms of
        None \<Rightarrow> observed_at | Some bounded \<Rightarrow> min bounded observed_at)"

definition advance_cursor ::
  "'s automation_scheduler_store \<Rightarrow> ('d, 'z) calendar \<Rightarrow> sha256 \<Rightarrow> (nat \<Rightarrow> rstr) \<Rightarrow>
   automation_scheduler_lease_token \<Rightarrow> unix_millis \<Rightarrow> unix_millis \<Rightarrow> automation \<Rightarrow>
   automation_execution_snapshot \<Rightarrow> automation_schedule_cursor \<Rightarrow> ('s, candidate_evaluation_summary) app" where
  "advance_cursor port cal sha uuid lease continuity_started_at observed_at a snapshot cursor =
     (let through = evaluation_through cursor observed_at in
     try_prog (Done (map_err app_of_schedule
       (calculate cal (es_schedule snapshot) (es_timezone snapshot) (cu_evaluated_through cursor) through
          max_automation_schedule_decisions))) (\<lambda>calculation.
     try_prog (Done (fail_if (ev_truncated calculation)
       (Unavailable (MsgText ''automation scheduler calculation exceeded its bounded window'')))) (\<lambda>_.
     try_prog (materialize_decisions cal sha uuid a snapshot (ev_decisions calculation)
       continuity_started_at observed_at) (\<lambda>materialized.
     try_prog (Done (fail_if (max_automation_scheduler_evaluation_occurrences < length materialized)
       (Unavailable (MsgText ''automation scheduler evaluation produced too many occurrence decisions'')))) (\<lambda>_.
     let occurrences = sort_key (\<lambda>oc. local_order_key (oc_nominal_local oc)) materialized in
     try_prog (Done (map_err app_of_schedule
       (calculate_next cal (es_schedule snapshot) (es_timezone snapshot) through))) (\<lambda>decision.
     try_prog (Done (map_err app_of_scheduler
       (cursor_advance cal cursor through (Some decision) observed_at))) (\<lambda>advanced.
     try_prog (generate uuid (lit ''automation-evaluation'')) (\<lambda>key.
     try_prog (Done (evaluation_command sha key lease (au_revision a) (Some (cu_revision cursor))
       advanced occurrences)) (\<lambda>command.
     try_prog (store_write (\<lambda>s. as_commit_evaluation port s
         \<lparr>ve_lease = lease, ve_expected_automation_revision = au_revision a,
          ve_expected_cursor_revision = Some (cu_revision cursor), ve_cursor = advanced,
          ve_occurrences = occurrences, ve_observed_at = observed_at, ve_command = command\<rparr>)) (\<lambda>committed.
     Done (Inr \<lparr>ce_initialized = False, ce_occurrences = length (vr_occurrences committed)\<rparr>)))))))))))"

definition evaluate_candidate ::
  "'s automation_scheduler_store \<Rightarrow> ('d, 'z) calendar \<Rightarrow> sha256 \<Rightarrow> (nat \<Rightarrow> rstr) \<Rightarrow>
   automation_scheduler_lease_token \<Rightarrow> unix_millis \<Rightarrow> unix_millis \<Rightarrow> automation_schedule_candidate \<Rightarrow>
   ('s, candidate_evaluation_summary) app" where
  "evaluate_candidate port cal sha uuid lease continuity_started_at observed_at candidate =
     (let a = sk_automation candidate in
     try_prog (Done (fail_if (au_state a \<noteq> AutomationEnabled)
       (Integrity (MsgText ''scheduler store returned a non-enabled automation'')))) (\<lambda>_.
     try_prog (Done (map_err app_of_scheduler
       (execution_snapshot_new cal sha (au_revision a) (au_project_id a) (au_title a) (au_prompt a)
          (au_schedule a) (au_timezone a) (au_missed_run_policy a) (au_overlap_policy a)))) (\<lambda>snapshot.
     case sk_cursor candidate of
       None \<Rightarrow> initialize_cursor port cal sha uuid lease observed_at a snapshot
     | Some cursor \<Rightarrow>
         try_prog (Done (fail_if
             (cu_automation_id cursor \<noteq> au_id a \<or> cu_definition_revision cursor \<noteq> au_revision a \<or>
              cu_schedule_fingerprint cursor \<noteq> es_schedule_fingerprint snapshot \<or>
              cu_calculator_version cursor \<noteq> automation_schedule_calculator_version)
           (Integrity (MsgText ''automation scheduler cursor does not match its definition'')))) (\<lambda>_.
         try_prog (Done (fail_if (observed_at < cu_evaluated_through cursor)
           (InvalidState (MsgText ''automation scheduler clock predates its durable cursor'')))) (\<lambda>_.
         if observed_at = cu_evaluated_through cursor
         then Done (Inr \<lparr>ce_initialized = False, ce_occurrences = 0\<rparr>)
         else advance_cursor port cal sha uuid lease continuity_started_at observed_at a snapshot cursor)))))"

section \<open>The tick\<close>

datatype automation_scheduler_tick_status = TickCompleted | TickLeaseBusy | TickClockRegressed

record automation_scheduler_tick_summary =
  tk_status :: automation_scheduler_tick_status
  tk_lease_continuous :: bool
  tk_definitions_evaluated :: nat
  tk_cursors_initialized :: nat
  tk_occurrences_materialized :: nat
  tk_next_definition_cursor :: "automation_id option"
  tk_durable_clock_floor :: "unix_millis option"

definition tick_inactive :: "automation_scheduler_tick_status \<Rightarrow> automation_scheduler_tick_summary" where
  "tick_inactive status =
     \<lparr>tk_status = status, tk_lease_continuous = False, tk_definitions_evaluated = 0, tk_cursors_initialized = 0,
      tk_occurrences_materialized = 0, tk_next_definition_cursor = None, tk_durable_clock_floor = None\<rparr>"

definition tick_candidate ::
  "'s automation_scheduler_store \<Rightarrow> ('d, 'z) calendar \<Rightarrow> sha256 \<Rightarrow> (nat \<Rightarrow> rstr) \<Rightarrow>
   automation_scheduler_lease_token \<Rightarrow> unix_millis \<Rightarrow> unix_millis \<Rightarrow> automation_scheduler_tick_summary \<Rightarrow>
   automation_schedule_candidate \<Rightarrow> ('s, automation_scheduler_tick_summary) app" where
  "tick_candidate port cal sha uuid lease continuity_started_at observed_at summary candidate =
     try_prog (evaluate_candidate port cal sha uuid lease continuity_started_at observed_at candidate) (\<lambda>result.
     Done (Inr (summary\<lparr>
       tk_definitions_evaluated := tk_definitions_evaluated summary + 1,
       tk_cursors_initialized := tk_cursors_initialized summary + (if ce_initialized result then 1 else 0),
       tk_occurrences_materialized := tk_occurrences_materialized summary + ce_occurrences result\<rparr>)))"

definition tick_page ::
  "'s automation_scheduler_store \<Rightarrow> ('d, 'z) calendar \<Rightarrow> sha256 \<Rightarrow> (nat \<Rightarrow> rstr) \<Rightarrow> automation_id option \<Rightarrow> nat \<Rightarrow>
   unix_millis \<Rightarrow> automation_scheduler_lease \<Rightarrow> bool \<Rightarrow> unix_millis \<Rightarrow>
   ('s, automation_scheduler_tick_summary) app" where
  "tick_page port cal sha uuid after limit observed_at lease continuous continuity_started_at =
     try_prog (store_read (\<lambda>s. as_list_candidates port s after (limit + 1))) (\<lambda>candidates.
     let page = take limit candidates;
         following = (if limit < length candidates \<and> page \<noteq> [] then Some (au_id (sk_automation (last page))) else None)
     in fold_prog (tick_candidate port cal sha uuid (lease_token lease) continuity_started_at observed_at)
          \<lparr>tk_status = TickCompleted, tk_lease_continuous = continuous, tk_definitions_evaluated = 0,
           tk_cursors_initialized = 0, tk_occurrences_materialized = 0, tk_next_definition_cursor = following,
           tk_durable_clock_floor = None\<rparr> page)"

definition tick ::
  "'s automation_scheduler_store \<Rightarrow> ('d, 'z) calendar \<Rightarrow> sha256 \<Rightarrow> (nat \<Rightarrow> rstr) \<Rightarrow>
   automation_scheduler_owner_id \<Rightarrow> automation_id option \<Rightarrow> nat \<Rightarrow> ('s, automation_scheduler_tick_summary) app" where
  "tick port cal sha uuid owner after limit =
     try_prog (Done (fail_if (\<not> (1 \<le> limit \<and> limit \<le> max_automation_scheduler_tick_definitions))
       (InvalidInput (MsgText ''automation scheduler tick limit is outside the supported bounds'')))) (\<lambda>_.
     try_prog clock_now (\<lambda>observed_at.
     try_prog (store_write (\<lambda>s. as_acquire_lease port s owner observed_at automation_scheduler_lease_ttl_ms)) (\<lambda>acquisition.
     case acquisition of
       LeaseAcquired lease continuous continuity_started_at \<Rightarrow>
         tick_page port cal sha uuid after limit observed_at lease continuous continuity_started_at
     | LeaseBusy _ \<Rightarrow> Done (Inr (tick_inactive TickLeaseBusy))
     | LeaseClockRegressed durable_floor \<Rightarrow>
         Done (Inr (tick_inactive TickClockRegressed\<lparr>tk_durable_clock_floor := Some durable_floor\<rparr>)))))"

section \<open>Claiming due work\<close>

definition automation_thread_title :: "rstr \<Rightarrow> rstr" where
  "automation_thread_title title = lit ''Automation '' @ [183] @ lit '' '' @ title"

definition claim_command ::
  "sha256 \<Rightarrow> rstr \<Rightarrow> automation_occurrence \<Rightarrow> automation_scheduler_lease_token \<Rightarrow> thread \<Rightarrow> message \<Rightarrow> run \<Rightarrow>
   application_error + mutation_command" where
  "claim_command sha key oc lease thread prompt run =
     mutation_command_of sha automation_claim_scope key
       [automation_occurrence_id_str (oc_id oc), u64_to_string (oc_revision oc),
        automation_scheduler_owner_id_str (lt_owner_id lease), u64_to_string (lt_fence lease),
        thread_id_str (th_id thread), message_id_str (ms_id prompt), run_id_str (run_id_of run)]"

definition occurrence_dispatch ::
  "automation_occurrence \<Rightarrow> automation_scheduler_lease_token \<Rightarrow> unix_millis \<Rightarrow> thread \<Rightarrow> message \<Rightarrow> run \<Rightarrow>
   mutation_command \<Rightarrow> automation_occurrence_dispatch" where
  "occurrence_dispatch oc lease observed_at thread prompt run command =
     \<lparr>di_claim = \<lparr>cl_lease = lease, cl_occurrence_id = oc_id oc, cl_expected_revision = oc_revision oc,
        cl_claimed_at = observed_at,
        cl_expires_at = saturating_add observed_at automation_scheduler_lease_ttl_ms, cl_command = command\<rparr>,
      di_thread = thread, di_prompt = prompt, di_run = run\<rparr>"

text \<open>One pending occurrence: its thread, prompt and queued run, claimed and bound in one store call.
  A claim that another owner won is skipped, every other error ends the pass.\<close>

definition bind_occurrence ::
  "'s automation_scheduler_store \<Rightarrow> sha256 \<Rightarrow> (nat \<Rightarrow> rstr) \<Rightarrow> automation_scheduler_lease_token \<Rightarrow> unix_millis \<Rightarrow>
   nat \<Rightarrow> automation_occurrence \<Rightarrow> ('s, nat) app" where
  "bind_occurrence port sha uuid lease observed_at dispatched oc =
     (if oc_state oc \<noteq> OccPending then Done (Inr dispatched)
      else
        let snapshot = oc_snapshot oc in
        try_prog (new_id ThreadId uuid (lit ''automation-thread'')) (\<lambda>tid.
        try_prog (Done (map_err app_of_workspace
          (thread_new tid (es_project_id snapshot) (automation_thread_title (es_title snapshot)) observed_at))) (\<lambda>thread.
        try_prog (new_id MessageId uuid (lit ''automation-prompt'')) (\<lambda>mid.
        try_prog (Done (map_err app_of_workspace
          (message_new mid (th_id thread) RoleUser (es_prompt snapshot) observed_at))) (\<lambda>prompt.
        try_prog (new_id RunId uuid (lit ''automation-run'')) (\<lambda>rid.
        let run = run_queued_scheduled rid (es_project_id snapshot) (th_id thread) observed_at in
        try_prog (generate uuid (lit ''automation-claim'')) (\<lambda>key.
        try_prog (Done (claim_command sha key oc lease thread prompt run)) (\<lambda>command.
        try_prog (store_try (\<lambda>s. as_claim_and_bind port s
          (occurrence_dispatch oc lease observed_at thread prompt run command))) (\<lambda>result.
        case result of
          Inr _ \<Rightarrow> Done (Inr (dispatched + 1))
        | Inl StoreConflict \<Rightarrow> Done (Inr dispatched)
        | Inl StoreNotFound \<Rightarrow> Done (Inr dispatched)
        | Inl error \<Rightarrow> Done (Inl (app_of_store error)))))))))))"

definition bind_candidate ::
  "'s automation_scheduler_store \<Rightarrow> sha256 \<Rightarrow> (nat \<Rightarrow> rstr) \<Rightarrow> automation_scheduler_lease_token \<Rightarrow> unix_millis \<Rightarrow>
   nat \<Rightarrow> automation_schedule_candidate \<Rightarrow> ('s, nat) app" where
  "bind_candidate port sha uuid lease observed_at dispatched candidate =
     try_prog (store_read (\<lambda>s. as_list_occurrences port s (au_id (sk_automation candidate)) None 16)) (\<lambda>occurrences.
     fold_prog (bind_occurrence port sha uuid lease observed_at) dispatched occurrences)"

definition bind_due ::
  "'s automation_scheduler_store \<Rightarrow> sha256 \<Rightarrow> (nat \<Rightarrow> rstr) \<Rightarrow> automation_scheduler_owner_id \<Rightarrow> nat \<Rightarrow>
   ('s, nat) app" where
  "bind_due port sha uuid owner limit =
     try_prog clock_now (\<lambda>observed_at.
     try_prog (store_write (\<lambda>s. as_acquire_lease port s owner observed_at automation_scheduler_lease_ttl_ms)) (\<lambda>acquisition.
     case acquisition of
       LeaseAcquired lease _ _ \<Rightarrow>
         try_prog (store_read (\<lambda>s. as_list_candidates port s None limit)) (\<lambda>candidates.
         fold_prog (bind_candidate port sha uuid (lease_token lease) observed_at) 0 candidates)
     | _ \<Rightarrow> Done (Inr 0)))"

definition execute_due ::
  "'s automation_scheduler_store \<Rightarrow> ('d, 'z) calendar \<Rightarrow> sha256 \<Rightarrow> (nat \<Rightarrow> rstr) \<Rightarrow>
   automation_scheduler_owner_id \<Rightarrow> nat \<Rightarrow> ('s, nat) app" where
  "execute_due port cal sha uuid owner limit =
     try_prog (tick port cal sha uuid owner None limit) (\<lambda>first.
     try_prog (if tk_status first = TickCompleted \<and> 0 < tk_cursors_initialized first \<and>
                  tk_occurrences_materialized first = 0
               then tick port cal sha uuid owner None limit else Done (Inr first)) (\<lambda>summary.
     if tk_status summary \<noteq> TickCompleted then Done (Inr 0)
     else bind_due port sha uuid owner limit))"

section \<open>Running bound work\<close>

definition run_guest ::
  "guest \<Rightarrow> automation_occurrence_dispatch_result \<Rightarrow> ('s, automation_occurrence_run_completion) app" where
  "run_guest guest running =
     try_prog is_cancelled (\<lambda>cancelled.
     if cancelled then Done (Inr RunCancelled)
     else
       try_prog (dispatch_guest guest
         \<lparr>sg_occurrence_id = oc_id (dr_occurrence running), sg_run_id = run_id_of (dr_run running),
          sg_prompt = ms_content (dr_prompt running)\<rparr>) (\<lambda>race.
       Done (Inr (guest_completion (select_result race)))))"

primrec dispatch_each ::
  "'s automation_scheduler_store \<Rightarrow> guest \<Rightarrow> automation_occurrence_dispatch_result list \<Rightarrow> nat \<Rightarrow> ('s, nat) app" where
  "dispatch_each port guest [] completed_count = Done (Inr completed_count)"
| "dispatch_each port guest (bound # rest) completed_count =
     try_prog is_cancelled (\<lambda>cancelled.
     if cancelled then Done (Inr completed_count)
     else
       try_prog clock_now (\<lambda>now.
       try_prog (store_try (\<lambda>s. as_begin_run port s (oc_id (dr_occurrence bound)) (oc_revision (dr_occurrence bound))
         (run_id_of (dr_run bound)) (run_revision (dr_run bound)) now)) (\<lambda>begun.
       case begun of
         Inl StoreConflict \<Rightarrow> dispatch_each port guest rest completed_count
       | Inl StoreNotFound \<Rightarrow> dispatch_each port guest rest completed_count
       | Inl error \<Rightarrow> Done (Inl (app_of_store error))
       | Inr running \<Rightarrow>
           try_prog (run_guest guest running) (\<lambda>completion.
           try_prog clock_now (\<lambda>now.
           try_prog (store_write (\<lambda>s. as_complete_run port s (oc_id (dr_occurrence running))
             (oc_revision (dr_occurrence running)) (run_id_of (dr_run running)) completion now)) (\<lambda>_.
           dispatch_each port guest rest (completed_count + 1)))))))"

definition dispatch_resumable ::
  "'s automation_scheduler_store \<Rightarrow> guest \<Rightarrow> nat \<Rightarrow> ('s, nat) app" where
  "dispatch_resumable port guest limit =
     try_prog (Done (fail_if (\<not> (1 \<le> limit \<and> limit \<le> max_automation_scheduler_tick_definitions))
       (InvalidInput (MsgText ''automation dispatch limit is outside the supported bounds'')))) (\<lambda>_.
     try_prog (store_read (\<lambda>s. as_list_resumable port s None limit)) (\<lambda>resumable.
     dispatch_each port guest resumable 0))"

definition recover_expired_claims ::
  "'s automation_scheduler_store \<Rightarrow> automation_scheduler_owner_id \<Rightarrow> nat \<Rightarrow>
   ('s, automation_scheduler_recovery_summary) app" where
  "recover_expired_claims port owner limit =
     try_prog (Done (fail_if (\<not> (1 \<le> limit \<and> limit \<le> max_automation_scheduler_recovery_batch))
       (InvalidInput (MsgText ''automation scheduler recovery limit is outside the supported bounds'')))) (\<lambda>_.
     try_prog clock_now (\<lambda>now.
     try_prog (store_write (\<lambda>s. as_acquire_lease port s owner now automation_scheduler_lease_ttl_ms)) (\<lambda>acquisition.
     case acquisition of
       LeaseAcquired lease _ _ \<Rightarrow> store_write (\<lambda>s. as_recover_claims port s (lease_token lease) now limit)
     | LeaseBusy _ \<Rightarrow> Done (Inl (Unavailable (MsgText ''automation scheduler lease is busy'')))
     | LeaseClockRegressed _ \<Rightarrow> Done (Inl (InvalidState (MsgText ''automation scheduler clock regressed''))))))"

definition journal_status ::
  "'s automation_scheduler_store \<Rightarrow> ('s world, store_error + automation_scheduler_journal_status) prog" where
  "journal_status port = Call (\<lambda>w. w) (\<lambda>w. Done (as_journal_status port (wd_store w)))"

section \<open>Requests to the service\<close>

datatype scheduler_request =
    TickRequest automation_scheduler_owner_id "automation_id option" nat
  | ExecuteDueRequest automation_scheduler_owner_id nat
  | DispatchRequest nat
  | RecoverRequest automation_scheduler_owner_id nat

datatype scheduler_reply =
    TickReply automation_scheduler_tick_summary
  | CountReply nat
  | RecoverReply automation_scheduler_recovery_summary

fun serve_scheduler ::
  "'s automation_scheduler_store \<Rightarrow> ('d, 'z) calendar \<Rightarrow> sha256 \<Rightarrow> (nat \<Rightarrow> rstr) \<Rightarrow> guest \<Rightarrow> scheduler_request \<Rightarrow>
   ('s, scheduler_reply) app" where
  "serve_scheduler port cal sha uuid guest (TickRequest owner after limit) =
     map_prog (map_ok TickReply) (tick port cal sha uuid owner after limit)"
| "serve_scheduler port cal sha uuid guest (ExecuteDueRequest owner limit) =
     map_prog (map_ok CountReply) (execute_due port cal sha uuid owner limit)"
| "serve_scheduler port cal sha uuid guest (DispatchRequest limit) =
     map_prog (map_ok CountReply) (dispatch_resumable port guest limit)"
| "serve_scheduler port cal sha uuid guest (RecoverRequest owner limit) =
     map_prog (map_ok RecoverReply) (recover_expired_claims port owner limit)"

end
