(* ===== verification/SchedulerInvariants.thy ===== *)
theory SchedulerInvariants
  imports SchedulerStore ExecutionInvariants
begin

text \<open>
  What the scheduler journal keeps. \<open>sched_inv\<close> is the invariant: stored occurrences restore and
  sit under their own identifier, no two share a schedule slot, each automation has at most one
  active and one queued occurrence, claim attempts match the occurrences, bindings point at the
  linked run. \<open>sched_evolves\<close> is how the journal changes: occurrences and runs only step along
  their lifecycles.
\<close>

section \<open>Moves of the occurrence map\<close>

type_synonym occurrence_map = "(automation_occurrence_id, automation_occurrence) hmap"

definition unique_by ::
  "(automation_occurrence \<Rightarrow> automation_occurrence \<Rightarrow> bool) \<Rightarrow> occurrence_map \<Rightarrow> bool" where
  "unique_by R m \<longleftrightarrow>
     (\<forall>i j a b. hm_get m i = Some a \<longrightarrow> hm_get m j = Some b \<longrightarrow> R a b \<longrightarrow> i = j)"

abbreviation is_active :: "automation_occurrence \<Rightarrow> bool" where
  "is_active oc \<equiv> automation_occurrence_is_active (oc_state oc)"

abbreviation is_queued :: "automation_occurrence \<Rightarrow> bool" where
  "is_queued oc \<equiv> oc_state oc = OccQueuedOverlap"

definition same_slot :: "automation_occurrence \<Rightarrow> automation_occurrence \<Rightarrow> bool" where
  "same_slot a b \<longleftrightarrow> oc_automation_id a = oc_automation_id b \<and> occurrence_slot a = occurrence_slot b"

definition both_active :: "automation_occurrence \<Rightarrow> automation_occurrence \<Rightarrow> bool" where
  "both_active a b \<longleftrightarrow> oc_automation_id a = oc_automation_id b \<and> is_active a \<and> is_active b"

definition both_queued :: "automation_occurrence \<Rightarrow> automation_occurrence \<Rightarrow> bool" where
  "both_queued a b \<longleftrightarrow> oc_automation_id a = oc_automation_id b \<and> is_queued a \<and> is_queued b"

definition occurrences_ok :: "('d, 'z) calendar \<Rightarrow> sha256 \<Rightarrow> occurrence_map \<Rightarrow> bool" where
  "occurrences_ok cal sha m \<longleftrightarrow> hm_wf m \<and>
     (\<forall>i oc. hm_get m i = Some oc \<longrightarrow> oc_id oc = i \<and> occurrence_inv cal sha oc) \<and>
     unique_by same_slot m \<and> unique_by both_active m \<and> unique_by both_queued m"

lemma occurrences_okD:
  assumes "occurrences_ok cal sha m"
  shows occurrences_ok_wf: "hm_wf m"
    and occurrences_ok_row: "hm_get m i = Some oc \<Longrightarrow> oc_id oc = i \<and> occurrence_inv cal sha oc"
    and occurrences_ok_slot: "unique_by same_slot m"
    and occurrences_ok_active: "unique_by both_active m"
    and occurrences_ok_queued: "unique_by both_queued m"
  using assms by (simp_all add: occurrences_ok_def)

text \<open>
  How the operations other than the evaluation commit change the map: rows only step, a row
  becomes active only if it was, or if it was queued and the active row of its automation left;
  a queued row leaves the queue only by becoming active.
\<close>

definition active_left :: "occurrence_map \<Rightarrow> occurrence_map \<Rightarrow> automation_id \<Rightarrow> bool" where
  "active_left m m' aid \<longleftrightarrow>
     (\<exists>j b. hm_get m j = Some b \<and> oc_automation_id b = aid \<and> is_active b) \<and>
     (\<forall>j b b'. hm_get m j = Some b \<longrightarrow> hm_get m' j = Some b' \<longrightarrow> oc_automation_id b = aid \<longrightarrow>
        is_active b \<longrightarrow> \<not> is_active b')"

lemma active_leftD:
  "active_left m m' aid \<Longrightarrow> hm_get m j = Some b \<Longrightarrow> hm_get m' j = Some b' \<Longrightarrow> oc_automation_id b = aid \<Longrightarrow>
   is_active b \<Longrightarrow> \<not> is_active b'"
  unfolding active_left_def by blast

definition occurrences_move :: "occurrence_map \<Rightarrow> occurrence_map \<Rightarrow> bool" where
  "occurrences_move m m' \<longleftrightarrow>
     (\<forall>i. hm_get m i = None \<longrightarrow> hm_get m' i = None) \<and>
     (\<forall>i oc. hm_get m i = Some oc \<longrightarrow> (\<exists>oc'. hm_get m' i = Some oc' \<and> occurrence_step\<^sup>*\<^sup>* oc oc')) \<and>
     (\<forall>i a a'. hm_get m i = Some a \<longrightarrow> hm_get m' i = Some a' \<longrightarrow> is_queued a' \<longrightarrow> is_queued a) \<and>
     (\<forall>i a a'. hm_get m i = Some a \<longrightarrow> hm_get m' i = Some a' \<longrightarrow> is_queued a \<longrightarrow> is_queued a' \<or> is_active a') \<and>
     (\<forall>i a a'. hm_get m i = Some a \<longrightarrow> hm_get m' i = Some a' \<longrightarrow> is_active a' \<longrightarrow>
        is_active a \<or> is_queued a \<and> active_left m m' (oc_automation_id a))"

lemma occurrence_steps_frame: "occurrence_step\<^sup>*\<^sup>* oc oc' \<Longrightarrow> occurrence_frame oc' = occurrence_frame oc"
  by (rule occurrence_life.steps_ident)

lemma occurrence_steps_fields:
  assumes "occurrence_step\<^sup>*\<^sup>* oc oc'"
  shows "oc_id oc' = oc_id oc" "oc_automation_id oc' = oc_automation_id oc"
    "oc_snapshot oc' = oc_snapshot oc" "occurrence_slot oc' = occurrence_slot oc"
  using occurrence_steps_frame [OF assms] by (auto simp: occurrence_frame_def occurrence_slot_def)

lemma occurrence_steps_inv:
  "occurrence_step\<^sup>*\<^sup>* oc oc' \<Longrightarrow> occurrence_inv cal sha oc \<Longrightarrow> occurrence_inv cal sha oc'"
  by (induction rule: rtranclp_induct) (auto intro: occurrence_rest.step_accepted)

lemma occurrences_moveD:
  assumes "occurrences_move m m'"
  shows occurrences_move_none: "hm_get m i = None \<Longrightarrow> hm_get m' i = None"
    and occurrences_move_some: "hm_get m i = Some a \<Longrightarrow> \<exists>a'. hm_get m' i = Some a' \<and> occurrence_step\<^sup>*\<^sup>* a a'"
    and occurrences_move_queued:
      "hm_get m i = Some a \<Longrightarrow> hm_get m' i = Some a' \<Longrightarrow> is_queued a' \<Longrightarrow> is_queued a"
    and occurrences_move_kept:
      "hm_get m i = Some a \<Longrightarrow> hm_get m' i = Some a' \<Longrightarrow> is_queued a \<Longrightarrow> is_queued a' \<or> is_active a'"
    and occurrences_move_active:
      "hm_get m i = Some a \<Longrightarrow> hm_get m' i = Some a' \<Longrightarrow> is_active a' \<Longrightarrow>
       is_active a \<or> is_queued a \<and> active_left m m' (oc_automation_id a)"
  using assms unfolding occurrences_move_def by blast+

lemma occurrences_move_row:
  assumes move: "occurrences_move m m'" and a: "hm_get m' i = Some a"
  shows "\<exists>a0. hm_get m i = Some a0 \<and> occurrence_step\<^sup>*\<^sup>* a0 a \<and> (is_queued a \<longrightarrow> is_queued a0) \<and>
    (is_active a \<longrightarrow> is_active a0 \<or> is_queued a0 \<and> active_left m m' (oc_automation_id a0))"
proof (cases "hm_get m i")
  case None
  with occurrences_move_none [OF move] a show ?thesis by simp
next
  case (Some a0)
  with occurrences_move_some [OF move Some] a have "occurrence_step\<^sup>*\<^sup>* a0 a" by auto
  with Some occurrences_move_queued [OF move Some a] occurrences_move_active [OF move Some a]
  show ?thesis by blast
qed

lemma unique_byD: "unique_by R m \<Longrightarrow> hm_get m i = Some a \<Longrightarrow> hm_get m j = Some b \<Longrightarrow> R a b \<Longrightarrow> i = j"
  unfolding unique_by_def by blast

lemma occurrences_move_unique:
  assumes slot: "unique_by same_slot m" and active: "unique_by both_active m"
    and queued: "unique_by both_queued m" and move: "occurrences_move m m'"
  shows "unique_by same_slot m' \<and> unique_by both_active m' \<and> unique_by both_queued m'"
proof -
  have "(same_slot a b \<or> both_active a b \<or> both_queued a b) \<longrightarrow> i = j"
    if a: "hm_get m' i = Some a" and b: "hm_get m' j = Some b" for i j a b
  proof -
    obtain a0 where a0: "hm_get m i = Some a0" and sa: "occurrence_step\<^sup>*\<^sup>* a0 a"
        and qa: "is_queued a \<Longrightarrow> is_queued a0"
        and aa: "is_active a \<Longrightarrow> is_active a0 \<or> is_queued a0 \<and> active_left m m' (oc_automation_id a0)"
      using occurrences_move_row [OF move a] by blast
    obtain b0 where b0: "hm_get m j = Some b0" and sb: "occurrence_step\<^sup>*\<^sup>* b0 b"
        and qb: "is_queued b \<Longrightarrow> is_queued b0"
        and ab: "is_active b \<Longrightarrow> is_active b0 \<or> is_queued b0 \<and> active_left m m' (oc_automation_id b0)"
      using occurrences_move_row [OF move b] by blast
    note fa = occurrence_steps_fields [OF sa] and fb = occurrence_steps_fields [OF sb]
    have "i = j" if "same_slot a b"
      using that fa fb by (intro unique_byD [OF slot a0 b0]) (simp add: same_slot_def)
    moreover have "i = j" if "both_queued a b"
      using that fa fb qa qb by (intro unique_byD [OF queued a0 b0]) (simp add: both_queued_def)
    moreover have "i = j" if act: "both_active a b"
    proof -
      have eq: "oc_automation_id a0 = oc_automation_id b0" using act fa fb by (simp add: both_active_def)
      from act aa ab have "is_active a0 \<or> is_queued a0 \<and> \<not> is_active b0"
        "is_active b0 \<or> is_queued b0 \<and> \<not> is_active a0"
        using active_leftD [OF _ b0 b] active_leftD [OF _ a0 a] eq unfolding both_active_def by metis+
      then consider "is_active a0" "is_active b0" | "is_queued a0" "is_queued b0" by blast
      then show ?thesis
        using unique_byD [OF active a0 b0] unique_byD [OF queued a0 b0] eq
        by cases (simp_all add: both_active_def both_queued_def)
    qed
    ultimately show ?thesis by blast
  qed
  then show ?thesis unfolding unique_by_def by blast
qed

lemma occurrences_move_keeps:
  assumes ok: "occurrences_ok cal sha m" and wf: "hm_wf m'" and move: "occurrences_move m m'"
  shows "occurrences_ok cal sha m'"
proof -
  have "oc_id oc' = i \<and> occurrence_inv cal sha oc'" if r: "hm_get m' i = Some oc'" for i oc'
  proof -
    obtain oc where "hm_get m i = Some oc" and steps: "occurrence_step\<^sup>*\<^sup>* oc oc'"
      using occurrences_move_row [OF move r] by blast
    with ok have "oc_id oc = i" "occurrence_inv cal sha oc" by (simp_all add: occurrences_ok_def)
    with occurrence_steps_fields(1) [OF steps] occurrence_steps_inv [OF steps] show ?thesis by simp
  qed
  moreover have "unique_by same_slot m' \<and> unique_by both_active m' \<and> unique_by both_queued m'"
    using occurrences_move_unique [OF _ _ _ move] ok by (simp add: occurrences_ok_def)
  ultimately show ?thesis using wf by (simp add: occurrences_ok_def)
qed

lemma occurrences_move_refl [simp]: "occurrences_move m m"
  by (auto simp: occurrences_move_def)

text \<open>Replacing one row.\<close>

lemma occurrences_move_put:
  assumes "hm_get m i = Some oc" and "occurrence_step\<^sup>*\<^sup>* oc oc'"
    and "is_active oc' \<Longrightarrow> is_active oc" and "is_queued oc' \<Longrightarrow> is_queued oc"
    and "is_queued oc \<Longrightarrow> is_queued oc' \<or> is_active oc'"
  shows "occurrences_move m (hm_insert i oc' m)"
  using assms by (auto simp: occurrences_move_def)

text \<open>Replacing the active row by a settled one and promoting the queued row, if any.\<close>

lemma occurrences_move_promote:
  assumes "unique_by both_active m"
    and "hm_get m i = Some oc" and "occurrence_step\<^sup>*\<^sup>* oc oc'" and "is_active oc"
    and "\<not> is_active oc'" and "\<not> is_queued oc'"
    and "hm_get m j = Some q" and "is_queued q" and "occurrence_step\<^sup>*\<^sup>* q q'" and "is_active q'"
    and "oc_automation_id q = oc_automation_id oc"
  shows "occurrences_move m (hm_insert j q' (hm_insert i oc' m))"
proof -
  have ij: "i \<noteq> j" using assms(2,4,7,8) by (cases "i = j") auto
  have sole: "k = i" if "hm_get m k = Some b" "oc_automation_id b = oc_automation_id oc" "is_active b" for k b
    using assms(1,2,4) that unfolding unique_by_def both_active_def by blast
  let ?m' = "hm_insert j q' (hm_insert i oc' m)"
  have row: "k = i \<and> a = oc \<and> a' = oc' \<or> k = j \<and> a = q \<and> a' = q' \<or> a' = a"
    if "hm_get m k = Some a" "hm_get ?m' k = Some a'" for k a a'
    using that assms(2,7) ij by (auto split: if_splits)
  have left: "active_left m ?m' (oc_automation_id q)"
    unfolding active_left_def
  proof (intro conjI allI impI)
    fix k a a'
    assume k: "hm_get m k = Some a" "hm_get ?m' k = Some a'" "oc_automation_id a = oc_automation_id q" "is_active a"
    then have "k = i" using sole assms(11) by simp
    with k(2) ij assms(5) show "\<not> is_active a'" by simp
  qed (use assms(2,4,11) in auto)
  have steps: "\<exists>a'. hm_get ?m' k = Some a' \<and> occurrence_step\<^sup>*\<^sup>* a a'" if "hm_get m k = Some a" for k a
    using that assms(2,3,7,9) ij by auto
  have nq: "\<not> is_queued q'" using assms(10) by auto
  show ?thesis
    unfolding occurrences_move_def
  proof (intro conjI allI impI)
    fix k a a'
    assume k: "hm_get m k = Some a" "hm_get ?m' k = Some a'"
    note r = row [OF k]
    show "is_queued a" if "is_queued a'" using r that assms(6) nq by blast
    show "is_queued a' \<or> is_active a'" if "is_queued a" using r that assms(4,10) by auto
    show "is_active a \<or> is_queued a \<and> active_left m ?m' (oc_automation_id a)" if "is_active a'"
      using r that assms(5,8) left by blast
  qed (use steps assms(2,7) in auto)
qed

section \<open>Claim attempts\<close>

definition attempt_ok :: "automation_occurrence_id \<Rightarrow> nat \<Rightarrow> claim_attempt \<Rightarrow> bool" where
  "attempt_ok i k a \<longleftrightarrow>
     k < 16 \<and> unat (ca_sequence a) = Suc k \<and> ca_occurrence_id a = i \<and> ca_fence a \<noteq> 0 \<and>
     ca_claimed_at a < ca_expires_at a \<and>
     ca_expires_at a - ca_claimed_at a \<le> max_automation_scheduler_lease_ms \<and>
     (ca_completed_at a = None \<longleftrightarrow> ca_completion a = None) \<and>
     (\<forall>t. ca_completed_at a = Some t \<longrightarrow> ca_claimed_at a \<le> t)"

abbreviation is_open :: "claim_attempt \<Rightarrow> bool" where
  "is_open a \<equiv> ca_completed_at a = None"

text \<open>
  The attempts a history produces: one per claim, numbered from one, all closed except the last of
  a claimed occurrence, which matches its claim; a linked run sealed its attempt.
\<close>

definition attempts_inv :: "automation_occurrence \<Rightarrow> claim_attempt list \<Rightarrow> bool" where
  "attempts_inv oc as \<longleftrightarrow>
     length as = unat (oc_claim_attempt_count oc) \<and>
     (\<forall>k < length as. attempt_ok (oc_id oc) k (as ! k)) \<and>
     (if oc_state oc = OccClaimed
      then as \<noteq> [] \<and> (\<forall>a \<in> set (butlast as). \<not> is_open a) \<and> is_open (last as) \<and>
           attempt_matches_claim oc (last as)
      else \<forall>a \<in> set as. \<not> is_open a) \<and>
     (oc_state oc = OccRunLinked \<longrightarrow> as \<noteq> [] \<and> ca_completion (last as) = Some CompletionRunLinked)"

lemma sequence_number:
  "k < 16 \<Longrightarrow> unat (w :: u32) = Suc k \<Longrightarrow> checked_add (of_nat k :: u32) 1 = Some w"
proof -
  assume k: "k < 16" and w: "unat w = Suc k"
  have "unat (of_nat k :: u32) = k" using k by (simp add: unat_of_nat)
  then have "checked_add (of_nat k :: u32) 1 = Some (of_nat k + 1)"
    using k by (simp add: checked_add_def)
  moreover have "w = of_nat k + 1"
    using arg_cong [OF w, of "of_nat :: nat \<Rightarrow> u32"] by (simp add: algebra_simps)
  ultimately show ?thesis by simp
qed

lemma attempt_accepted:
  assumes "attempt_ok (oc_id oc) k a" and "is_open a \<Longrightarrow> attempt_matches_claim oc a"
  shows "validate_claim_attempt oc (k, n) a = Inr (Suc k, if is_open a then Suc n else n)"
proof -
  have "ca_sequence a \<le> max_automation_occurrence_claim_attempts"
    using assms(1) by (simp add: attempt_ok_def max_automation_occurrence_claim_attempts_def word_le_nat_alt)
  moreover have "checked_add (of_nat k :: u32) 1 = Some (ca_sequence a)"
    using assms(1) by (intro sequence_number) (simp_all add: attempt_ok_def)
  moreover have "\<not> ca_expires_at a \<le> ca_claimed_at a"
    "\<not> max_automation_scheduler_lease_ms < ca_expires_at a - ca_claimed_at a"
    "(ca_completed_at a = None) = (ca_completion a = None)"
    "\<not> (case ca_completed_at a of None \<Rightarrow> False | Some t \<Rightarrow> t < ca_claimed_at a)"
    using assms(1) by (auto simp: attempt_ok_def not_le not_less split: option.splits)
  ultimately show ?thesis
    using assms by (simp add: validate_claim_attempt_def attempt_ok_def leD)
qed

lemma attempts_accepted:
  assumes "\<forall>j < length as. attempt_ok (oc_id oc) (k + j) (as ! j)"
    and "\<forall>a \<in> set as. is_open a \<longrightarrow> attempt_matches_claim oc a"
  shows "result_fold (validate_claim_attempt oc) (k, n) as =
    Inr (k + length as, n + length (filter is_open as))"
  using assms
proof (induction as arbitrary: k n)
  case (Cons a as)
  have "attempt_ok (oc_id oc) k a" using Cons.prems(1) by force
  then have step: "validate_claim_attempt oc (k, n) a = Inr (Suc k, if is_open a then Suc n else n)"
    using Cons.prems(2) by (intro attempt_accepted) auto
  have "\<forall>j < length as. attempt_ok (oc_id oc) (Suc k + j) (as ! j)"
    using Cons.prems(1) by (metis Suc_less_eq add_Suc_shift length_Cons nth_Cons_Suc)
  with Cons.IH [of "Suc k" "if is_open a then Suc n else n"] Cons.prems(2) step show ?case by auto
qed simp

lemma filter_open_butlast:
  "as \<noteq> [] \<Longrightarrow> \<forall>a \<in> set (butlast as). \<not> is_open a \<Longrightarrow>
   filter is_open as = (if is_open (last as) then [last as] else [])"
  by (induction as) (auto split: if_splits)

lemma attempts_inv_validates:
  assumes "attempts_inv oc as"
  shows "validate_claim_attempt_sequence oc as = Inr ()"
proof -
  have opens: "filter is_open as = (if oc_state oc = OccClaimed then [last as] else [])"
  proof (cases "oc_state oc = OccClaimed")
    case True
    with assms filter_open_butlast [of as] show ?thesis by (simp add: attempts_inv_def)
  next
    case False
    with assms show ?thesis by (simp add: attempts_inv_def filter_empty_conv)
  qed
  have "\<forall>a \<in> set as. is_open a \<longrightarrow> attempt_matches_claim oc a"
  proof (cases "oc_state oc = OccClaimed")
    case True
    with assms have closed: "\<forall>a \<in> set (butlast as). \<not> is_open a" "attempt_matches_claim oc (last as)"
        and "as \<noteq> []" by (simp_all add: attempts_inv_def)
    then have "set as = insert (last as) (set (butlast as))"
      by (metis append_butlast_last_id list.simps(15) rotate1.simps(2) set_rotate1)
    with closed show ?thesis by auto
  next
    case False
    with assms show ?thesis by (auto simp: attempts_inv_def)
  qed
  then have "result_fold (validate_claim_attempt oc) (0, 0) as = Inr (length as, length (filter is_open as))"
    using assms attempts_accepted [of as oc 0 0] by (simp add: attempts_inv_def)
  then show ?thesis
    using assms opens
    by (cases "oc_state oc") (auto simp: validate_claim_attempt_sequence_def attempts_inv_def run_linked_sealed_def)
qed

text \<open>A change that leaves the claim count: the attempts stay, and none is open before or after.\<close>

lemma attempts_inv_settled:
  assumes "attempts_inv oc as" and "oc_id oc' = oc_id oc"
    and "oc_claim_attempt_count oc' = oc_claim_attempt_count oc"
    and "oc_state oc \<noteq> OccClaimed" and "oc_state oc' \<noteq> OccClaimed" and "oc_state oc' \<noteq> OccRunLinked"
  shows "attempts_inv oc' as"
  using assms by (simp add: attempts_inv_def)

lemma attempts_inv_append:
  assumes inv: "attempts_inv oc as" and "oc_state oc \<noteq> OccClaimed" and "oc_id oc' = oc_id oc"
    and count: "unat (oc_claim_attempt_count oc') = Suc (length as)"
    and new: "attempt_ok (oc_id oc) (length as) a"
    and final: "oc_state oc' = OccClaimed \<and> is_open a \<and> attempt_matches_claim oc' a \<or>
      oc_state oc' = OccRunLinked \<and> ca_completion a = Some CompletionRunLinked"
  shows "attempts_inv oc' (as @ [a])"
proof -
  have closed: "\<forall>x \<in> set as. \<not> is_open x" using inv assms(2) by (simp add: attempts_inv_def)
  have "\<not> is_open a" if "ca_completion a = Some CompletionRunLinked"
    using new that by (simp add: attempt_ok_def)
  moreover have "attempt_ok (oc_id oc') k ((as @ [a]) ! k)" if "k < length (as @ [a])" for k
    using inv new that assms(3) by (cases "k = length as") (auto simp: attempts_inv_def nth_append)
  ultimately show ?thesis
    using count final closed unfolding attempts_inv_def by auto
qed

lemma attempts_inv_complete:
  assumes inv: "attempts_inv oc as" and claimed: "oc_state oc = OccClaimed"
    and step: "complete_claim_attempt oc as completion t = Inr as'"
    and time: "\<And>c. oc_claim oc = Some c \<Longrightarrow> cm_claimed_at c \<le> t"
    and oc': "oc_id oc' = oc_id oc" "oc_claim_attempt_count oc' = oc_claim_attempt_count oc"
      "oc_state oc' \<noteq> OccClaimed" "oc_state oc' = OccRunLinked \<Longrightarrow> completion = CompletionRunLinked"
  shows "attempts_inv oc' as'"
proof -
  let ?a = "(last as)\<lparr>ca_completed_at := Some t, ca_completion := Some completion\<rparr>"
  have as: "as \<noteq> []" "\<forall>a \<in> set (butlast as). \<not> is_open a" "attempt_matches_claim oc (last as)"
    using inv claimed by (simp_all add: attempts_inv_def)
  have as': "as' = butlast as @ [?a]"
    using step by (auto simp: complete_claim_attempt_def result_simps)
  have "ca_claimed_at (last as) \<le> t"
    using as(3) time by (auto simp: attempt_matches_claim_def split: option.splits)
  moreover have "attempt_ok (oc_id oc) (length as - 1) (last as)"
  proof -
    have "length as - 1 < length as" using as(1) by simp
    with inv show ?thesis unfolding attempts_inv_def last_conv_nth [OF as(1)] by blast
  qed
  ultimately have last: "attempt_ok (oc_id oc) (length as - 1) ?a"
    by (simp add: attempt_ok_def)
  have "attempt_ok (oc_id oc') k (as' ! k)" if "k < length as'" for k
  proof (cases "k = length as - 1")
    case True
    with last oc'(1) show ?thesis by (simp add: as' nth_append)
  next
    case False
    with that as(1) have "k < length (butlast as)" by (simp add: as')
    with inv oc'(1) show ?thesis by (simp add: as' nth_append nth_butlast attempts_inv_def)
  qed
  moreover have "length as' = unat (oc_claim_attempt_count oc')"
  proof -
    have "length as' = length as" using as(1) by (simp add: as')
    with inv oc'(2) show ?thesis by (simp add: attempts_inv_def)
  qed
  moreover have "\<forall>a \<in> set as'. \<not> is_open a" "as' \<noteq> []" "ca_completion (last as') = Some completion"
    using as(2) by (simp_all add: as')
  ultimately show ?thesis
    using oc'(3,4) unfolding attempts_inv_def by auto
qed

section \<open>The invariant\<close>

definition attempts_of ::
  "(automation_occurrence_id, claim_attempt list) hmap \<Rightarrow> automation_occurrence_id \<Rightarrow> claim_attempt list" where
  "attempts_of am i = (case hm_get am i of None \<Rightarrow> [] | Some as \<Rightarrow> as)"

definition attempts_ok ::
  "occurrence_map \<Rightarrow> (automation_occurrence_id, claim_attempt list) hmap \<Rightarrow> bool" where
  "attempts_ok m am \<longleftrightarrow>
     (\<forall>i. hm_get m i = None \<longrightarrow> hm_get am i = None) \<and>
     (\<forall>i oc. hm_get m i = Some oc \<longrightarrow> attempts_inv oc (attempts_of am i))"

definition dispatches_ok ::
  "occurrence_map \<Rightarrow> (automation_occurrence_id, automation_occurrence_dispatch_result) hmap \<Rightarrow> bool" where
  "dispatches_ok m ds \<longleftrightarrow> hm_wf ds \<and>
     (\<forall>i d. hm_get ds i = Some d \<longrightarrow> oc_id (dr_occurrence d) = i \<and>
        (\<exists>oc. hm_get m i = Some oc \<and> oc_run_id oc = Some (run_id_of (dr_run d))))"

text \<open>Linked runs are stored, and no two occurrences are linked to the same run.\<close>

definition same_run :: "automation_occurrence \<Rightarrow> automation_occurrence \<Rightarrow> bool" where
  "same_run a b \<longleftrightarrow> oc_run_id a \<noteq> None \<and> oc_run_id a = oc_run_id b"

definition links_ok :: "(run_id, run) hmap \<Rightarrow> occurrence_map \<Rightarrow> bool" where
  "links_ok rs m \<longleftrightarrow>
     (\<forall>i oc r. hm_get m i = Some oc \<longrightarrow> oc_run_id oc = Some r \<longrightarrow> hm_get rs r \<noteq> None) \<and>
     unique_by same_run m"

definition cursors_ok ::
  "('d, 'z) calendar \<Rightarrow> (automation_id, automation_schedule_cursor) hmap \<Rightarrow> bool" where
  "cursors_ok cal cs \<longleftrightarrow> hm_wf cs \<and> (\<forall>i c. hm_get cs i = Some c \<longrightarrow> is_ok (cursor_restore cal c))"

definition lease_ok :: "automation_scheduler_lease option \<Rightarrow> bool" where
  "lease_ok l \<longleftrightarrow> (\<forall>lease. l = Some lease \<longrightarrow> is_ok (lease_restore lease))"

definition sched_inv :: "('d, 'z) calendar \<Rightarrow> sha256 \<Rightarrow> mem_state \<Rightarrow> bool" where
  "sched_inv cal sha s \<longleftrightarrow>
     exec_inv (mm_exec s) \<and> lease_ok (sc_lease (mm_sched s)) \<and>
     cursors_ok cal (sc_cursors (mm_sched s)) \<and>
     occurrences_ok cal sha (mm_occurrences s) \<and>
     attempts_ok (mm_occurrences s) (sc_claim_attempts (mm_sched s)) \<and>
     dispatches_ok (mm_occurrences s) (mm_dispatches s) \<and>
     links_ok (mm_runs s) (mm_occurrences s)"

definition sched_evolves :: "mem_state \<Rightarrow> mem_state \<Rightarrow> bool" where
  "sched_evolves s s' \<longleftrightarrow>
     rows_evolve occurrence_step (mm_occurrences s) (mm_occurrences s') \<and>
     rows_evolve run_step (mm_runs s) (mm_runs s')"

text \<open>
  One operation: it moves the stored occurrences, or adds occurrences of one automation that has an
  active one if it has a queued one.
\<close>

definition stranded :: "occurrence_map \<Rightarrow> automation_id \<Rightarrow> bool" where
  "stranded m aid \<longleftrightarrow>
     (\<exists>i q. hm_get m i = Some q \<and> oc_automation_id q = aid \<and> is_queued q) \<and>
     (\<forall>i b. hm_get m i = Some b \<longrightarrow> oc_automation_id b = aid \<longrightarrow> \<not> is_active b)"

definition occurrences_grow :: "occurrence_map \<Rightarrow> occurrence_map \<Rightarrow> automation_id \<Rightarrow> bool" where
  "occurrences_grow m m' aid \<longleftrightarrow> \<not> stranded m aid \<and>
     (\<forall>i a. hm_get m i = Some a \<longrightarrow> hm_get m' i = Some a) \<and>
     (\<forall>i a. hm_get m' i = Some a \<longrightarrow> hm_get m i = Some a \<or> oc_automation_id a = aid)"

definition sched_moves :: "mem_state \<Rightarrow> mem_state \<Rightarrow> bool" where
  "sched_moves s s' \<longleftrightarrow>
     (occurrences_move (mm_occurrences s) (mm_occurrences s') \<or>
      (\<exists>aid. occurrences_grow (mm_occurrences s) (mm_occurrences s') aid)) \<and>
     rows_evolve run_step (mm_runs s) (mm_runs s')"

lemma sched_inv_parts:
  assumes "sched_inv cal sha s"
  shows "exec_inv (mm_exec s)" "lease_ok (sc_lease (mm_sched s))" "cursors_ok cal (sc_cursors (mm_sched s))"
    "occurrences_ok cal sha (mm_occurrences s)"
    "attempts_ok (mm_occurrences s) (sc_claim_attempts (mm_sched s))"
    "dispatches_ok (mm_occurrences s) (mm_dispatches s)"
    "links_ok (mm_runs s) (mm_occurrences s)"
  using assms by (simp_all add: sched_inv_def)

lemma sched_evolves_refl [simp]: "sched_evolves s s"
  by (simp add: sched_evolves_def)

lemma sched_evolves_trans: "sched_evolves s t \<Longrightarrow> sched_evolves t u \<Longrightarrow> sched_evolves s u"
  unfolding sched_evolves_def by (blast intro: rows_evolve_trans)

lemma occurrences_move_evolve: "occurrences_move m m' \<Longrightarrow> rows_evolve occurrence_step m m'"
  unfolding rows_evolve_def by (blast dest: occurrences_move_some)

lemma occurrences_grow_evolve: "occurrences_grow m m' aid \<Longrightarrow> rows_evolve occurrence_step m m'"
  unfolding rows_evolve_def occurrences_grow_def by blast

lemma sched_moves_refl [simp]: "sched_moves s s"
  by (simp add: sched_moves_def)

lemma sched_moves_evolves: "sched_moves s s' \<Longrightarrow> sched_evolves s s'"
  unfolding sched_moves_def sched_evolves_def
  using occurrences_move_evolve occurrences_grow_evolve by blast

lemma stranded_move:
  assumes "occurrences_move m m'" "stranded m aid"
  shows "stranded m' aid"
proof -
  from assms(2) obtain i q where q: "hm_get m i = Some q" "oc_automation_id q = aid" "is_queued q"
    and none: "\<And>j b. hm_get m j = Some b \<Longrightarrow> oc_automation_id b = aid \<Longrightarrow> \<not> is_active b"
    unfolding stranded_def by blast
  have idle: "\<not> is_active b'" if b': "hm_get m' j = Some b'" "oc_automation_id b' = aid" for j b'
  proof -
    obtain b where b: "hm_get m j = Some b" "occurrence_step\<^sup>*\<^sup>* b b'"
        "is_active b' \<longrightarrow> is_active b \<or> is_queued b \<and> active_left m m' (oc_automation_id b)"
      using occurrences_move_row [OF assms(1) b'(1)] by blast
    then have "oc_automation_id b = aid" using occurrence_steps_fields(2) [OF b(2)] b'(2) by simp
    then show ?thesis using b(1,3) none unfolding active_left_def by blast
  qed
  obtain q' where q': "hm_get m' i = Some q'" "occurrence_step\<^sup>*\<^sup>* q q'"
    using occurrences_move_some [OF assms(1) q(1)] by blast
  have "oc_automation_id q' = aid" using occurrence_steps_fields(2) [OF q'(2)] q(2) by simp
  with idle [OF q'(1)] occurrences_move_kept [OF assms(1) q(1) q'(1) q(3)] q'(1) idle
  show ?thesis unfolding stranded_def by blast
qed

lemma stranded_grow:
  assumes grow: "occurrences_grow m m' aid'" and st: "stranded m aid"
  shows "stranded m' aid"
proof -
  have ne: "aid' \<noteq> aid" and keep: "\<And>i a. hm_get m i = Some a \<Longrightarrow> hm_get m' i = Some a"
    and new: "\<And>i a. hm_get m' i = Some a \<Longrightarrow> hm_get m i = Some a \<or> oc_automation_id a = aid'"
    using grow st unfolding occurrences_grow_def by auto
  from st obtain i q where q: "hm_get m i = Some q" "oc_automation_id q = aid" "is_queued q"
    and none: "\<And>j b. hm_get m j = Some b \<Longrightarrow> oc_automation_id b = aid \<Longrightarrow> \<not> is_active b"
    unfolding stranded_def by blast
  have "\<not> is_active b" if b: "hm_get m' j = Some b" "oc_automation_id b = aid" for j b
    using new [OF b(1)] none [of j b] b(2) ne by blast
  with keep [OF q(1)] q(2,3) show ?thesis unfolding stranded_def by blast
qed

lemma stranded_moves: "sched_moves s s' \<Longrightarrow> stranded (mm_occurrences s) aid \<Longrightarrow> stranded (mm_occurrences s') aid"
  unfolding sched_moves_def using stranded_move stranded_grow by blast

text \<open>A run, once linked, stays linked.\<close>

lemma occurrence_apply_run_id:
  assumes inv: "occurrence_inv cal sha oc" and run: "oc_run_id oc = Some r"
    and op: "occurrence_apply op oc now = Inr oc'"
  shows "oc_run_id oc' = Some r"
proof -
  have "oc_state oc \<noteq> OccClaimed"
    using inv run by (auto simp: occurrence_inv_def occurrence_restore_ok occurrence_shape_ok_def
        occurrence_lifecycle_shape_def)
  with run op show ?thesis
    by (cases op) (auto simp: occurrence_ops result_simps split: automation_occurrence_state.splits)
qed

lemma occurrence_steps_run_id:
  assumes "occurrence_step\<^sup>*\<^sup>* oc oc'" "occurrence_inv cal sha oc" "oc_run_id oc = Some r"
  shows "oc_run_id oc' = Some r"
  using assms
proof (induction rule: rtranclp_induct)
  case (step oc' oc'')
  then have "occurrence_inv cal sha oc'" by (blast intro: occurrence_steps_inv)
  with step show ?case by (auto elim!: occurrence_stepE dest: occurrence_apply_run_id)
qed

lemma dispatches_ok_move:
  assumes ds: "dispatches_ok m ds" and ok: "occurrences_ok cal sha m"
    and evolve: "rows_evolve occurrence_step m m'"
  shows "dispatches_ok m' ds"
proof -
  have "\<exists>oc'. hm_get m' i = Some oc' \<and> oc_run_id oc' = Some (run_id_of (dr_run d))"
    if d: "hm_get ds i = Some d" for i d
  proof -
    from ds d obtain oc where oc: "hm_get m i = Some oc" "oc_run_id oc = Some (run_id_of (dr_run d))"
      by (auto simp: dispatches_ok_def)
    moreover have "occurrence_inv cal sha oc" using ok oc(1) by (simp add: occurrences_ok_def)
    moreover obtain oc' where "hm_get m' i = Some oc'" "occurrence_step\<^sup>*\<^sup>* oc oc'"
      using evolve oc(1) unfolding rows_evolve_def by blast
    ultimately show ?thesis using occurrence_steps_run_id by blast
  qed
  with ds show ?thesis by (simp add: dispatches_ok_def)
qed

lemma attempts_ok_put:
  assumes "attempts_ok m am" "hm_get m i = Some oc" "attempts_inv oc' as"
  shows "attempts_ok (hm_insert i oc' m) (hm_insert i as am)"
  using assms by (auto simp: attempts_ok_def attempts_of_def)

lemma attempts_ok_keep:
  assumes "attempts_ok m am" "hm_get m i = Some oc" "attempts_inv oc' (attempts_of am i)"
  shows "attempts_ok (hm_insert i oc' m) am"
  using assms by (auto simp: attempts_ok_def)

lemma attempts_okD: "attempts_ok m am \<Longrightarrow> hm_get m i = Some oc \<Longrightarrow> attempts_inv oc (attempts_of am i)"
  by (simp add: attempts_ok_def)

lemma links_okD:
  assumes "links_ok rs m"
  shows links_ok_run: "unique_by same_run m"
    and links_ok_stored: "hm_get m i = Some oc \<Longrightarrow> oc_run_id oc = Some r \<Longrightarrow> hm_get rs r \<noteq> None"
proof -
  show "unique_by same_run m" using assms unfolding links_ok_def by (elim conjE)
qed (use assms in \<open>unfold links_ok_def, blast\<close>)

lemma links_ok_runs: "links_ok rs m \<Longrightarrow> rows_evolve adv rs rs' \<Longrightarrow> links_ok rs' m"
  unfolding links_ok_def rows_evolve_def by blast

lemma links_ok_rows:
  assumes "links_ok rs m"
    and "\<And>i oc'. hm_get m' i = Some oc' \<Longrightarrow> \<exists>oc. hm_get m i = Some oc \<and> oc_run_id oc' = oc_run_id oc"
  shows "links_ok rs m'"
proof -
  have "hm_get rs r \<noteq> None" if "hm_get m' i = Some oc" "oc_run_id oc = Some r" for i oc r
    using assms(2) [OF that(1)] assms(1) that(2) unfolding links_ok_def by auto
  moreover have "i = j" if ab: "hm_get m' i = Some a" "hm_get m' j = Some b" "same_run a b" for i j a b
  proof -
    obtain a0 b0 where "hm_get m i = Some a0" "hm_get m j = Some b0" "same_run a0 b0"
      using assms(2) [OF ab(1)] assms(2) [OF ab(2)] ab(3) unfolding same_run_def by metis
    with assms(1) show ?thesis unfolding links_ok_def by (blast intro: unique_byD)
  qed
  ultimately show ?thesis unfolding links_ok_def unique_by_def by blast
qed

lemma links_ok_put:
  "links_ok rs m \<Longrightarrow> hm_get m i = Some oc \<Longrightarrow> oc_run_id oc' = oc_run_id oc \<Longrightarrow> links_ok rs (hm_insert i oc' m)"
  by (erule links_ok_rows) (auto split: if_splits)

definition unlinked :: "occurrence_map \<Rightarrow> run_id \<Rightarrow> bool" where
  "unlinked m r \<longleftrightarrow> (\<forall>i oc. hm_get m i = Some oc \<longrightarrow> oc_run_id oc \<noteq> Some r)"

lemma links_ok_unlinked: "links_ok rs m \<Longrightarrow> hm_get rs r = None \<Longrightarrow> unlinked m r"
  unfolding links_ok_def unlinked_def by blast

lemma links_ok_link:
  assumes "links_ok rs m" "unlinked m r" "oc_run_id oc' = Some r" "hm_get rs r \<noteq> None"
  shows "links_ok rs (hm_insert i oc' m)"
  using assms unfolding links_ok_def unlinked_def unique_by_def same_run_def
  by (auto split: if_splits) metis+

lemma event_stream_runs_update [simp]: "event_stream (es_runs_update f e) = event_stream e"
  by (simp add: event_stream_def fun_eq_iff)

lemma exec_put_run:
  assumes "exec_inv e" "hm_get (es_runs e) i = Some r0" "run_steps r0 r"
    and "foldl replay_kind (Some (run_state_of r0)) (map ne_kind evs) = Some (run_state_of r)"
  shows "exec_inv (append_events (es_runs_update (hm_insert i r) e) i evs)"
proof -
  have ok: "runs_ok (es_runs e) (event_stream e)" using assms(1) by (simp add: exec_inv_def)
  have rows: "rows_evolve run_step (es_runs e) (hm_insert i r (es_runs e))"
    using assms(2,3) by (intro rows_evolve_insert) simp
  have "streams_evolve (event_stream e) ((event_stream e)(i := push_events i (event_stream e i) evs))"
    by simp
  then show ?thesis
    using assms(1) runs_ok_steps [OF ok assms(2-4)] rows
    by (auto simp: exec_inv_def simp del: foldl.simps intro: approvals_ok_mono effects_ok_mono)
qed

end
