(* ===== verification/SchedulerOperations.thy ===== *)
theory SchedulerOperations
  imports SchedulerInvariants
begin

text \<open>
  Every operation of the in-memory scheduler journal keeps the invariant of
  \<open>SchedulerInvariants\<close> and only lets occurrences and runs step along their lifecycles.
\<close>

section \<open>The operations keep the invariant\<close>

lemma lease_acquire_ok: "lease_acquire owner fence now ttl = Inr l \<Longrightarrow> is_ok (lease_restore l)"
  using lease_acquire_well_timed by (auto simp: lease_well_timed_def)

lemma lease_renew_ok:
  assumes "is_ok (lease_restore l)" "lease_renew l token now ttl = Inr l'"
  shows "is_ok (lease_restore l')"
proof -
  have "lease_acquire (le_owner_id l) 1 now ttl = Inr
      \<lparr>le_owner_id = le_owner_id l, le_fence = 1, le_acquired_at = now, le_renewed_at = now,
       le_expires_at = le_expires_at l'\<rparr>"
    using assms(2) by (auto simp: lease_renew_def lease_acquire_def result_simps)
  from lease_acquire_ok [OF this] assms show ?thesis
    by (auto simp: lease_restore_def lease_renew_def is_ok_and_then result_simps)
qed

lemma lease_take_over_ok: "lease_take_over l owner fence now ttl = Inr l' \<Longrightarrow> is_ok (lease_restore l')"
  by (auto simp: lease_take_over_def result_simps dest: lease_acquire_ok)

lemma acquire_at_or_after_floor_lease:
  assumes "acquire_at_or_after_floor s owner now ttl = Inr (x, s')" "lease_ok (sc_lease (mm_sched s))"
  shows "s' = s \<or> (\<exists>l. is_ok (lease_restore l) \<and> s' = put_lease l s)"
proof (cases "sc_lease (mm_sched s)")
  case None
  with assms show ?thesis
    by (auto simp: acquire_at_or_after_floor_def result_simps dest!: lease_acquire_ok)
next
  case (Some l)
  then have "is_ok (lease_restore l)" using assms(2) by (simp add: lease_ok_def)
  with Some assms(1) lease_renew_ok [of l] lease_take_over_ok [of l] show ?thesis
    by (fastforce simp: acquire_at_or_after_floor_def result_simps split: if_splits)
qed

lemma acquire_keeps:
  assumes "mem_acquire_automation_scheduler_lease s owner now ttl = Inr (x, s')" "sched_inv cal sha s"
  shows "sched_inv cal sha s' \<and> sched_moves s s'"
proof -
  have "s' = s \<or> (\<exists>l. is_ok (lease_restore l) \<and> s' = put_lease l s)"
    using assms acquire_at_or_after_floor_lease [of s owner now ttl x s']
    by (auto simp: mem_acquire_automation_scheduler_lease_def result_simps sched_inv_def
        split: option.splits if_splits)
  with assms(2) show ?thesis
    by (auto simp: sched_inv_def sched_moves_def put_lease_def lease_ok_def)
qed

lemma journal_restore_Inr [result_simps]:
  "journal_restore cal sha oc = Inr x \<longleftrightarrow> x = oc \<and> is_ok (occurrence_restore cal sha oc)"
  by (auto simp: journal_restore_def result_simps)

lemma claimable_occurrence_Inr:
  assumes "claimable_occurrence cal sha s claim = Inr (oc, as)"
  shows "hm_get (mm_occurrences s) (cl_occurrence_id claim) = Some oc" "oc_state oc = OccPending"
    "as = occurrence_attempts s (cl_occurrence_id claim)"
  using assms by (auto simp: claimable_occurrence_def Let_def result_simps)

lemma occurrence_attempts_of: "occurrence_attempts s i = attempts_of (sc_claim_attempts (mm_sched s)) i"
  by (simp add: occurrence_attempts_def attempts_of_def)

text \<open>A claim: the occurrence steps and its attempt is the next one.\<close>

lemma claim_next_attempt_Inr:
  assumes "claim_next_attempt claim oc as = Inr (oc', a)" "attempts_inv oc as" "oc_state oc = OccPending"
  shows "occurrence_step oc oc'" "oc_state oc' = OccClaimed" "oc_id oc' = oc_id oc"
    "unat (oc_claim_attempt_count oc') = Suc (length as)"
    "attempt_ok (oc_id oc) (length as) a" "is_open a" "attempt_matches_claim oc' a"
    "ca_claimed_at a = cl_claimed_at claim" "oc_run_id oc' = oc_run_id oc"
proof -
  have op: "occurrence_apply (OpClaim (cl_lease claim) (cl_expires_at claim)) oc (cl_claimed_at claim) = Inr oc'"
    using assms(1) by (auto simp: claim_next_attempt_def result_simps)
  then show "occurrence_step oc oc'" by (rule occurrence_step.apply_op)
  show "oc_state oc' = OccClaimed" "oc_id oc' = oc_id oc" "oc_run_id oc' = oc_run_id oc"
    using op by (auto simp: occurrence_claim_run_def result_simps)
  have len: "length as = unat (oc_claim_attempt_count oc)" using assms(2) by (simp add: attempts_inv_def)
  with claim_attempts_step [OF op] show count: "unat (oc_claim_attempt_count oc') = Suc (length as)" by simp
  have "length as < 16" using claim_attempts_step(2) [OF op] len by simp
  with assms(1) op count show "attempt_ok (oc_id oc) (length as) a" "is_open a"
      "attempt_matches_claim oc' a" "ca_claimed_at a = cl_claimed_at claim"
    by (auto simp: claim_next_attempt_def result_simps attempt_ok_def occurrence_claim_run_def
        attempt_matches_claim_def not_le not_less)
qed

lemma pending_to_active:
  assumes "occurrence_step\<^sup>*\<^sup>* oc oc'" "oc_state oc = OccPending" "oc_state oc' \<in> {OccClaimed, OccRunLinked}"
    and "hm_get m i = Some oc"
  shows "occurrences_move m (hm_insert i oc' m)"
  using assms by (intro occurrences_move_put [OF assms(4,1)]) auto

lemma claim_keeps:
  assumes op: "mem_claim_automation_occurrence cal sha s claim = Inr (x, s')" and inv: "sched_inv cal sha s"
  shows "sched_inv cal sha s' \<and> sched_moves s s'"
proof (cases "s' = s")
  case False
  let ?i = "cl_occurrence_id claim" and ?m = "mm_occurrences s" and ?am = "sc_claim_attempts (mm_sched s)"
  note parts = sched_inv_parts [OF inv]
  obtain oc as oc' a where oc: "claimable_occurrence cal sha s claim = Inr (oc, as)"
      and next': "claim_next_attempt claim oc as = Inr (oc', a)"
      and s': "s' = put_claim_command (cl_command claim) oc'
                (put_attempts (oc_id oc') (as @ [a]) (put_occurrence oc' s))"
    using op False by (auto simp: mem_claim_automation_occurrence_def result_simps split: option.splits if_splits)
  note c = claimable_occurrence_Inr [OF oc]
  have as: "attempts_inv oc as"
    using attempts_okD [OF parts(5) c(1)] c(3) by (simp add: occurrence_attempts_of)
  note n = claim_next_attempt_Inr [OF next' as c(2)]
  have i: "oc_id oc = ?i" using parts(4) c(1) by (simp add: occurrences_ok_def)
  have move: "occurrences_move ?m (hm_insert ?i oc' ?m)"
    using n(1,2) c(1,2) by (intro pending_to_active) auto
  have att: "attempts_inv oc' (as @ [a])"
    by (rule attempts_inv_append [OF as _ n(3,4,5)]) (use n c(2) in simp_all)
  have "attempts_ok (hm_insert ?i oc' ?m) (hm_insert ?i (as @ [a]) ?am)"
    by (rule attempts_ok_put [OF parts(5) c(1) att])
  moreover have "occurrences_ok cal sha (hm_insert ?i oc' ?m)"
    using parts(4) by (intro occurrences_move_keeps [OF parts(4) _ move]) (simp add: occurrences_ok_def)
  moreover have "dispatches_ok (hm_insert ?i oc' ?m) (mm_dispatches s)"
    by (rule dispatches_ok_move [OF parts(6,4) occurrences_move_evolve [OF move]])
  moreover have "links_ok (mm_runs s) (hm_insert ?i oc' ?m)"
    by (rule links_ok_put [OF parts(7) c(1) n(9)])
  ultimately show ?thesis
    using parts i n(3) move
    by (simp add: s' sched_inv_def sched_moves_def put_claim_command_def put_attempts_def put_occurrence_def)
qed (use inv in simp)

lemma exec_new_run:
  assumes "exec_inv e" "hm_get (es_runs e) (run_id_of r) = None" "run_init r" "ne_kind ev = RunCreated"
  shows "exec_inv (append_events (es_runs_update (hm_insert (run_id_of r) r) e) (run_id_of r) [ev])"
proof -
  have ok: "runs_ok (es_runs e) (event_stream e)" using assms(1) by (simp add: exec_inv_def)
  have "rows_evolve run_step (es_runs e) (hm_insert (run_id_of r) r (es_runs e))"
    using assms(2) by (rule rows_evolve_new)
  then show ?thesis
    using assms(1) runs_ok_create [OF ok assms(2-4)]
      streams_evolve_push [of "event_stream e" "run_id_of r" "[ev]"]
    by (auto simp: exec_inv_def simp del: foldl.simps intro: approvals_ok_mono effects_ok_mono)
qed

lemma attempt_ok_sealed:
  "attempt_ok i k a \<Longrightarrow> ca_claimed_at a \<le> t \<Longrightarrow>
   attempt_ok i k (a\<lparr>ca_completed_at := Some t, ca_completion := Some c\<rparr>)"
  by (simp add: attempt_ok_def)

lemma bind_keeps:
  assumes op: "mem_claim_and_bind_automation_occurrence cal sha s d = Inr (x, s')"
    and inv: "sched_inv cal sha s" and run: "run_init (di_run d)"
  shows "sched_inv cal sha s' \<and> sched_moves s s'"
proof (cases "s' = s")
  case False
  let ?c = "di_claim d"
  let ?i = "cl_occurrence_id ?c" and ?m = "mm_occurrences s" and ?am = "sc_claim_attempts (mm_sched s)"
  let ?r = "di_run d"
  note parts = sched_inv_parts [OF inv]
  obtain oc as oc1 a oc' where oc: "claimable_occurrence cal sha s ?c = Inr (oc, as)"
      and fits: "\<not> dispatch_mismatch s d ((di_prompt d)\<lparr>ms_sequence := 1\<rparr>) oc"
      and next': "claim_next_attempt ?c oc as = Inr (oc1, a)"
      and link: "occurrence_link_run oc1 (cl_lease ?c) (run_id_of ?r) (cl_claimed_at ?c) = Inr oc'"
      and s': "s' = bind_dispatch_state s d
        \<lparr>dr_occurrence = oc', dr_thread = di_thread d, dr_prompt = (di_prompt d)\<lparr>ms_sequence := 1\<rparr>, dr_run = ?r\<rparr>
        oc1 (as @ [a\<lparr>ca_completed_at := Some (cl_claimed_at ?c), ca_completion := Some CompletionRunLinked\<rparr>])"
    using op False
    by (auto simp: mem_claim_and_bind_automation_occurrence_def Let_def result_simps split: option.splits)
  note c = claimable_occurrence_Inr [OF oc]
  have as: "attempts_inv oc as"
    using attempts_okD [OF parts(5) c(1)] c(3) by (simp add: occurrence_attempts_of)
  note n = claim_next_attempt_Inr [OF next' as c(2)]
  have i: "oc_id oc = ?i" using parts(4) c(1) by (simp add: occurrences_ok_def)
  have "occurrence_apply (OpLinkRun (cl_lease ?c) (run_id_of ?r)) oc1 (cl_claimed_at ?c) = Inr oc'"
    using link by simp
  then have step2: "occurrence_step oc1 oc'" and count: "oc_claim_attempt_count oc' = oc_claim_attempt_count oc1"
      and linked: "oc_state oc' = OccRunLinked" "oc_run_id oc' = Some (run_id_of ?r)" "oc_id oc' = oc_id oc1"
    by (blast intro: occurrence_step.apply_op) (use link in \<open>auto simp: occurrence_link_run_def result_simps\<close>)
  have steps: "occurrence_step\<^sup>*\<^sup>* oc oc'" using n(1) step2 by auto
  have move: "occurrences_move ?m (hm_insert ?i oc' ?m)"
    using steps linked(1) c(1,2) by (intro pending_to_active) auto
  let ?a = "a\<lparr>ca_completed_at := Some (cl_claimed_at ?c), ca_completion := Some CompletionRunLinked\<rparr>"
  have "attempt_ok (oc_id oc) (length as) ?a" by (rule attempt_ok_sealed [OF n(5)]) (simp add: n(8))
  then have att: "attempts_inv oc' (as @ [?a])"
    by (intro attempts_inv_append [OF as]) (use n c(2) linked count in simp_all)
  have "attempts_ok (hm_insert ?i oc' ?m) (hm_insert ?i (as @ [?a]) ?am)"
    by (rule attempts_ok_put [OF parts(5) c(1) att])
  moreover have "occurrences_ok cal sha (hm_insert ?i oc' ?m)"
    using parts(4) by (intro occurrences_move_keeps [OF parts(4) _ move]) (simp add: occurrences_ok_def)
  moreover have "dispatches_ok (hm_insert ?i oc' ?m) (mm_dispatches s)"
    by (rule dispatches_ok_move [OF parts(6,4) occurrences_move_evolve [OF move]])
  moreover have fresh: "hm_get (mm_runs s) (run_id_of ?r) = None"
    using fits by (simp add: dispatch_mismatch_def hm_contains_def)
  moreover have "links_ok (hm_insert (run_id_of ?r) ?r (mm_runs s)) (hm_insert ?i oc' ?m)"
    by (rule links_ok_link [OF links_ok_runs [OF parts(7) rows_evolve_new [OF fresh]]
          links_ok_unlinked [OF parts(7) fresh] linked(2)]) simp
  ultimately show ?thesis
    using parts i n(3) linked move
      exec_new_run [OF parts(1) fresh run, of "\<lparr>ne_occurred_at = cl_claimed_at ?c, ne_kind = RunCreated\<rparr>"]
    by (simp add: s' bind_dispatch_state_def Let_def sched_inv_def sched_moves_def put_claim_command_def
        put_attempts_def put_occurrence_def put_dispatch_def dispatches_ok_def rows_evolve_new)
qed (use inv in simp)

lemma link_keeps:
  assumes op: "mem_link_automation_occurrence_run s token i erev rid now = Inr (x, s')"
    and inv: "sched_inv cal sha s" and free: "unlinked (mm_occurrences s) rid"
  shows "sched_inv cal sha s' \<and> sched_moves s s'"
proof -
  let ?m = "mm_occurrences s" and ?am = "sc_claim_attempts (mm_sched s)"
  note parts = sched_inv_parts [OF inv]
  obtain oc oc' as as' where oc: "hm_get ?m i = Some oc"
      and link: "occurrence_link_run oc token rid now = Inr oc'" and run: "hm_get (mm_runs s) rid \<noteq> None"
      and as: "hm_get ?am i = Some as" and as': "complete_claim_attempt oc as CompletionRunLinked now = Inr as'"
      and s': "s' = put_attempts i as' (mm_sched_update (sc_occurrences_update (hm_insert i oc')) s)"
    using op by (auto simp: mem_link_automation_occurrence_run_def result_simps hm_contains_def)
  have apply': "occurrence_apply (OpLinkRun token rid) oc now = Inr oc'" using link by simp
  then have step: "occurrence_step\<^sup>*\<^sup>* oc oc'" by (blast intro: occurrence_step.apply_op)
  have linked: "oc_state oc = OccClaimed" "oc_state oc' = OccRunLinked" "oc_id oc' = oc_id oc"
      "oc_claim_attempt_count oc' = oc_claim_attempt_count oc" "oc_updated_at oc \<le> now"
      "oc_run_id oc' = Some rid"
    using link by (auto simp: occurrence_link_run_def occurrence_ensure_time_def result_simps)
  have inv_oc: "attempts_inv oc as" using attempts_okD [OF parts(5) oc] as by (simp add: attempts_of_def)
  have "occurrence_claim_shape oc"
    using parts(4) oc by (auto simp: occurrences_ok_def occurrence_inv_def occurrence_restore_ok occurrence_shape_ok_def)
  then have time: "\<And>c. oc_claim oc = Some c \<Longrightarrow> cm_claimed_at c \<le> now"
    using linked(5) by (auto simp: occurrence_claim_shape_def)
  have att: "attempts_inv oc' as'"
    by (rule attempts_inv_complete [OF inv_oc linked(1) as' time]) (use linked in simp_all)
  have move: "occurrences_move ?m (hm_insert i oc' ?m)"
    using linked by (intro occurrences_move_put [OF oc step]) simp_all
  have "attempts_ok (hm_insert i oc' ?m) (hm_insert i as' ?am)"
    by (rule attempts_ok_put [OF parts(5) oc att])
  moreover have "occurrences_ok cal sha (hm_insert i oc' ?m)"
    using parts(4) by (intro occurrences_move_keeps [OF parts(4) _ move]) (simp add: occurrences_ok_def)
  moreover have "dispatches_ok (hm_insert i oc' ?m) (mm_dispatches s)"
    by (rule dispatches_ok_move [OF parts(6,4) occurrences_move_evolve [OF move]])
  moreover have "links_ok (mm_runs s) (hm_insert i oc' ?m)"
    by (rule links_ok_link [OF parts(7) free linked(6) run])
  ultimately show ?thesis
    using parts move
    by (simp add: s' sched_inv_def sched_moves_def put_attempts_def)
qed

lemma run_id_stored: "exec_inv e \<Longrightarrow> hm_get (es_runs e) i = Some r \<Longrightarrow> run_id_of r = i"
  by (auto simp: exec_inv_def runs_ok_def)

lemma begin_Inr:
  assumes "mem_begin_automation_occurrence_run s i erev rid rrev now = Inr (x, s')"
  obtains b oc run planning running where
    "hm_get (mm_dispatches s) i = Some b" "hm_get (mm_occurrences s) i = Some oc" "oc_run_id oc = Some rid"
    "oc_state oc = OccRunLinked" "hm_get (mm_runs s) rid = Some run" "run_state_of run = Queued"
    "run_id_of (dr_run b) = rid"
    "run_transition run Planning now = Inr planning" "run_transition planning Running now = Inr running"
    "x = \<lparr>dr_occurrence = oc, dr_thread = dr_thread b, dr_prompt = dr_prompt b, dr_run = running\<rparr>"
    "s' = mm_sched_update (sc_dispatches_update (hm_insert i (b\<lparr>dr_run := running\<rparr>)))
        (put_run running [state_changed now (run_state_of run) Planning,
                          state_changed now (run_state_of planning) Running] s)"
proof -
  note def = mem_begin_automation_occurrence_run_def Let_def
  from assms obtain b oc run planning running where
    "hm_get (mm_dispatches s) i = Some b" "hm_get (mm_occurrences s) i = Some oc" "hm_get (mm_runs s) rid = Some run"
    and guard: "\<not> (run_id_of (dr_run b) \<noteq> rid \<or> oc_state oc \<noteq> OccRunLinked \<or> oc_revision oc \<noteq> erev \<or>
        oc_run_id oc \<noteq> Some rid \<or> run_state_of run \<noteq> Queued \<or> run_revision run \<noteq> rrev)"
    and "run_transition run Planning now = Inr planning" "run_transition planning Running now = Inr running"
    and "(\<lparr>dr_occurrence = oc, dr_thread = dr_thread b, dr_prompt = dr_prompt b, dr_run = running\<rparr>,
       mm_sched_update (sc_dispatches_update (hm_insert i (b\<lparr>dr_run := running\<rparr>)))
        (put_run running [state_changed now (run_state_of run) Planning,
                          state_changed now (run_state_of planning) Running] s)) = (x, s')"
    unfolding def and_then_Inr ok_or_Inr map_err_Inr fail_if_Inr by blast
  with guard show thesis by (intro that [of b oc run planning running]) simp_all
qed

lemma begin_keeps:
  assumes op: "mem_begin_automation_occurrence_run s i erev rid rrev now = Inr (x, s')"
    and inv: "sched_inv cal sha s"
  shows "sched_inv cal sha s' \<and> sched_moves s s'"
  using op
proof (rule begin_Inr)
  fix b oc run planning running
  assume b: "hm_get (mm_dispatches s) i = Some b" "run_id_of (dr_run b) = rid"
    and run: "hm_get (mm_runs s) rid = Some run" "run_state_of run = Queued"
    and trans: "run_transition run Planning now = Inr planning" "run_transition planning Running now = Inr running"
    and s': "s' = mm_sched_update (sc_dispatches_update (hm_insert i (b\<lparr>dr_run := running\<rparr>)))
        (put_run running [state_changed now (run_state_of run) Planning,
                          state_changed now (run_state_of planning) Running] s)"
  note parts = sched_inv_parts [OF inv]
  have steps: "run_steps run running"
    using run_step.transition [OF trans(1)] run_step.transition [OF trans(2)] by auto
  have states: "run_state_of planning = Planning" "run_state_of running = Running"
    using trans by (simp_all add: run_transition_Inr)
  have rid: "run_id_of running = rid"
    using run_life.steps_ident [OF steps] run_id_stored [OF parts(1) run(1)] by (simp add: run_frame_def)
  have "exec_inv (append_events (es_runs_update (hm_insert rid running) (mm_exec s)) rid
      [state_changed now (run_state_of run) Planning, state_changed now (run_state_of planning) Running])"
    by (rule exec_put_run [OF parts(1) run(1) steps])
       (simp add: states run(2) state_changed_def)
  moreover have "rows_evolve run_step (mm_runs s) (hm_insert rid running (mm_runs s))"
    using run(1) steps by (intro rows_evolve_insert) simp
  moreover from this have "links_ok (hm_insert rid running (mm_runs s)) (mm_occurrences s)"
    by (rule links_ok_runs [OF parts(7)])
  moreover have "dispatches_ok (mm_occurrences s) (hm_insert i (b\<lparr>dr_run := running\<rparr>) (mm_dispatches s))"
    using parts(6) b rid by (auto simp: dispatches_ok_def)
  ultimately show ?thesis
    using parts rid by (simp add: s' put_run_def sched_inv_def sched_moves_def)
qed

text \<open>What settles a linked occurrence: it leaves the active rows and keeps its claims.\<close>

lemma settles:
  assumes "occurrence_apply op oc now = Inr oc'"
    and "op \<in> {OpSucceed rid, OpFailRun rid, OpInterruptRun rid, OpCancelOccurrence}"
  shows "occurrence_step\<^sup>*\<^sup>* oc oc'" "\<not> is_active oc'" "\<not> is_queued oc'"
    "oc_claim_attempt_count oc' = oc_claim_attempt_count oc" "oc_run_id oc' = oc_run_id oc"
proof -
  show "occurrence_step\<^sup>*\<^sup>* oc oc'" using assms(1) by (blast intro: occurrence_step.apply_op)
qed (use assms in \<open>auto simp: occurrence_ops result_simps\<close>)

lemma linked_run_state:
  assumes "occurrence_inv cal sha oc" "oc_run_id oc = Some rid" "\<not> occurrence_state_is_terminal (oc_state oc)"
  shows "oc_state oc = OccRunLinked"
  using assms by (cases "oc_state oc") (auto simp: occurrence_inv_def occurrence_restore_ok
      occurrence_shape_ok_def occurrence_lifecycle_shape_def)

lemma complete_occurrence_apply:
  "\<exists>op \<in> {OpSucceed rid, OpFailRun rid, OpInterruptRun rid, OpCancelOccurrence}.
     complete_occurrence k oc rid now = occurrence_apply op oc now"
  by (cases k) auto

lemma complete_occurrence_linked:
  assumes "complete_occurrence k oc rid now = Inr oc'" "occurrence_inv cal sha oc" "oc_run_id oc = Some rid"
  shows "oc_state oc = OccRunLinked"
  using assms(1) linked_run_state [OF assms(2,3)]
  by (cases k) (auto simp: occurrence_ops result_simps)

lemma sole_queued_occurrence_Inr:
  assumes "sole_queued_occurrence s aid = Inr (Some q)" "occurrences_ok cal sha (mm_occurrences s)"
  shows "hm_get (mm_occurrences s) (oc_id q) = Some q" "is_queued q" "oc_automation_id q = aid"
proof -
  let ?P = "\<lambda>oc. oc_automation_id oc = aid \<and> oc_state oc = OccQueuedOverlap"
  from assms(1) have "filter ?P (hm_values (mm_occurrences s)) = [q]"
    by (auto simp: sole_queued_occurrence_def split: list.splits)
  then have "q \<in> set (filter ?P (hm_values (mm_occurrences s)))" by (simp del: set_filter)
  then have q: "q \<in> set (hm_values (mm_occurrences s))" "is_queued q" "oc_automation_id q = aid" by simp_all
  with assms(2) obtain j where j: "hm_get (mm_occurrences s) j = Some q"
    by (auto simp: occurrences_ok_def hm_values_iff)
  with assms(2) have "oc_id q = j" by (simp add: occurrences_ok_def)
  with j q show "hm_get (mm_occurrences s) (oc_id q) = Some q" "is_queued q" "oc_automation_id q = aid"
    by simp_all
qed

lemma promote_sole_queued_Inr:
  assumes "promote_sole_queued e s aid now = Inr (Some q')" "occurrences_ok cal sha (mm_occurrences s)"
  obtains q where "hm_get (mm_occurrences s) (oc_id q') = Some q" "is_queued q" "oc_automation_id q = aid"
    "occurrence_step\<^sup>*\<^sup>* q q'" "oc_state q' = OccPending" "oc_id q' = oc_id q"
    "oc_claim_attempt_count q' = oc_claim_attempt_count q" "oc_run_id q' = oc_run_id q"
proof -
  from assms(1) obtain q where "sole_queued_occurrence s aid = Inr (Some q)"
    and op: "occurrence_promote_queued q now = Inr q'"
    by (auto simp: promote_sole_queued_def result_simps split: option.splits)
  note q = sole_queued_occurrence_Inr [OF this(1) assms(2)]
  have "occurrence_apply OpPromoteQueued q now = Inr q'" using op by simp
  then have "occurrence_step\<^sup>*\<^sup>* q q'" by (blast intro: occurrence_step.apply_op)
  moreover have "oc_state q' = OccPending" "oc_id q' = oc_id q"
      "oc_claim_attempt_count q' = oc_claim_attempt_count q" "oc_run_id q' = oc_run_id q"
    using op by (auto simp: occurrence_ops result_simps)
  ultimately show thesis using q by (intro that [of q]) simp_all
qed

text \<open>The occurrence and attempt maps after a settled row is stored and the queued one promoted.\<close>

definition put_promoted :: "automation_occurrence option \<Rightarrow> occurrence_map \<Rightarrow> occurrence_map" where
  "put_promoted p m = (case p of None \<Rightarrow> m | Some q \<Rightarrow> hm_insert (oc_id q) q m)"

lemma settle_and_promote:
  assumes ok: "occurrences_ok cal sha (mm_occurrences s)"
    and oc: "hm_get (mm_occurrences s) i = Some oc" "is_active oc" "occurrence_step\<^sup>*\<^sup>* oc oc'"
      "\<not> is_active oc'" "\<not> is_queued oc'"
    and p: "promote_sole_queued e s (oc_automation_id oc') now = Inr p"
  shows "occurrences_move (mm_occurrences s) (put_promoted p (hm_insert i oc' (mm_occurrences s)))"
proof (cases p)
  case None
  have "occurrences_move (mm_occurrences s) (hm_insert i oc' (mm_occurrences s))"
    using oc(2,4,5) by (intro occurrences_move_put [OF oc(1,3)]) simp_all
  with None show ?thesis by (simp add: put_promoted_def)
next
  case (Some q')
  with p obtain q where q: "hm_get (mm_occurrences s) (oc_id q') = Some q" "is_queued q"
      "oc_automation_id q = oc_automation_id oc'" "occurrence_step\<^sup>*\<^sup>* q q'" "oc_state q' = OccPending"
    using ok by (auto elim: promote_sole_queued_Inr)
  have "unique_by both_active (mm_occurrences s)" using ok by (simp add: occurrences_ok_def)
  from occurrences_move_promote [OF this oc(1,3,2,4,5) q(1,2,4)] q(3,5) show ?thesis
    by (simp add: Some put_promoted_def occurrence_steps_fields(2) [OF oc(3)])
qed

lemma attempts_ok_promote:
  assumes "occurrences_ok cal sha (mm_occurrences s)"
    and am: "attempts_ok (hm_insert i oc' (mm_occurrences s)) am"
    and oc: "hm_get (mm_occurrences s) i = Some oc" "is_active oc"
    and p: "promote_sole_queued e s aid now = Inr p"
  shows "attempts_ok (put_promoted p (hm_insert i oc' (mm_occurrences s))) am"
proof (cases p)
  case (Some q')
  with p assms(1) obtain q where q: "hm_get (mm_occurrences s) (oc_id q') = Some q" "is_queued q"
      "oc_state q' = OccPending" "oc_id q' = oc_id q" "oc_claim_attempt_count q' = oc_claim_attempt_count q"
    by (auto elim: promote_sole_queued_Inr)
  have "oc_id q' \<noteq> i" using q(1,2) oc(1,2) by auto
  then have q': "hm_get (hm_insert i oc' (mm_occurrences s)) (oc_id q') = Some q" using q(1) by simp
  have "attempts_inv q' (attempts_of am (oc_id q'))"
    using q by (intro attempts_inv_settled [OF attempts_okD [OF am q']]) simp_all
  from attempts_ok_keep [OF am q' this] show ?thesis by (simp add: Some put_promoted_def)
qed (use am in \<open>simp add: put_promoted_def\<close>)

lemma links_ok_promote:
  assumes "occurrences_ok cal sha (mm_occurrences s)"
    and ok: "links_ok rs (hm_insert i oc' (mm_occurrences s))"
    and oc: "hm_get (mm_occurrences s) i = Some oc" "is_active oc"
    and p: "promote_sole_queued e s aid now = Inr p"
  shows "links_ok rs (put_promoted p (hm_insert i oc' (mm_occurrences s)))"
proof (cases p)
  case (Some q')
  with p assms(1) obtain q where q: "hm_get (mm_occurrences s) (oc_id q') = Some q" "is_queued q"
      "oc_run_id q' = oc_run_id q"
    by (auto elim: promote_sole_queued_Inr)
  have "oc_id q' \<noteq> i" using q(1,2) oc(1,2) by auto
  then have "hm_get (hm_insert i oc' (mm_occurrences s)) (oc_id q') = Some q" using q(1) by simp
  from links_ok_put [OF ok this q(3)] show ?thesis by (simp add: Some put_promoted_def)
qed (use ok in \<open>simp add: put_promoted_def\<close>)

lemma put_promoted_active:
  assumes "occurrences_ok cal sha (mm_occurrences s)"
    and "hm_get (mm_occurrences s) i = Some oc" "is_active oc"
    and "promote_sole_queued e s aid now = Inr p"
  shows "hm_get (put_promoted p m) i = hm_get m i"
  using assms by (cases p) (auto simp: put_promoted_def elim: promote_sole_queued_Inr)

lemma dispatches_ok_insert:
  "dispatches_ok m ds \<Longrightarrow> oc_id (dr_occurrence d) = i \<Longrightarrow> hm_get m i = Some oc \<Longrightarrow>
   oc_run_id oc = Some (run_id_of (dr_run d)) \<Longrightarrow> dispatches_ok m (hm_insert i d ds)"
  by (simp add: dispatches_ok_def)

lemma complete_Inr:
  assumes "mem_complete_automation_occurrence_run s i erev rid k now = Inr (x, s')"
  obtains run oc finished oc' p b where
    "hm_get (mm_runs s) rid = Some run" "hm_get (mm_occurrences s) i = Some oc" "oc_run_id oc = Some rid"
    "run_state_of run = Running" "run_transition run (completion_run_state k) now = Inr finished"
    "complete_occurrence k oc rid now = Inr oc'"
    "promote_sole_queued StoreConflict s (oc_automation_id oc') now = Inr p"
    "hm_get (mm_dispatches s) i = Some b" "x = oc'"
    "s' = complete_run_state s i oc' finished (state_changed now Running (completion_run_state k)) b p"
proof -
  from assms obtain run oc finished oc' p b where *:
    "hm_get (mm_runs s) rid = Some run" "hm_get (mm_occurrences s) i = Some oc"
    and guard: "\<not> (run_state_of run \<noteq> Running \<or> oc_revision oc \<noteq> erev \<or> oc_run_id oc \<noteq> Some rid)"
    and **: "run_transition run (completion_run_state k) now = Inr finished"
    "complete_occurrence k oc rid now = Inr oc'"
    "promote_sole_queued StoreConflict s (oc_automation_id oc') now = Inr p"
    "hm_get (mm_dispatches s) i = Some b"
    "(oc', complete_run_state s i oc' finished (state_changed now Running (completion_run_state k)) b p) = (x, s')"
    unfolding mem_complete_automation_occurrence_run_def and_then_Inr ok_or_Inr map_err_Inr fail_if_Inr
      sum.inject by blast
  then show thesis by (intro that [of run oc finished oc' p b]) auto
qed

lemma complete_keeps:
  assumes op: "mem_complete_automation_occurrence_run s i erev rid k now = Inr (x, s')"
    and inv: "sched_inv cal sha s"
  shows "sched_inv cal sha s' \<and> sched_moves s s'"
  using op
proof (rule complete_Inr)
  fix run oc finished oc' p b
  let ?m = "mm_occurrences s" and ?am = "sc_claim_attempts (mm_sched s)"
  let ?evs = "[state_changed now Running (completion_run_state k)]"
  let ?m' = "put_promoted p (hm_insert i oc' ?m)" and ?b = "b\<lparr>dr_occurrence := oc', dr_run := finished\<rparr> :: automation_occurrence_dispatch_result"
  assume run: "hm_get (mm_runs s) rid = Some run" "run_state_of run = Running"
      "run_transition run (completion_run_state k) now = Inr finished"
    and oc: "hm_get ?m i = Some oc" "oc_run_id oc = Some rid"
    and oc': "complete_occurrence k oc rid now = Inr oc'"
    and p: "promote_sole_queued StoreConflict s (oc_automation_id oc') now = Inr p"
    and s': "s' = complete_run_state s i oc' finished (state_changed now Running (completion_run_state k)) b p"
  note parts = sched_inv_parts [OF inv]
  have oc_ok: "oc_id oc = i" "occurrence_inv cal sha oc" using parts(4) oc(1) by (simp_all add: occurrences_ok_def)
  have linked: "oc_state oc = OccRunLinked" by (rule complete_occurrence_linked [OF oc' oc_ok(2) oc(2)])
  obtain op where "occurrence_apply op oc now = Inr oc'"
      "op \<in> {OpSucceed rid, OpFailRun rid, OpInterruptRun rid, OpCancelOccurrence}"
    using complete_occurrence_apply [of rid k oc now] unfolding oc' by metis
  note set = settles [OF this]
  note f = occurrence_steps_fields [OF set(1)]
  have steps: "run_steps run finished" using run_step.transition [OF run(3)] by auto
  have state: "run_state_of finished = completion_run_state k" using run(3) by (simp add: run_transition_Inr)
  have rid: "run_id_of finished = rid"
    using run_life.steps_ident [OF steps] run_id_stored [OF parts(1) run(1)] by (simp add: run_frame_def)
  have ex: "exec_inv (append_events (es_runs_update (hm_insert rid finished) (mm_exec s)) rid ?evs)"
    by (rule exec_put_run [OF parts(1) run(1) steps]) (cases k, simp_all add: state run(2) state_changed_def)
  have rows: "rows_evolve run_step (mm_runs s) (hm_insert rid finished (mm_runs s))"
    using run(1) steps by (intro rows_evolve_insert) simp
  have move: "occurrences_move ?m ?m'"
    by (rule settle_and_promote [OF parts(4) oc(1) _ set(1-3) p]) (simp add: linked)
  have att: "attempts_inv oc' (attempts_of ?am i)"
    by (rule attempts_inv_settled [OF attempts_okD [OF parts(5) oc(1)]]) (use set f linked in auto)
  have "attempts_ok ?m' ?am"
    by (rule attempts_ok_promote [OF parts(4) attempts_ok_keep [OF parts(5) oc(1) att] oc(1) _ p]) (simp add: linked)
  moreover have "hm_wf ?m'" using parts(4) by (auto simp: put_promoted_def occurrences_ok_def split: option.split)
  then have "occurrences_ok cal sha ?m'" by (rule occurrences_move_keeps [OF parts(4) _ move])
  moreover have ev: "rows_evolve occurrence_step ?m ?m'" by (rule occurrences_move_evolve [OF move])
  moreover have "dispatches_ok ?m' (hm_insert i ?b (mm_dispatches s))"
    by (rule dispatches_ok_insert [OF dispatches_ok_move [OF parts(6,4) ev], of _ _ oc'])
       (use put_promoted_active [OF parts(4) oc(1) _ p] set f oc oc_ok rid linked in simp_all)
  moreover have "links_ok (hm_insert rid finished (mm_runs s)) ?m'"
    by (rule links_ok_runs [OF links_ok_promote [OF parts(4) links_ok_put [OF parts(7) oc(1) set(5)] oc(1) _ p] rows])
       (simp add: linked)
  ultimately show ?thesis
    using parts(2,3) ex rows move rid oc_ok(1) f
    by (cases p) (simp_all add: s' complete_run_state_def put_run_def put_occurrence_def put_promoted_def sched_inv_def sched_moves_def)
qed

end
