(* ===== verification/SchedulerRecovery.thy ===== *)
theory SchedulerRecovery
  imports SchedulerOperations
begin

text \<open>
  The recovery of expired claims keeps the journal's invariant. Recovery reads the journal it
  started from and stages its changes; \<open>recovery_ok\<close> says what has been staged after each row, and
  applying the staged changes is then one move of the occurrence map.
\<close>

section \<open>One recovered row\<close>

definition stages_run :: "mem_state \<Rightarrow> unix_millis \<Rightarrow> automation_occurrence \<Rightarrow> recovery \<Rightarrow> recovery \<Rightarrow> bool" where
  "stages_run s now oc r r' \<longleftrightarrow>
     rc_runs r' = rc_runs r \<and> rc_run_events r' = rc_run_events r \<or>
     (\<exists>rid run run'. oc_run_id oc = Some rid \<and> hm_get (mm_runs s) rid = Some run \<and>
        run_transition run InterruptedNeedsReview now = Inr run' \<and>
        rc_runs r' = hm_insert rid run' (rc_runs r) \<and>
        rc_run_events r' = rc_run_events r @
          [(rid, state_changed now (run_state_of run) InterruptedNeedsReview)])"

definition stages_row :: "mem_state \<Rightarrow> unix_millis \<Rightarrow> automation_occurrence \<Rightarrow> recovery \<Rightarrow> recovery \<Rightarrow> bool" where
  "stages_row s now oc r r' \<longleftrightarrow>
     rc_occurrences r' = rc_occurrences r \<and> rc_attempts r' = rc_attempts r \<or>
     (\<exists>oc' as p. occurrence_step\<^sup>*\<^sup>* oc oc' \<and> oc_run_id oc' = oc_run_id oc \<and> \<not> is_queued oc' \<and>
        (p \<noteq> None \<longrightarrow> oc_state oc' = OccInterruptedNeedsReview) \<and>
        (p = None \<or> promote_sole_queued invalid_automation_scheduler_journal s (oc_automation_id oc) now = Inr p) \<and>
        attempts_inv oc' as \<and>
        rc_occurrences r' = hm_insert (oc_id oc) oc' (put_promoted p (rc_occurrences r)) \<and>
        rc_attempts r' = hm_insert (oc_id oc) as (rc_attempts r))"

lemma stage_recovered_row:
  assumes "stage_recovered s now oc oc' as r = Inr r'"
    and "occurrence_step\<^sup>*\<^sup>* oc oc'" "oc_run_id oc' = oc_run_id oc" "\<not> is_queued oc'" "attempts_inv oc' as"
  shows "stages_row s now oc r r'" "rc_runs r' = rc_runs r" "rc_run_events r' = rc_run_events r"
proof -
  from assms(1) obtain p where
    p: "(if oc_state oc' = OccInterruptedNeedsReview
         then promote_sole_queued invalid_automation_scheduler_journal s (oc_automation_id oc') now
         else Inr None) = Inr p"
    and r': "r' = rc_occurrences_update (hm_insert (oc_id oc) oc') (rc_attempts_update (hm_insert (oc_id oc) as)
      (case p of None \<Rightarrow> r | Some q \<Rightarrow> rc_occurrences_update (hm_insert (oc_id q) q) r))"
    unfolding stage_recovered_def and_then_Inr Let_def sum.inject by blast
  have aid: "oc_automation_id oc' = oc_automation_id oc" by (rule occurrence_steps_fields(2) [OF assms(2)])
  have "p \<noteq> None \<longrightarrow> oc_state oc' = OccInterruptedNeedsReview"
    using p by (auto split: if_splits)
  moreover have "p = None \<or>
      promote_sole_queued invalid_automation_scheduler_journal s (oc_automation_id oc) now = Inr p"
    using p by (auto simp: aid split: if_splits)
  moreover have "rc_occurrences r' = hm_insert (oc_id oc) oc' (put_promoted p (rc_occurrences r))"
    "rc_attempts r' = hm_insert (oc_id oc) as (rc_attempts r)"
    by (auto simp: r' put_promoted_def split: option.split)
  ultimately show "stages_row s now oc r r'" using assms unfolding stages_row_def by blast
  show "rc_runs r' = rc_runs r" "rc_run_events r' = rc_run_events r"
    by (auto simp: r' split: option.split)
qed

lemma stages_row_summary:
  "stages_row s now oc (rc_summary_update f r) r' \<longleftrightarrow> stages_row s now oc r r'"
  by (simp add: stages_row_def)

lemma released_fields:
  assumes "occurrence_release_expired_claim oc now = Inr released"
    and "oc' = released \<or> occurrence_mark_claims_exhausted released now = Inr oc'"
  shows "oc_run_id oc' = oc_run_id oc" "oc_state oc' \<in> {OccPending, OccInterruptedNeedsReview}"
    "oc_id oc' = oc_id oc" "oc_claim_attempt_count oc' = oc_claim_attempt_count oc" "oc_updated_at oc \<le> now"
  using assms by (auto simp: occurrence_ops result_simps)

lemma recover_claimed_row:
  assumes "recover_claimed s now oc r = Inr r'" and inv: "sched_inv cal sha s"
    and oc: "hm_get (mm_occurrences s) (oc_id oc) = Some oc" "oc_state oc = OccClaimed"
  shows "stages_row s now oc r r' \<and> stages_run s now oc r r'"
proof -
  note parts = sched_inv_parts [OF inv]
  from assms(1) obtain released x as as' where
    rel: "occurrence_release_expired_claim oc now = Inr released"
    and x: "(if oc_claim_attempt_count released = max_automation_occurrence_claim_attempts
               then and_then (map_err (\<lambda>_. invalid_automation_scheduler_journal)
                      (occurrence_mark_claims_exhausted released now)) (\<lambda>exhausted.
                    Inr (exhausted, AttemptsExhausted,
                         rc_summary_update (rs_attempts_exhausted_update Suc) r))
               else Inr (released, ExpiredUnlinked,
                         rc_summary_update (rs_released_unlinked_update Suc) r)) = Inr x"
    and as: "hm_get (sc_claim_attempts (mm_sched s)) (oc_id oc) = Some as"
      "complete_claim_attempt oc as (fst (snd x)) now = Inr as'"
    and st: "stage_recovered s now oc (fst x) as' (snd (snd x)) = Inr r'"
    unfolding recover_claimed_def and_then_Inr map_err_Inr ok_or_Inr split_beta by blast
  let ?oc' = "fst x"
  have "occurrence_apply OpReleaseExpiredClaim oc now = Inr released" using rel by simp
  then have step1: "occurrence_step oc released" by (rule occurrence_step.apply_op)
  have x': "?oc' = released \<or> occurrence_mark_claims_exhausted released now = Inr ?oc'"
    "\<exists>f. snd (snd x) = rc_summary_update f r"
    using x by (auto simp: result_simps split: if_splits)
  then have "?oc' = released \<or> occurrence_apply OpMarkClaimsExhausted released now = Inr ?oc'" by simp
  then have steps: "occurrence_step\<^sup>*\<^sup>* oc ?oc'"
    using step1 by (metis occurrence_step.apply_op r_into_rtranclp rtranclp.rtrancl_into_rtrancl)
  have fields: "oc_run_id ?oc' = oc_run_id oc" "\<not> is_queued ?oc'" "oc_id ?oc' = oc_id oc"
    "oc_claim_attempt_count ?oc' = oc_claim_attempt_count oc" "oc_state ?oc' \<noteq> OccClaimed"
    "oc_state ?oc' \<noteq> OccRunLinked" "oc_updated_at oc \<le> now"
    using released_fields [OF rel x'(1)] by auto
  have "occurrence_claim_shape oc"
    using parts(4) oc by (auto simp: occurrences_ok_def occurrence_inv_def occurrence_restore_ok occurrence_shape_ok_def)
  then have time: "\<And>c. oc_claim oc = Some c \<Longrightarrow> cm_claimed_at c \<le> now"
    using fields(7) by (auto simp: occurrence_claim_shape_def)
  have "attempts_inv oc as" using attempts_okD [OF parts(5) oc(1)] as(1) by (simp add: attempts_of_def)
  then have "attempts_inv ?oc' as'"
    by (rule attempts_inv_complete [OF _ oc(2) as(2) time]) (use fields in simp_all)
  note row = stage_recovered_row [OF st steps fields(1,2) this]
  with x'(2) show ?thesis by (auto simp: stages_row_summary stages_run_def)
qed

lemma settle_linked_apply:
  "\<exists>op \<in> {OpSucceed rid, OpFailRun rid, OpInterruptRun rid, OpCancelOccurrence}.
     settle_linked st oc rid now = occurrence_apply op oc now"
  by (cases st) auto

lemma interrupt_linked_run_stages:
  assumes "interrupt_linked_run now rid run r = Inr r'" "oc_run_id oc = Some rid"
    "hm_get (mm_runs s) rid = Some run"
  shows "stages_run s now oc r r'" "rc_occurrences r' = rc_occurrences r" "rc_attempts r' = rc_attempts r"
proof -
  from assms(1) consider "r' = r"
    | run' where "run_transition run InterruptedNeedsReview now = Inr run'"
      "r' = rc_runs_update (hm_insert rid run') (rc_run_events_update (\<lambda>es. es @
         [(rid, state_changed now (run_state_of run) InterruptedNeedsReview)]) r)"
    by (auto simp: interrupt_linked_run_def and_then_Inr map_err_Inr split: if_splits)
  note c = this
  then show "stages_run s now oc r r'"
    by cases (use assms(2,3) in \<open>auto simp: stages_run_def\<close>)
  show "rc_occurrences r' = rc_occurrences r" "rc_attempts r' = rc_attempts r"
    using c by (cases; simp)+
qed

lemma recover_linked_row:
  assumes op: "recover_linked s now oc r = Inr r'" and inv: "sched_inv cal sha s"
    and oc: "hm_get (mm_occurrences s) (oc_id oc) = Some oc" "oc_state oc = OccRunLinked"
  shows "stages_row s now oc r r' \<and> stages_run s now oc r r'"
proof -
  note parts = sched_inv_parts [OF inv]
  from op obtain rid where rid: "oc_run_id oc = Some rid"
    unfolding recover_linked_def and_then_Inr ok_or_Inr by blast
  show ?thesis
  proof (cases "is_resumable_bound s (oc_id oc) rid")
    case True
    with op rid have "r' = rc_summary_update (rs_resumable_bound_queued_update Suc) r"
      by (simp add: recover_linked_def)
    then show ?thesis by (simp add: stages_row_def stages_run_def)
  next
    case False
    let ?sum = "\<lambda>oc' r. if oc_state oc' = OccInterruptedNeedsReview
                then rc_summary_update (rs_interrupted_linked_update Suc) r else r"
    from op False obtain run r1 oc' as where run: "hm_get (mm_runs s) rid = Some run"
      and r1: "interrupt_linked_run now rid run r = Inr r1"
      and settle: "settle_linked (run_state_of run) oc rid now = Inr oc'"
      and as: "hm_get (sc_claim_attempts (mm_sched s)) (oc_id oc) = Some as"
      and rest: "(if as \<noteq> [] \<and> ca_completion (last as) = Some CompletionRunLinked \<and> ca_completed_at (last as) \<noteq> None
         then stage_recovered s now oc oc' as (?sum oc' r1)
         else and_then (complete_claim_attempt oc as CompletionRunLinked now) (\<lambda>as'.
           stage_recovered s now oc oc' as' (?sum oc' r1))) = Inr r'"
      unfolding recover_linked_def and_then_Inr ok_or_Inr map_err_Inr Let_def rid option.inject
      by (simp only: simp_thms if_False and_then_Inr ok_or_Inr map_err_Inr) blast
    have as_inv: "attempts_inv oc as" using attempts_okD [OF parts(5) oc(1)] as by (simp add: attempts_of_def)
    then have "as \<noteq> []" "ca_completion (last as) = Some CompletionRunLinked" "ca_completed_at (last as) \<noteq> None"
      using oc(2) by (auto simp: attempts_inv_def)
    with rest have st: "stage_recovered s now oc oc' as (?sum oc' r1) = Inr r'" by (metis (full_types))
    obtain op' where "occurrence_apply op' oc now = Inr oc'"
        "op' \<in> {OpSucceed rid, OpFailRun rid, OpInterruptRun rid, OpCancelOccurrence}"
      using settle_linked_apply [of rid "run_state_of run" oc now] unfolding settle by metis
    note set = settles [OF this]
    have "attempts_inv oc' as"
      by (rule attempts_inv_settled [OF as_inv])
         (use set oc(2) occurrence_steps_fields [OF set(1)] in auto)
    note row = stage_recovered_row [OF st set(1,5,3) this]
    note run' = interrupt_linked_run_stages [OF r1 rid run]
    have "stages_row s now oc r r'"
      using row(1) run'(2,3) unfolding stages_row_def by (simp split: if_splits)
    moreover have "stages_run s now oc r r'"
      using row(2,3) run'(1) unfolding stages_run_def by (simp split: if_splits)
    ultimately show ?thesis ..
  qed
qed

lemma recover_one_row:
  assumes "recover_one cal sha s now r oc = Inr r'" "sched_inv cal sha s"
    and "hm_get (mm_occurrences s) (oc_id oc) = Some oc"
  shows "stages_row s now oc r r' \<and> stages_run s now oc r r'"
proof -
  have "oc_state oc = OccClaimed \<and> recover_claimed s now oc r = Inr r' \<or>
      oc_state oc = OccRunLinked \<and> recover_linked s now oc r = Inr r'"
    using assms(1) unfolding recover_one_def and_then_Inr by (auto split: automation_occurrence_state.splits)
  with recover_claimed_row [OF _ assms(2,3)] recover_linked_row [OF _ assms(2,3)] show ?thesis by blast
qed

section \<open>What has been staged\<close>

definition settled_in :: "occurrence_map \<Rightarrow> occurrence_map \<Rightarrow> automation_id \<Rightarrow> bool" where
  "settled_in m n aid \<longleftrightarrow>
     (\<exists>j b b'. hm_get m j = Some b \<and> is_active b \<and> oc_automation_id b = aid \<and>
        hm_get n j = Some b' \<and> oc_state b' = OccInterruptedNeedsReview)"

definition staged_from :: "occurrence_map \<Rightarrow> occurrence_map \<Rightarrow> automation_occurrence \<Rightarrow> automation_occurrence \<Rightarrow> bool" where
  "staged_from m n oc oc' \<longleftrightarrow>
     occurrence_step\<^sup>*\<^sup>* oc oc' \<and> oc_run_id oc' = oc_run_id oc \<and> \<not> is_queued oc' \<and>
     (is_queued oc \<longrightarrow> is_active oc') \<and>
     (is_active oc' \<longrightarrow> is_active oc \<or> is_queued oc \<and> settled_in m n (oc_automation_id oc))"

definition staged_attempts ::
  "mem_state \<Rightarrow> recovery \<Rightarrow> automation_occurrence_id \<Rightarrow> claim_attempt list" where
  "staged_attempts s r i =
     (case hm_get (rc_attempts r) i of None \<Rightarrow> attempts_of (sc_claim_attempts (mm_sched s)) i | Some as \<Rightarrow> as)"

definition rows_staged :: "mem_state \<Rightarrow> automation_occurrence set \<Rightarrow> recovery \<Rightarrow> bool" where
  "rows_staged s done r \<longleftrightarrow> hm_wf (rc_occurrences r) \<and> hm_wf (rc_attempts r) \<and>
     (\<forall>i oc'. hm_get (rc_occurrences r) i = Some oc' \<longrightarrow>
        (\<exists>oc. hm_get (mm_occurrences s) i = Some oc \<and> oc_automation_id oc \<in> oc_automation_id ` done \<and>
           staged_from (mm_occurrences s) (rc_occurrences r) oc oc') \<and>
        attempts_inv oc' (staged_attempts s r i)) \<and>
     (\<forall>i as. hm_get (rc_attempts r) i = Some as \<longrightarrow> hm_get (rc_occurrences r) i \<noteq> None)"

lemma rows_stagedD:
  assumes "rows_staged s done r" "hm_get (rc_occurrences r) i = Some oc'"
  obtains oc where "hm_get (mm_occurrences s) i = Some oc" "oc_automation_id oc \<in> oc_automation_id ` done"
    "staged_from (mm_occurrences s) (rc_occurrences r) oc oc'" "attempts_inv oc' (staged_attempts s r i)"
  using assms unfolding rows_staged_def by blast

lemma settled_in_mono: "settled_in m n aid \<Longrightarrow> (\<And>j b. hm_get n j = Some b \<Longrightarrow> hm_get n' j = Some b) \<Longrightarrow> settled_in m n' aid"
  unfolding settled_in_def by blast

lemma staged_from_mono:
  "staged_from m n oc oc' \<Longrightarrow> (\<And>j b. hm_get n j = Some b \<Longrightarrow> hm_get n' j = Some b) \<Longrightarrow> staged_from m n' oc oc'"
  unfolding staged_from_def using settled_in_mono by blast

lemma hm_wf_put_promoted [simp]: "hm_wf m \<Longrightarrow> hm_wf (put_promoted p m)"
  by (simp add: put_promoted_def split: option.split)

lemma hm_get_put_promoted [simp]:
  "hm_get (put_promoted p m) i = (case p of None \<Rightarrow> hm_get m i | Some q \<Rightarrow> if i = oc_id q then Some q else hm_get m i)"
  by (simp add: put_promoted_def split: option.split)

definition staged_kept :: "recovery \<Rightarrow> recovery \<Rightarrow> bool" where
  "staged_kept r r' \<longleftrightarrow>
     (\<forall>j b. hm_get (rc_occurrences r) j = Some b \<longrightarrow> hm_get (rc_occurrences r') j = Some b)"

lemma rows_staged_step:
  assumes rows: "rows_staged s done r" and inv: "sched_inv cal sha s"
    and oc: "hm_get (mm_occurrences s) (oc_id oc) = Some oc" "is_active oc"
      "oc_automation_id oc \<notin> oc_automation_id ` done"
    and step: "occurrence_step\<^sup>*\<^sup>* oc oc'" "oc_run_id oc' = oc_run_id oc" "\<not> is_queued oc'"
      "p \<noteq> None \<longrightarrow> oc_state oc' = OccInterruptedNeedsReview" "attempts_inv oc' as"
    and p: "p = None \<or> promote_sole_queued e s (oc_automation_id oc) now = Inr p"
    and r': "rc_occurrences r' = hm_insert (oc_id oc) oc' (put_promoted p (rc_occurrences r))"
      "rc_attempts r' = hm_insert (oc_id oc) as (rc_attempts r)"
  shows "rows_staged s (insert oc done) r' \<and> staged_kept r r'"
proof -
  let ?m = "mm_occurrences s" and ?n = "rc_occurrences r" and ?n' = "rc_occurrences r'"
  note parts = sched_inv_parts [OF inv]
  have other: "oc_automation_id b \<noteq> oc_automation_id oc" if "hm_get ?m j = Some b" "hm_get ?n j = Some b'" for j b b'
    using rows_stagedD [OF rows that(2)] that(1) oc(3) by (metis option.inject)
  have promoted: "\<exists>q. hm_get ?m (oc_id q') = Some q \<and> is_queued q \<and> oc_automation_id q = oc_automation_id oc \<and>
      occurrence_step\<^sup>*\<^sup>* q q' \<and> oc_state q' = OccPending \<and> oc_run_id q' = oc_run_id q \<and>
      oc_id q' = oc_id q \<and> oc_claim_attempt_count q' = oc_claim_attempt_count q" if "p = Some q'" for q'
    using p that parts(4) by (auto elim!: promote_sole_queued_Inr)
  have fresh: "hm_get ?n (oc_id oc) = None" using other oc(1) by (metis not_None_eq)
  have fresh_q: "hm_get ?n (oc_id q') = None" if "p = Some q'" for q'
    using promoted [OF that] other by (metis not_None_eq)
  have mono: "hm_get ?n' j = Some b" if "hm_get ?n j = Some b" for j b
    using that fresh fresh_q by (auto simp: r' split: option.split)
  have "(\<exists>oc0. hm_get ?m i = Some oc0 \<and> oc_automation_id oc0 \<in> oc_automation_id ` insert oc done \<and>
      staged_from ?m ?n' oc0 x) \<and> attempts_inv x (staged_attempts s r' i)" if x: "hm_get ?n' i = Some x" for i x
  proof -
    consider "i = oc_id oc" "x = oc'" | q' where "i \<noteq> oc_id oc" "p = Some q'" "i = oc_id q'" "x = q'"
      | "i \<noteq> oc_id oc" "hm_get ?n i = Some x"
      using x by (auto simp: r' split: if_splits option.splits)
    then show ?thesis
    proof cases
      case 1
      with oc step show ?thesis by (auto simp: staged_from_def staged_attempts_def r')
    next
      case 2
      then obtain q where q: "hm_get ?m i = Some q" "is_queued q" "oc_automation_id q = oc_automation_id oc"
          "occurrence_step\<^sup>*\<^sup>* q q'" "oc_state q' = OccPending" "oc_run_id q' = oc_run_id q"
          "oc_id q' = oc_id q" "oc_claim_attempt_count q' = oc_claim_attempt_count q"
        using promoted by blast
      have "hm_get ?n' (oc_id oc) = Some oc'" "oc_state oc' = OccInterruptedNeedsReview" using step(4) 2(2) by (simp_all add: r')
      then have "settled_in ?m ?n' (oc_automation_id q)"
        using oc(1,2) q(3) unfolding settled_in_def by auto
      then have "staged_from ?m ?n' q q'" using q by (simp add: staged_from_def)
      moreover have "hm_get (rc_attempts r) i = None"
        using rows fresh_q 2(2,3) unfolding rows_staged_def by (metis option.exhaust)
      then have "staged_attempts s r' i = attempts_of (sc_claim_attempts (mm_sched s)) i"
        using 2(1) by (simp add: staged_attempts_def r')
      moreover have "attempts_inv q' (attempts_of (sc_claim_attempts (mm_sched s)) i)"
        by (rule attempts_inv_settled [OF attempts_okD [OF parts(5) q(1)]]) (use q in simp_all)
      ultimately show ?thesis using q(1,3) 2(4) by auto
    next
      case 3
      then show ?thesis
        using rows_stagedD [OF rows 3(2)] staged_from_mono [OF _ mono]
        by (metis (no_types, lifting) hm_get_insert image_insert insertCI r'(2) staged_attempts_def)
    qed
  qed
  moreover have "hm_get ?n' i \<noteq> None" if a: "hm_get (rc_attempts r') i = Some as'" for i as'
  proof (cases "i = oc_id oc")
    case False
    with a have "hm_get (rc_attempts r) i = Some as'" by (simp add: r')
    then obtain b where "hm_get ?n i = Some b" using rows unfolding rows_staged_def by blast
    from mono [OF this] show ?thesis by simp
  qed (simp add: r')
  moreover have "hm_wf ?n'" "hm_wf (rc_attempts r')" using rows by (simp_all add: r' rows_staged_def)
  ultimately have "rows_staged s (insert oc done) r'" unfolding rows_staged_def by blast
  with mono show ?thesis unfolding staged_kept_def by blast
qed

lemma rows_staged_more:
  assumes "rows_staged s done r" "rc_occurrences r' = rc_occurrences r" "rc_attempts r' = rc_attempts r"
  shows "rows_staged s (insert oc done) r'"
  using assms(1) unfolding rows_staged_def staged_attempts_def assms(2,3) by blast

lemma rows_staged_row:
  assumes rows: "rows_staged s done r" and inv: "sched_inv cal sha s"
    and oc: "hm_get (mm_occurrences s) (oc_id oc) = Some oc" "is_active oc"
      "oc_automation_id oc \<notin> oc_automation_id ` done"
    and row: "stages_row s now oc r r'"
  shows "rows_staged s (insert oc done) r' \<and> staged_kept r r'"
  using row unfolding stages_row_def
proof (rule disjE)
  assume "rc_occurrences r' = rc_occurrences r \<and> rc_attempts r' = rc_attempts r"
  then show ?thesis using rows_staged_more [OF rows, of r'] by (simp add: staged_kept_def)
qed (elim exE conjE, rule rows_staged_step [OF rows inv oc])

text \<open>The staged runs: each was interrupted once, from the stored run, with its event.\<close>

definition interrupts :: "mem_state \<Rightarrow> unix_millis \<Rightarrow> run_id \<times> run \<Rightarrow> run_id \<times> new_run_event \<Rightarrow> bool" where
  "interrupts s now p e \<longleftrightarrow>
     fst e = fst p \<and>
     (\<exists>run. hm_get (mm_runs s) (fst p) = Some run \<and>
        run_transition run InterruptedNeedsReview now = Inr (snd p) \<and>
        snd e = state_changed now (run_state_of run) InterruptedNeedsReview)"

definition runs_staged :: "mem_state \<Rightarrow> unix_millis \<Rightarrow> automation_occurrence set \<Rightarrow> recovery \<Rightarrow> bool" where
  "runs_staged s now done r \<longleftrightarrow> hm_wf (rc_runs r) \<and>
     list_all2 (interrupts s now) (rc_runs r) (rc_run_events r) \<and>
     Some ` fst ` set (rc_runs r) \<subseteq> oc_run_id ` done"

lemma hm_insert_fresh: "k \<notin> fst ` set m \<Longrightarrow> hm_insert k v m = m @ [(k, v)]"
  by (induction k v m rule: hm_insert.induct) auto

lemma runs_staged_step:
  assumes "runs_staged s now done r" "stages_run s now oc r r'" "oc_run_id oc \<notin> oc_run_id ` done \<or> oc_run_id oc = None"
  shows "runs_staged s now (insert oc done) r'"
  using assms(2) unfolding stages_run_def
proof (elim disjE exE conjE)
  fix rid run run'
  assume rid: "oc_run_id oc = Some rid" and "hm_get (mm_runs s) rid = Some run"
    "run_transition run InterruptedNeedsReview now = Inr run'"
    and r': "rc_runs r' = hm_insert rid run' (rc_runs r)" "rc_run_events r' = rc_run_events r @
          [(rid, state_changed now (run_state_of run) InterruptedNeedsReview)]"
  then have new: "interrupts s now (rid, run') (rid, state_changed now (run_state_of run) InterruptedNeedsReview)"
    by (simp add: interrupts_def)
  have "Some rid \<notin> Some ` fst ` set (rc_runs r)"
    using assms(1,3) rid unfolding runs_staged_def by auto
  then have "rid \<notin> fst ` set (rc_runs r)" by blast
  note app = hm_insert_fresh [OF this, of run']
  have "list_all2 (interrupts s now) (rc_runs r') (rc_run_events r')"
    using assms(1) new unfolding r' app runs_staged_def by (simp add: list_all2_appendI)
  moreover have "hm_wf (rc_runs r')" using assms(1) by (simp add: r' runs_staged_def)
  moreover have "Some ` fst ` set (rc_runs r') \<subseteq> oc_run_id ` insert oc done"
    using assms(1) rid unfolding r' app runs_staged_def by auto
  ultimately show ?thesis by (simp add: runs_staged_def)
qed (use assms(1) in \<open>auto simp: runs_staged_def\<close>)

definition active_rows :: "mem_state \<Rightarrow> automation_occurrence set" where
  "active_rows s = {oc. hm_get (mm_occurrences s) (oc_id oc) = Some oc \<and> is_active oc}"

lemma active_rowsD:
  assumes "oc \<in> active_rows s"
  shows "hm_get (mm_occurrences s) (oc_id oc) = Some oc" "is_active oc"
  using assms by (simp_all add: active_rows_def)

lemma active_rows_same:
  assumes inv: "sched_inv cal sha s" and "a \<in> active_rows s" "b \<in> active_rows s"
    and same: "both_active a b \<or> same_run a b"
  shows "a = b"
proof -
  note parts = sched_inv_parts [OF inv]
  note a = active_rowsD [OF assms(2)] and b = active_rowsD [OF assms(3)]
  have active: "unique_by both_active (mm_occurrences s)"
    using parts(4) unfolding occurrences_ok_def by (elim conjE)
  have run: "unique_by same_run (mm_occurrences s)"
    using parts(7) unfolding links_ok_def by (elim conjE)
  from same have "oc_id a = oc_id b"
    using unique_byD [OF active a(1) b(1)] unique_byD [OF run a(1) b(1)] by blast
  with a(1) b(1) show ?thesis by (metis option.inject)
qed

lemma recover_step:
  assumes step: "recover_one cal sha s now r oc = Inr r'" and inv: "sched_inv cal sha s"
    and oc: "oc \<in> active_rows s" "done \<subseteq> active_rows s" "oc \<notin> done"
    and staged: "rows_staged s done r" "runs_staged s now done r"
  shows "rows_staged s (insert oc done) r'" "runs_staged s now (insert oc done) r'" "staged_kept r r'"
proof -
  note a = active_rowsD [OF oc(1)]
  have new: "\<not> both_active b oc" "\<not> same_run b oc" if "b \<in> done" for b
    using active_rows_same [OF inv _ oc(1), of b] that oc(2,3) by blast+
  have aid: "oc_automation_id oc \<notin> oc_automation_id ` done"
  proof
    assume "oc_automation_id oc \<in> oc_automation_id ` done"
    then obtain b where b: "b \<in> done" "oc_automation_id oc = oc_automation_id b" by blast
    then have "is_active b" using oc(2) active_rowsD(2) by blast
    with b a(2) new(1) [OF b(1)] show False by (simp add: both_active_def)
  qed
  have rid: "oc_run_id oc \<notin> oc_run_id ` done \<or> oc_run_id oc = None"
    using new(2) unfolding same_run_def by fastforce
  have row: "stages_row s now oc r r'" and run: "stages_run s now oc r r'"
    using recover_one_row [OF step inv a(1)] by blast+
  show "rows_staged s (insert oc done) r'" "runs_staged s now (insert oc done) r'" "staged_kept r r'"
    using rows_staged_row [OF staged(1) inv a aid row] runs_staged_step [OF staged(2) run rid] by simp_all
qed

lemma recover_fold:
  assumes "result_fold (recover_one cal sha s now) r ocs = Inr r'" and inv: "sched_inv cal sha s"
    and "set ocs \<subseteq> active_rows s" "done \<subseteq> active_rows s" "distinct ocs" "set ocs \<inter> done = {}"
    and "rows_staged s done r" "runs_staged s now done r"
  shows "rows_staged s (done \<union> set ocs) r' \<and> runs_staged s now (done \<union> set ocs) r' \<and> staged_kept r r' \<and>
    (\<forall>oc \<in> set ocs. \<exists>r1 r2. recover_one cal sha s now r1 oc = Inr r2 \<and> staged_kept r2 r')"
  using assms(1,3-)
proof (induction ocs arbitrary: r "done")
  case Nil
  then show ?case by (simp add: staged_kept_def)
next
  case (Cons oc ocs)
  from Cons.prems(1) obtain r1 where r1: "recover_one cal sha s now r oc = Inr r1"
    and rest: "result_fold (recover_one cal sha s now) r1 ocs = Inr r'"
    unfolding result_fold.simps and_then_Inr by blast
  have "oc \<in> active_rows s" "oc \<notin> done" using Cons.prems(2,5) by simp_all
  note st = recover_step [OF r1 inv this(1) Cons.prems(3) this(2) Cons.prems(6,7)]
  have IH: "rows_staged s (insert oc done \<union> set ocs) r' \<and> runs_staged s now (insert oc done \<union> set ocs) r' \<and>
      staged_kept r1 r' \<and> (\<forall>oc \<in> set ocs. \<exists>r1 r2. recover_one cal sha s now r1 oc = Inr r2 \<and> staged_kept r2 r')"
    using Cons.IH [OF rest _ _ _ _ st(1,2)] Cons.prems(2-5) by simp
  moreover have "staged_kept r r'" using st(3) IH unfolding staged_kept_def by blast
  moreover have "\<exists>r1 r2. recover_one cal sha s now r1 oc = Inr r2 \<and> staged_kept r2 r'" using r1 IH by blast
  ultimately show ?case by simp
qed

text \<open>A linked row whose run had ended is settled without a promotion.\<close>

lemma recover_one_settles:
  assumes op: "recover_one cal sha s now r oc = Inr r'"
    and oc: "oc_state oc = OccRunLinked" "oc_run_id oc = Some rid"
    and run: "hm_get (mm_runs s) rid = Some run" "run_state_of run \<in> {Completed, Failed, Cancelled}"
  shows "\<exists>oc'. hm_get (rc_occurrences r') (oc_id oc) = Some oc' \<and>
    oc_state oc' \<in> {OccSucceeded, OccFailed, OccCancelled}"
proof -
  have op': "recover_linked s now oc r = Inr r'"
    using op oc(1) unfolding recover_one_def and_then_Inr by auto
  have no: "\<not> is_resumable_bound s (oc_id oc) rid" using run by (auto simp: is_resumable_bound_def)
  have put: "\<exists>oc'. hm_get (rc_occurrences r') (oc_id oc) = Some oc' \<and> oc_state oc' \<in> {OccSucceeded, OccFailed, OccCancelled}"
    if "stage_recovered s now oc oc' as r1 = Inr r'" "oc_state oc' \<in> {OccSucceeded, OccFailed, OccCancelled}" for oc' as r1
    using that unfolding stage_recovered_def and_then_Inr Let_def sum.inject by auto
  have st: "oc_state oc' \<in> {OccSucceeded, OccFailed, OccCancelled}"
    if "settle_linked (run_state_of run) oc rid now = Inr oc'" for oc'
    using that run(2) by (auto simp: occurrence_ops result_simps)
  from op' obtain oc' as r1 where "settle_linked (run_state_of run) oc rid now = Inr oc'"
    "stage_recovered s now oc oc' as r1 = Inr r'"
    unfolding recover_linked_def and_then_Inr ok_or_Inr map_err_Inr Let_def oc option.inject
    by (simp only: simp_thms if_False if_not_P [OF no] and_then_Inr ok_or_Inr map_err_Inr run(1) option.inject)
       (auto simp: and_then_Inr split: if_splits)
  with put st show ?thesis by blast
qed

section \<open>Applying the staged changes\<close>

abbreviation hm_inserts :: "('k, 'v) hmap \<Rightarrow> ('k, 'v) hmap \<Rightarrow> ('k, 'v) hmap" where
  "hm_inserts n m \<equiv> fold (\<lambda>p. hm_insert (fst p) (snd p)) n m"

lemma hm_get_fresh: "k \<notin> fst ` set m \<Longrightarrow> hm_get m k = None"
  by (induction m) auto

lemma hm_get_inserts:
  "hm_wf n \<Longrightarrow> hm_get (hm_inserts n m) i = (case hm_get n i of None \<Rightarrow> hm_get m i | Some v \<Rightarrow> Some v)"
proof (induction n arbitrary: m)
  case (Cons p n)
  obtain k v where p: "p = (k, v)" by (cases p)
  from Cons.prems have "hm_wf n" "hm_get n k = None" by (auto simp: p hm_wf_def hm_get_fresh)
  with Cons.IH [of "hm_insert k v m"] show ?case by (auto simp: p split: option.split)
qed simp

lemma hm_wf_inserts: "hm_wf m \<Longrightarrow> hm_wf (hm_inserts n m)"
  by (induction n arbitrary: m) auto

definition rebinds ::
  "(automation_occurrence_id, automation_occurrence_dispatch_result) hmap \<Rightarrow>
   (automation_occurrence_id, automation_occurrence_dispatch_result) hmap \<Rightarrow> bool" where
  "rebinds ds ds' \<longleftrightarrow> (hm_wf ds \<longrightarrow> hm_wf ds') \<and>
     (\<forall>i d'. hm_get ds' i = Some d' \<longrightarrow> (\<exists>d. hm_get ds i = Some d \<and>
        run_id_of (dr_run d') = run_id_of (dr_run d) \<and>
        (oc_id (dr_occurrence d) = i \<longrightarrow> oc_id (dr_occurrence d') = i)))"

lemma rebinds_refl [simp]: "rebinds ds ds"
  by (simp add: rebinds_def)

lemma rebindsD:
  assumes "rebinds ds ds'" "hm_get ds' i = Some d'"
  obtains d where "hm_get ds i = Some d" "run_id_of (dr_run d') = run_id_of (dr_run d)"
    "oc_id (dr_occurrence d) = i \<Longrightarrow> oc_id (dr_occurrence d') = i"
  using assms unfolding rebinds_def by blast

lemma rebinds_trans:
  assumes ab: "rebinds a b" and bc: "rebinds b c"
  shows "rebinds a c"
proof -
  have "\<exists>d. hm_get a i = Some d \<and> run_id_of (dr_run d') = run_id_of (dr_run d) \<and>
      (oc_id (dr_occurrence d) = i \<longrightarrow> oc_id (dr_occurrence d') = i)" if d': "hm_get c i = Some d'" for i d'
  proof -
    obtain d where d: "hm_get b i = Some d" "run_id_of (dr_run d') = run_id_of (dr_run d)"
        "oc_id (dr_occurrence d) = i \<Longrightarrow> oc_id (dr_occurrence d') = i" using rebindsD [OF bc d'] by blast
    show ?thesis by (rule rebindsD [OF ab d(1)]) (use d(2,3) in auto)
  qed
  with ab bc show ?thesis unfolding rebinds_def by blast
qed

lemma rebinds_dispatches:
  assumes re: "rebinds ds ds'" and ok: "dispatches_ok m ds"
  shows "dispatches_ok m ds'"
proof -
  have "oc_id (dr_occurrence d') = i \<and> (\<exists>oc. hm_get m i = Some oc \<and> oc_run_id oc = Some (run_id_of (dr_run d')))"
    if d': "hm_get ds' i = Some d'" for i d'
  proof -
    obtain d where "hm_get ds i = Some d" "run_id_of (dr_run d') = run_id_of (dr_run d)"
        "oc_id (dr_occurrence d) = i \<Longrightarrow> oc_id (dr_occurrence d') = i" using rebindsD [OF re d'] by blast
    with ok show ?thesis by (auto simp: dispatches_ok_def)
  qed
  with re ok show ?thesis unfolding dispatches_ok_def rebinds_def by blast
qed

lemma hm_get_update_bound_run:
  "hm_get (update_bound_run rid run ds) i = Some d' \<Longrightarrow> \<exists>d. hm_get ds i = Some d \<and>
     (d' = d \<or> run_id_of (dr_run d) = rid \<and> d' = d\<lparr>dr_run := run\<rparr>)"
  by (induction rid run ds rule: update_bound_run.induct) (auto split: if_splits)

lemma fst_update_bound_run [simp]: "map fst (update_bound_run rid run ds) = map fst ds"
  by (induction rid run ds rule: update_bound_run.induct) auto

lemma rebinds_run: "run_id_of run = rid \<Longrightarrow> rebinds ds (update_bound_run rid run ds)"
  by (auto simp: rebinds_def hm_wf_def dest!: hm_get_update_bound_run)

lemma recovered_occurrence_fields [simp]:
  "mm_exec (apply_recovered_occurrence p s) = mm_exec s"
  "mm_occurrences (apply_recovered_occurrence p s) = hm_insert (fst p) (snd p) (mm_occurrences s)"
  "sc_lease (mm_sched (apply_recovered_occurrence p s)) = sc_lease (mm_sched s)"
  "sc_cursors (mm_sched (apply_recovered_occurrence p s)) = sc_cursors (mm_sched s)"
  "sc_claim_attempts (mm_sched (apply_recovered_occurrence p s)) = sc_claim_attempts (mm_sched s)"
  by (simp_all add: apply_recovered_occurrence_def split: option.split)

lemma rebinds_occurrence:
  "oc_id (snd p) = fst p \<Longrightarrow> rebinds (mm_dispatches s) (mm_dispatches (apply_recovered_occurrence p s))"
  by (auto simp: apply_recovered_occurrence_def rebinds_def split: option.split)

lemma recovered_occurrences_fields [simp]:
  "mm_exec (fold apply_recovered_occurrence n s) = mm_exec s"
  "mm_occurrences (fold apply_recovered_occurrence n s) = hm_inserts n (mm_occurrences s)"
  "sc_lease (mm_sched (fold apply_recovered_occurrence n s)) = sc_lease (mm_sched s)"
  "sc_cursors (mm_sched (fold apply_recovered_occurrence n s)) = sc_cursors (mm_sched s)"
  "sc_claim_attempts (mm_sched (fold apply_recovered_occurrence n s)) = sc_claim_attempts (mm_sched s)"
  by (induction n arbitrary: s) simp_all

lemma rebinds_occurrences:
  "\<forall>p \<in> set n. oc_id (snd p) = fst p \<Longrightarrow>
   rebinds (mm_dispatches s) (mm_dispatches (fold apply_recovered_occurrence n s))"
proof (induction n arbitrary: s)
  case (Cons p n)
  then have "rebinds (mm_dispatches s) (mm_dispatches (apply_recovered_occurrence p s))"
    by (intro rebinds_occurrence) simp
  with Cons show ?case by (auto intro: rebinds_trans)
qed simp

lemma recovered_runs_fields [simp]:
  "mm_exec (fold apply_recovered_run rs s) = es_runs_update (hm_inserts rs) (mm_exec s)"
  "mm_occurrences (fold apply_recovered_run rs s) = mm_occurrences s"
  "sc_lease (mm_sched (fold apply_recovered_run rs s)) = sc_lease (mm_sched s)"
  "sc_cursors (mm_sched (fold apply_recovered_run rs s)) = sc_cursors (mm_sched s)"
  "sc_claim_attempts (mm_sched (fold apply_recovered_run rs s)) = sc_claim_attempts (mm_sched s)"
  by (induction rs arbitrary: s) (simp_all add: apply_recovered_run_def)

lemma rebinds_runs:
  "\<forall>p \<in> set rs. run_id_of (snd p) = fst p \<Longrightarrow>
   rebinds (mm_dispatches s) (mm_dispatches (fold apply_recovered_run rs s))"
proof (induction rs arbitrary: s)
  case (Cons p rs)
  then have "rebinds (mm_dispatches s) (mm_dispatches (apply_recovered_run p s))"
    by (simp add: apply_recovered_run_def rebinds_run)
  with Cons show ?case by (auto intro: rebinds_trans)
qed simp

abbreviation add_run_event :: "run_id \<times> new_run_event \<Rightarrow> exec_state \<Rightarrow> exec_state" where
  "add_run_event \<equiv> \<lambda>(rid, event) e. append_events e rid [event]"

lemma recovered_events_fields [simp]:
  "mm_exec (fold (\<lambda>(rid, event). mm_exec_update (\<lambda>e. append_events e rid [event])) es s) =
     fold add_run_event es (mm_exec s)"
  "mm_sched (fold (\<lambda>(rid, event). mm_exec_update (\<lambda>e. append_events e rid [event])) es s) = mm_sched s"
  by (induction es arbitrary: s) (auto simp: split_beta)

lemma recovered_attempts_fields [simp]:
  "mm_exec (fold (\<lambda>(i, as). put_attempts i as) am s) = mm_exec s"
  "mm_sched (fold (\<lambda>(i, as). put_attempts i as) am s) =
     sc_claim_attempts_update (hm_inserts am) (mm_sched s)"
  by (induction am arbitrary: s) (auto simp: split_beta put_attempts_def)

text \<open>The interrupted runs, each stored with its event.\<close>

lemma append_events_runs_update:
  "append_events (es_runs_update f e) i evs = es_runs_update f (append_events e i evs)"
  by (simp add: append_events_def)

lemma add_run_events_runs_update:
  "fold add_run_event es (es_runs_update f e) = es_runs_update f (fold add_run_event es e)"
  by (induction es arbitrary: e) (auto simp: append_events_runs_update)

lemma es_runs_append_events [simp]: "es_runs (append_events e i evs) = es_runs e"
  by (simp add: append_events_def)

lemma exec_recovered:
  assumes "list_all2 (interrupts s now) rs es" "hm_wf rs" "exec_inv e"
    and "\<And>i. i \<in> fst ` set rs \<Longrightarrow> hm_get (es_runs e) i = hm_get (mm_runs s) i"
  shows "exec_inv (fold add_run_event es (es_runs_update (hm_inserts rs) e))"
  using assms
proof (induction rs es arbitrary: e rule: list_all2_induct)
  case Nil
  then show ?case by (cases e) simp
next
  case (Cons p rs ev es)
  obtain rid run' where p: "p = (rid, run')" by (cases p)
  from Cons.hyps(1) obtain run where run: "hm_get (mm_runs s) rid = Some run"
      "run_transition run InterruptedNeedsReview now = Inr run'"
    and ev: "ev = (rid, state_changed now (run_state_of run) InterruptedNeedsReview)"
    by (cases ev) (auto simp: interrupts_def p)
  let ?e = "append_events (es_runs_update (hm_insert rid run') e) rid [snd ev]"
  have stored: "hm_get (es_runs e) rid = Some run" using Cons.prems(3) [of rid] run(1) by (simp add: p)
  have steps: "run_steps run run'" using run_step.transition [OF run(2)] by auto
  have "run_state_of run' = InterruptedNeedsReview" "run_state_of run \<noteq> run_state_of run'"
    using run(2) by (auto simp: run_transition_Inr)
  then have "exec_inv ?e"
    by (intro exec_put_run [OF Cons.prems(2) stored steps])
       (use run(2) in \<open>auto simp: ev state_changed_def run_transition_Inr\<close>)
  moreover have "hm_wf rs" "rid \<notin> fst ` set rs" using Cons.prems(1) by (auto simp: p hm_wf_def)
  moreover have "hm_get (es_runs ?e) i = hm_get (mm_runs s) i" if i: "i \<in> fst ` set rs" for i
    using Cons.prems(3) [of i] i \<open>rid \<notin> fst ` set rs\<close> by auto
  ultimately have "exec_inv (fold add_run_event es (es_runs_update (hm_inserts rs) ?e))"
    by (intro Cons.IH) auto
  moreover have "fold add_run_event (ev # es) (es_runs_update (hm_inserts (p # rs)) e) =
      fold add_run_event es (es_runs_update (hm_inserts rs) ?e)"
    by (simp add: ev p append_events_runs_update comp_def)
  ultimately show ?case by simp
qed

lemma es_runs_add_events [simp]: "es_runs (fold add_run_event es e) = es_runs e"
  by (induction es arbitrary: e) auto

lemma interrupts_row:
  assumes "list_all2 (interrupts s now) rs es" "p \<in> set rs"
  obtains run where "hm_get (mm_runs s) (fst p) = Some run" "run_step run (snd p)"
proof -
  from assms obtain e where "interrupts s now p e" unfolding list_all2_conv_all_nth by (metis in_set_conv_nth)
  then show thesis using that by (auto simp: interrupts_def intro: run_step.transition)
qed

lemma staged_move:
  assumes rows: "rows_staged s done r" and inv: "sched_inv cal sha s"
  shows "occurrences_move (mm_occurrences s) (hm_inserts (rc_occurrences r) (mm_occurrences s))"
proof -
  let ?m = "mm_occurrences s" and ?n = "rc_occurrences r"
  let ?m' = "hm_inserts ?n ?m"
  note parts = sched_inv_parts [OF inv]
  have wf: "hm_wf ?n" using rows by (simp add: rows_staged_def)
  note get = hm_get_inserts [OF wf, of ?m]
  have row: "staged_from ?m ?n a a'" if a: "hm_get ?m i = Some a" and a': "hm_get ?n i = Some a'" for i a a'
    by (rule rows_stagedD [OF rows a']) (use a in simp)
  have left: "active_left ?m ?m' aid" if settled: "settled_in ?m ?n aid" for aid
  proof -
    from settled obtain j b b' where j: "hm_get ?m j = Some b" "is_active b" "oc_automation_id b = aid"
        "hm_get ?n j = Some b'" "oc_state b' = OccInterruptedNeedsReview" unfolding settled_in_def by blast
    have active: "unique_by both_active ?m" using parts(4) unfolding occurrences_ok_def by (elim conjE)
    have "\<not> is_active c'" if c: "hm_get ?m k = Some c" "hm_get ?m' k = Some c'" "oc_automation_id c = aid" "is_active c"
      for k c c'
    proof -
      have "k = j" using unique_byD [OF active c(1) j(1)] c(3,4) j(2,3) by (simp add: both_active_def)
      with c(2) j(4,5) show ?thesis by (simp add: get)
    qed
    with j(1,2,3) show ?thesis unfolding active_left_def by blast
  qed
  have keep: "\<exists>a'. hm_get ?m' i = Some a' \<and> (a' = a \<or> staged_from ?m ?n a a')" if a: "hm_get ?m i = Some a" for i a
    using a row [OF a] by (cases "hm_get ?n i") (simp_all add: get)
  have none: "hm_get ?m' i = None" if "hm_get ?m i = None" for i
  proof (cases "hm_get ?n i")
    case (Some x)
    from rows_stagedD [OF rows this] that show ?thesis by simp
  qed (use that in \<open>simp add: get\<close>)
  have steps: "\<exists>a'. hm_get ?m' i = Some a' \<and> occurrence_step\<^sup>*\<^sup>* a a'" if a: "hm_get ?m i = Some a" for i a
    using keep [OF a] unfolding staged_from_def by blast
  moreover have "is_queued a" if "hm_get ?m i = Some a" "hm_get ?m' i = Some a'" "is_queued a'" for i a a'
    using keep [OF that(1)] that(2,3) unfolding staged_from_def by auto
  moreover have "is_queued a' \<or> is_active a'" if "hm_get ?m i = Some a" "hm_get ?m' i = Some a'" "is_queued a" for i a a'
    using keep [OF that(1)] that(2,3) unfolding staged_from_def by auto
  moreover have "is_active a \<or> is_queued a \<and> active_left ?m ?m' (oc_automation_id a)"
    if "hm_get ?m i = Some a" "hm_get ?m' i = Some a'" "is_active a'" for i a a'
    using keep [OF that(1)] that(2,3) left unfolding staged_from_def by auto
  ultimately show ?thesis using none unfolding occurrences_move_def by blast
qed

lemma staged_attempts_ok:
  assumes rows: "rows_staged s done r" and inv: "sched_inv cal sha s"
  shows "attempts_ok (hm_inserts (rc_occurrences r) (mm_occurrences s))
    (hm_inserts (rc_attempts r) (sc_claim_attempts (mm_sched s)))" (is "attempts_ok ?m' ?am'")
proof -
  note parts = sched_inv_parts [OF inv]
  have wf: "hm_wf (rc_occurrences r)" "hm_wf (rc_attempts r)" using rows by (simp_all add: rows_staged_def)
  note get = hm_get_inserts [OF wf(1)] hm_get_inserts [OF wf(2)]
  have of': "attempts_of ?am' i = staged_attempts s r i" for i
    by (simp add: attempts_of_def staged_attempts_def get split: option.split)
  have sub: "hm_get (rc_occurrences r) i \<noteq> None" if "hm_get (rc_attempts r) i = Some as" for i as
    using rows that unfolding rows_staged_def by blast
  have "hm_get ?am' i = None" if none: "hm_get ?m' i = None" for i
  proof -
    from none have "hm_get (rc_occurrences r) i = None" "hm_get (mm_occurrences s) i = None"
      by (auto simp: get split: option.splits)
    moreover have "hm_get (rc_attempts r) i = None" using sub calculation(1) by (metis not_None_eq)
    ultimately show ?thesis using parts(5) by (simp add: get attempts_ok_def)
  qed
  moreover have "attempts_inv oc (attempts_of ?am' i)" if oc: "hm_get ?m' i = Some oc" for i oc
  proof (cases "hm_get (rc_occurrences r) i")
    case None
    then have "hm_get (rc_attempts r) i = None" using sub by (metis not_None_eq)
    with None oc attempts_okD [OF parts(5)] show ?thesis by (simp add: of' get staged_attempts_def)
  next
    case (Some x)
    with oc have "x = oc" by (simp add: get)
    with rows_stagedD [OF rows Some] show ?thesis by (simp add: of')
  qed
  ultimately show ?thesis unfolding attempts_ok_def by blast
qed

lemma staged_links_ok:
  assumes rows: "rows_staged s done r" and links: "links_ok rs (mm_occurrences s)"
  shows "links_ok rs (hm_inserts (rc_occurrences r) (mm_occurrences s))"
proof (rule links_ok_rows [OF links])
  fix i oc'
  assume oc': "hm_get (hm_inserts (rc_occurrences r) (mm_occurrences s)) i = Some oc'"
  have wf: "hm_wf (rc_occurrences r)" using rows by (simp add: rows_staged_def)
  show "\<exists>oc. hm_get (mm_occurrences s) i = Some oc \<and> oc_run_id oc' = oc_run_id oc"
  proof (cases "hm_get (rc_occurrences r) i")
    case (Some x)
    with oc' have "x = oc'" by (simp add: hm_get_inserts [OF wf])
    with rows_stagedD [OF rows Some] show ?thesis unfolding staged_from_def by metis
  qed (use oc' in \<open>simp add: hm_get_inserts [OF wf]\<close>)
qed

lemma hm_get_member: "hm_wf m \<Longrightarrow> p \<in> set m \<Longrightarrow> hm_get m (fst p) = Some (snd p)"
proof (induction m)
  case (Cons q m)
  then show ?case by (cases q) (force simp: hm_wf_def)
qed simp

lemma hm_member_get: "hm_get m k = Some v \<Longrightarrow> (k, v) \<in> set m"
  by (induction m k rule: hm_get.induct) (auto split: if_splits)

lemma apply_recovery_keeps:
  assumes inv: "sched_inv cal sha s" and rows: "rows_staged s done r" and runs: "runs_staged s now done r"
  shows "sched_inv cal sha (apply_recovery r s) \<and> sched_moves s (apply_recovery r s)"
proof -
  note parts = sched_inv_parts [OF inv]
  let ?m' = "hm_inserts (rc_occurrences r) (mm_occurrences s)"
  let ?rs' = "hm_inserts (rc_runs r) (mm_runs s)" and ?t = "apply_recovery r s"
  let ?s1 = "fold apply_recovered_occurrence (rc_occurrences r) s"
  have all2: "list_all2 (interrupts s now) (rc_runs r) (rc_run_events r)" and wf: "hm_wf (rc_runs r)"
    "hm_wf (rc_occurrences r)"
    using runs rows by (simp_all add: runs_staged_def rows_staged_def)
  have ids: "run_id_of (snd p) = fst p" if p: "p \<in> set (rc_runs r)" for p
  proof (rule interrupts_row [OF all2 p])
    fix run assume "hm_get (mm_runs s) (fst p) = Some run" and step: "run_step run (snd p)"
    moreover have "run_steps run (snd p)" using step by simp
    ultimately show ?thesis
      using run_life.steps_ident [of run "snd p"] run_id_stored [OF parts(1)] by (simp add: run_frame_def)
  qed
  have oc_ids: "oc_id (snd p) = fst p" if p: "p \<in> set (rc_occurrences r)" for p
  proof (rule rows_stagedD [OF rows hm_get_member [OF wf(2) p]])
    fix oc assume oc: "hm_get (mm_occurrences s) (fst p) = Some oc"
      and "staged_from (mm_occurrences s) (rc_occurrences r) oc (snd p)"
    then have "oc_id (snd p) = oc_id oc" by (simp add: staged_from_def occurrence_steps_fields(1))
    with parts(4) oc show ?thesis by (simp add: occurrences_ok_def)
  qed
  have evolve: "rows_evolve run_step (mm_runs s) ?rs'"
  proof -
    have "\<exists>y. hm_get ?rs' i = Some y \<and> run_steps run0 y" if i: "hm_get (mm_runs s) i = Some run0" for i run0
    proof (cases "hm_get (rc_runs r) i")
      case (Some y)
      show ?thesis by (rule interrupts_row [OF all2 hm_member_get [OF Some]])
        (use i Some in \<open>auto simp: hm_get_inserts [OF wf(1)]\<close>)
    qed (use i in \<open>simp add: hm_get_inserts [OF wf(1)]\<close>)
    then show ?thesis unfolding rows_evolve_def by blast
  qed
  have exec: "exec_inv (mm_exec ?t)" "mm_runs ?t = ?rs'"
    using exec_recovered [OF all2 wf(1) parts(1)] by (simp_all add: apply_recovery_def)
  have sched: "mm_occurrences ?t = ?m'" "sc_lease (mm_sched ?t) = sc_lease (mm_sched s)"
    "sc_cursors (mm_sched ?t) = sc_cursors (mm_sched s)"
    "sc_claim_attempts (mm_sched ?t) = hm_inserts (rc_attempts r) (sc_claim_attempts (mm_sched s))"
    "mm_dispatches ?t = mm_dispatches (fold apply_recovered_run (rc_runs r) ?s1)"
    by (simp_all add: apply_recovery_def)
  have move: "occurrences_move (mm_occurrences s) ?m'" by (rule staged_move [OF rows inv])
  note moved = occurrences_move_evolve [OF move]
  have "rebinds (mm_dispatches s) (mm_dispatches ?t)"
    unfolding sched using rebinds_occurrences [of "rc_occurrences r" s] rebinds_runs [of "rc_runs r" ?s1] ids oc_ids
    by (blast intro: rebinds_trans)
  then have "dispatches_ok ?m' (mm_dispatches ?t)"
    by (rule rebinds_dispatches) (rule dispatches_ok_move [OF parts(6,4) moved])
  moreover have "hm_wf ?m'" using parts(4) by (simp add: occurrences_ok_def hm_wf_inserts)
  then have "occurrences_ok cal sha ?m'" by (rule occurrences_move_keeps [OF parts(4) _ move])
  moreover have "links_ok ?rs' ?m'" by (rule links_ok_runs [OF staged_links_ok [OF rows parts(7)] evolve])
  ultimately show ?thesis
    using parts(2,3) exec evolve move staged_attempts_ok [OF rows inv]
    unfolding sched_inv_def sched_moves_def sched by simp
qed

lemma expired_claims_active:
  assumes "occurrences_ok cal sha (mm_occurrences s)"
  shows "set (expired_claims s now) \<subseteq> active_rows s"
proof
  fix oc
  assume "oc \<in> set (expired_claims s now)"
  then have oc: "oc \<in> set (hm_values (mm_occurrences s))" "oc_state oc \<in> {OccClaimed, OccRunLinked}"
    by (auto simp: expired_claims_def)
  with assms obtain i where i: "hm_get (mm_occurrences s) i = Some oc"
    by (auto simp: occurrences_ok_def hm_values_iff)
  with assms have "oc_id oc = i" by (simp add: occurrences_ok_def)
  with i oc(2) show "oc \<in> active_rows s" by (auto simp: active_rows_def)
qed

lemma distinct_rows:
  assumes "occurrences_ok cal sha m"
  shows "distinct (hm_values m)"
proof -
  have "map oc_id (hm_values m) = map fst m"
    unfolding hm_values_def map_map
  proof (rule map_cong [OF refl])
    fix p assume "p \<in> set m"
    with occurrences_ok_wf [OF assms] have "hm_get m (fst p) = Some (snd p)" by (rule hm_get_member)
    then show "(oc_id \<circ> snd) p = fst p" using occurrences_ok_row [OF assms] by simp
  qed
  then have "distinct (map oc_id (hm_values m))" using occurrences_ok_wf [OF assms] by (simp add: hm_wf_def)
  then show ?thesis by (simp add: distinct_map)
qed

lemma expired_claims_distinct:
  assumes "occurrences_ok cal sha (mm_occurrences s)"
  shows "distinct (expired_claims s now)"
  using distinct_rows [OF assms] by (simp add: expired_claims_def)

lemma recover_Inr:
  assumes op: "mem_recover_automation_occurrence_claims cal sha s token now limit = Inr (x, s')"
    and inv: "sched_inv cal sha s"
  obtains r where "s' = apply_recovery r s"
    "rows_staged s (set (take limit (expired_claims s now))) r"
    "runs_staged s now (set (take limit (expired_claims s now))) r"
    "\<And>oc. oc \<in> set (take limit (expired_claims s now)) \<Longrightarrow>
       \<exists>r1 r2. recover_one cal sha s now r1 oc = Inr r2 \<and> staged_kept r2 r"
proof -
  note parts = sched_inv_parts [OF inv]
  let ?start = "\<lparr>rc_occurrences = [], rc_attempts = [], rc_runs = [], rc_run_events = [],
                  rc_summary = \<lparr>rs_released_unlinked = 0, rs_interrupted_linked = 0,
                                rs_attempts_exhausted = 0, rs_resumable_bound_queued = 0,
                                rs_truncated = limit < length (expired_claims s now)\<rparr>\<rparr>"
  let ?ocs = "take limit (expired_claims s now)"
  from op obtain r where r: "result_fold (recover_one cal sha s now) ?start ?ocs = Inr r"
    and s': "s' = apply_recovery r s"
    unfolding mem_recover_automation_occurrence_claims_def and_then_Inr Let_def by blast
  have "set ?ocs \<subseteq> active_rows s"
    using expired_claims_active [OF parts(4)] set_take_subset by (rule order.trans [rotated])
  moreover have "rows_staged s {} ?start" "runs_staged s now {} ?start"
    by (simp_all add: rows_staged_def runs_staged_def)
  ultimately show thesis
    using recover_fold [OF r inv, of "{}"] expired_claims_distinct [OF parts(4)] s' by (intro that [of r]) auto
qed

lemma recover_keeps:
  assumes "mem_recover_automation_occurrence_claims cal sha s token now limit = Inr (x, s')"
    and "sched_inv cal sha s"
  shows "sched_inv cal sha s' \<and> sched_moves s s'"
  using assms(1,2)
proof (rule recover_Inr)
  fix r
  assume "s' = apply_recovery r s" and "rows_staged s (set (take limit (expired_claims s now))) r"
    "runs_staged s now (set (take limit (expired_claims s now))) r"
  then show ?thesis using apply_recovery_keeps [OF assms(2)] by blast
qed

lemma apply_recovery_occurrences:
  "mm_occurrences (apply_recovery r s) = hm_inserts (rc_occurrences r) (mm_occurrences s)"
  by (simp add: apply_recovery_def)

end
