(* ===== verification/SchedulerCommit.thy ===== *)
theory SchedulerCommit
  imports SchedulerRecovery
begin

text \<open>
  The commit of a schedule evaluation keeps the journal's invariant: the staging loop counts the
  active and queued occurrences of the automation, so that at most one of each is stored.
\<close>

section \<open>The staging loop\<close>

definition rows_of :: "mem_state \<Rightarrow> automation_id \<Rightarrow> automation_occurrence list" where
  "rows_of s aid = filter (\<lambda>oc. oc_automation_id oc = aid) (hm_values (mm_occurrences s))"

definition staged_ok ::
  "('d, 'z) calendar \<Rightarrow> sha256 \<Rightarrow> mem_state \<Rightarrow> automation_id \<Rightarrow> automation_occurrence \<Rightarrow> bool" where
  "staged_ok cal sha s aid oc \<longleftrightarrow>
     occurrence_inv cal sha oc \<and> oc_automation_id oc = aid \<and> oc_claim_attempt_count oc = 0 \<and>
     oc_run_id oc = None \<and> oc_state oc \<notin> {OccClaimed, OccRunLinked} \<and>
     hm_get (mm_occurrences s) (oc_id oc) = None \<and>
     (\<forall>stored \<in> set (rows_of s aid). occurrence_slot stored \<noteq> occurrence_slot oc)"

definition staging_ok ::
  "('d, 'z) calendar \<Rightarrow> sha256 \<Rightarrow> mem_state \<Rightarrow> automation_id \<Rightarrow> staging \<Rightarrow> bool" where
  "staging_ok cal sha s aid g \<longleftrightarrow>
     sg_active g = length (filter is_active (rows_of s aid @ sg_staged g)) \<and> sg_active g \<le> 1 \<and>
     sg_queued g = length (filter is_queued (rows_of s aid @ sg_staged g)) \<and> sg_queued g \<le> 1 \<and>
     (\<forall>oc \<in> set (sg_staged g). staged_ok cal sha s aid oc) \<and>
     sg_slots g = rev (map occurrence_slot (sg_staged g)) \<and> distinct (sg_slots g)"

lemma adjudicate_overlap_Inr:
  assumes "adjudicate_overlap now g oc = Inr (oc', active, queued)"
    and "oc_state oc \<in> {OccPending, OccSkippedInvalidLocalTime, OccSkippedMissed}"
    and "sg_active g \<le> 1" "sg_queued g \<le> 1"
  shows "occurrence_step\<^sup>*\<^sup>* oc oc'" "oc_claim_attempt_count oc' = oc_claim_attempt_count oc"
    "oc_run_id oc' = oc_run_id oc" "oc_state oc' \<notin> {OccClaimed, OccRunLinked}"
    "active = sg_active g + (if is_active oc' then 1 else 0)" "active \<le> 1"
    "queued = sg_queued g + (if is_queued oc' then 1 else 0)" "queued \<le> 1"
proof -
  have queue: "occurrence_queue_overlap oc now = occurrence_apply OpQueueOverlap oc now"
    and skip: "occurrence_skip_overlap oc now = occurrence_apply OpSkipOverlap oc now" by simp_all
  show "occurrence_step\<^sup>*\<^sup>* oc oc'"
    using assms(1) unfolding adjudicate_overlap_def queue skip
    by (auto simp: map_ok_Inr map_err_Inr simp del: occurrence_apply.simps split: if_splits
        intro: occurrence_step.apply_op)
qed (use assms in \<open>auto simp: adjudicate_overlap_def occurrence_ops result_simps split: if_splits\<close>)

lemma stage_occurrence_ok:
  assumes step: "stage_occurrence cal sha s a snapshot cursor now slots g oc = Inr g'"
    and ok: "staging_ok cal sha s (au_id a) g"
  shows "staging_ok cal sha s (au_id a) g'"
proof -
  from step obtain y where
    new: "validate_new_automation_occurrence cal sha oc a snapshot cursor now = Inr ()"
    and guard: "\<not> ((case sg_prior_local g of
             None \<Rightarrow> False
           | Some prior \<Rightarrow> local_order_key (oc_nominal_local oc) \<le> local_order_key prior) \<or>
          oc_nominal_local oc \<notin> set slots \<or> occurrence_slot oc \<in> set (sg_slots g) \<or>
          hm_contains (mm_occurrences s) (oc_id oc) \<or>
          list_ex (\<lambda>stored. oc_automation_id stored = oc_automation_id oc \<and>
                            occurrence_slot stored = occurrence_slot oc)
            (hm_values (mm_occurrences s)))"
    and adj: "adjudicate_overlap now g oc = Inr y"
    and g': "g' = \<lparr>sg_active = fst (snd y), sg_queued = snd (snd y), sg_prior_local = Some (oc_nominal_local oc),
          sg_slots = occurrence_slot oc # sg_slots g, sg_staged = sg_staged g @ [fst y]\<rparr>"
    unfolding stage_occurrence_def and_then_Inr fail_if_Inr split_beta by auto
  obtain oc' active queued where y: "y = (oc', active, queued)" by (cases y)
  have init: "oc_state oc \<in> {OccPending, OccSkippedInvalidLocalTime, OccSkippedMissed}"
    "is_ok (occurrence_restore cal sha oc)" "oc_automation_id oc = au_id a" "oc_claim_attempt_count oc = 0"
    using new by (auto simp: validate_new_automation_occurrence_def valid_initial_state_def result_simps
        split: automation_occurrence_state.splits)
  have inv: "occurrence_inv cal sha oc" using init(1,2) by (auto simp: occurrence_inv_def)
  have run: "oc_run_id oc = None"
    using init(1,2) by (auto simp: occurrence_restore_ok occurrence_shape_ok_def occurrence_lifecycle_shape_def)
  note adj = adjudicate_overlap_Inr [OF adj [unfolded y] init(1)]
  have le: "sg_active g \<le> 1" "sg_queued g \<le> 1" using ok by (simp_all add: staging_ok_def)
  note f = occurrence_steps_fields [OF adj(1) [OF le]]
  have "staged_ok cal sha s (au_id a) oc'"
    using adj(2-4) [OF le] f init(3,4) run guard occurrence_steps_inv [OF adj(1) [OF le] inv]
    by (auto simp: staged_ok_def hm_contains_def list_ex_iff rows_of_def)
  moreover have "occurrence_slot oc \<notin> set (sg_slots g)" using guard by blast
  moreover have "distinct (map occurrence_slot (sg_staged g))"
    using ok unfolding staging_ok_def by (metis distinct_rev)
  ultimately show ?thesis
    using ok adj(5-8) [OF le] f(4) unfolding staging_ok_def g' y by simp
qed

lemma staging_fold:
  assumes "result_fold (stage_occurrence cal sha s a snapshot cursor now slots) g ocs = Inr g'"
    and "staging_ok cal sha s (au_id a) g"
  shows "staging_ok cal sha s (au_id a) g'"
  using assms
proof (induction ocs arbitrary: g)
  case (Cons oc ocs)
  then show ?case unfolding result_fold.simps and_then_Inr by (blast intro: stage_occurrence_ok)
qed simp

lemma count_overlap_Inr:
  "count_overlap cal sha c oc = Inr c' \<Longrightarrow>
   c' = (fst c + (if is_active oc then 1 else 0), snd c + (if is_queued oc then 1 else 0))"
  by (auto simp: count_overlap_def and_then_Inr split: if_splits)

lemma count_overlap_fold:
  assumes "result_fold (count_overlap cal sha) (a, q) ocs = Inr (a', q')"
  shows "a' = a + length (filter is_active ocs) \<and> q' = q + length (filter is_queued ocs)"
  using assms
proof (induction ocs arbitrary: a q)
  case (Cons oc ocs)
  from Cons.prems obtain c where "count_overlap cal sha (a, q) oc = Inr c"
    and "result_fold (count_overlap cal sha) c ocs = Inr (a', q')"
    unfolding result_fold.simps and_then_Inr by blast
  with Cons.IH [of "fst c" "snd c"] show ?case by (auto dest!: count_overlap_Inr split: if_splits)
qed simp

lemma overlap_counts_Inr:
  assumes "overlap_counts cal sha s aid = Inr (active, queued)"
  shows "active = length (filter is_active (rows_of s aid))" "queued = length (filter is_queued (rows_of s aid))"
    "active \<le> 1" "queued \<le> 1" "active = 0 \<Longrightarrow> queued = 0"
proof -
  from assms obtain x where "result_fold (count_overlap cal sha) (0, 0) (rows_of s aid) = Inr x"
    "x = (active, queued)" "\<not> (1 < active \<or> 1 < queued \<or> (active = 0 \<and> queued \<noteq> 0))"
    unfolding overlap_counts_def rows_of_def and_then_Inr fail_if_Inr split_beta by auto
  with count_overlap_fold [of cal sha 0 0 "rows_of s aid" active queued]
  show "active = length (filter is_active (rows_of s aid))" "queued = length (filter is_queued (rows_of s aid))"
    "active \<le> 1" "queued \<le> 1" "active = 0 \<Longrightarrow> queued = 0" by auto
qed

section \<open>Storing the staged rows\<close>

abbreviation put_rows :: "automation_occurrence list \<Rightarrow> occurrence_map \<Rightarrow> occurrence_map" where
  "put_rows ocs m \<equiv> fold (\<lambda>oc. hm_insert (oc_id oc) oc) ocs m"

lemma put_rows_get: "hm_get (put_rows ocs m) i = Some a \<Longrightarrow> a \<in> set ocs \<and> oc_id a = i \<or> hm_get m i = Some a"
proof (induction ocs arbitrary: m)
  case (Cons oc ocs)
  then show ?case by (fastforce split: if_splits)
qed simp

lemma put_rows_keep: "\<forall>oc \<in> set ocs. oc_id oc \<noteq> i \<Longrightarrow> hm_get (put_rows ocs m) i = hm_get m i"
  by (induction ocs arbitrary: m) auto

lemma hm_wf_put_rows: "hm_wf m \<Longrightarrow> hm_wf (put_rows ocs m)"
  by (induction ocs arbitrary: m) auto

lemma put_rows_sched [simp]:
  "fold (\<lambda>oc. mm_sched_update (sc_occurrences_update (hm_insert (oc_id oc) oc))) ocs s =
     mm_sched_update (sc_occurrences_update (put_rows ocs)) s"
  by (induction ocs arbitrary: s) (simp_all add: comp_def)

lemma single_filter:
  assumes "length (filter P xs) \<le> 1" "a \<in> set xs" "b \<in> set xs" "P a" "P b"
  shows "a = b"
proof -
  have "a \<in> set (filter P xs)" "b \<in> set (filter P xs)" using assms by simp_all
  with assms(1) show ?thesis by (cases "filter P xs") auto
qed

lemma unique_by_extend:
  assumes R: "unique_by R m" "\<And>a b. R a b \<Longrightarrow> oc_automation_id a = oc_automation_id b"
    and ids: "\<And>i a. hm_get m i = Some a \<Longrightarrow> oc_id a = i"
    and row: "\<And>i a. hm_get m' i = Some a \<Longrightarrow> oc_id a = i \<and> Q a"
    and mem: "\<And>i a. hm_get m' i = Some a \<Longrightarrow> oc_automation_id a = aid \<Longrightarrow> a \<in> X"
    and other: "\<And>i a. hm_get m' i = Some a \<Longrightarrow> oc_automation_id a \<noteq> aid \<Longrightarrow> hm_get m i = Some a"
    and inj: "\<And>a b. a \<in> X \<Longrightarrow> b \<in> X \<Longrightarrow> R a b \<Longrightarrow> (\<exists>i j. hm_get m i = Some a \<and> hm_get m j = Some b) \<or> a = b"
  shows "unique_by R m'"
proof -
  have "i = j" if a: "hm_get m' i = Some a" and b: "hm_get m' j = Some b" and r: "R a b" for i j a b
  proof (cases "oc_automation_id a = aid")
    case True
    then have "oc_automation_id b = aid" using R(2) [OF r] by simp
    from inj [OF mem [OF a True] mem [OF b this] r] show ?thesis
    proof
      assume "\<exists>i j. hm_get m i = Some a \<and> hm_get m j = Some b"
      then obtain i' j' where ij: "hm_get m i' = Some a" "hm_get m j' = Some b" by blast
      from unique_byD [OF R(1) ij r] ids [OF ij(1)] ids [OF ij(2)] row [OF a] row [OF b] show ?thesis by simp
    qed (use row [OF a] row [OF b] in simp)
  next
    case False
    then show ?thesis using unique_byD [OF R(1) other [OF a False] other [OF b] r] R(2) [OF r] by simp
  qed
  then show ?thesis unfolding unique_by_def by blast
qed

lemma committed_rows:
  assumes ok: "staging_ok cal sha s aid g" and occ: "occurrences_ok cal sha (mm_occurrences s)"
  shows "occurrences_ok cal sha (put_rows (sg_staged g) (mm_occurrences s))" (is "occurrences_ok _ _ ?m'")
proof -
  let ?m = "mm_occurrences s" and ?xs = "rows_of s aid @ sg_staged g"
  have wf: "hm_wf ?m" using occ by (simp add: occurrences_ok_def)
  have ids: "oc_id a = i" if "hm_get ?m i = Some a" for i a
    using occ that unfolding occurrences_ok_def by blast
  have st: "staged_ok cal sha s aid oc" if "oc \<in> set (sg_staged g)" for oc
    using ok that unfolding staging_ok_def by blast
  have stored: "a \<in> set (rows_of s aid)" if "hm_get ?m i = Some a" "oc_automation_id a = aid" for i a
    using that hm_values_iff [OF wf, of a] by (auto simp: rows_of_def)
  have row: "oc_id a = i \<and> occurrence_inv cal sha a" if a: "hm_get ?m' i = Some a" for i a
    using put_rows_get [OF a] st [of a] occ unfolding staged_ok_def occurrences_ok_def by blast
  have mem: "a \<in> set ?xs" if a: "hm_get ?m' i = Some a" and aid: "oc_automation_id a = aid" for i a
    using put_rows_get [OF a] stored [OF _ aid] by auto
  have other: "hm_get ?m i = Some a" if a: "hm_get ?m' i = Some a" and aid: "oc_automation_id a \<noteq> aid" for i a
    using put_rows_get [OF a] st [of a] aid unfolding staged_ok_def by blast
  have uniq: "unique_by R ?m'" if "unique_by R ?m" "\<And>a b. R a b \<Longrightarrow> oc_automation_id a = oc_automation_id b"
      and "\<And>a b. a \<in> set ?xs \<Longrightarrow> b \<in> set ?xs \<Longrightarrow> R a b \<Longrightarrow>
        (\<exists>i j. hm_get ?m i = Some a \<and> hm_get ?m j = Some b) \<or> a = b" for R
    by (rule unique_by_extend [OF that(1,2) ids row mem other that(3)])
  have "unique_by both_active ?m'"
  proof (rule uniq)
    show "unique_by both_active ?m" using occ unfolding occurrences_ok_def by (elim conjE)
    show "oc_automation_id a = oc_automation_id b" if "both_active a b" for a b
      using that by (simp add: both_active_def)
    show "(\<exists>i j. hm_get ?m i = Some a \<and> hm_get ?m j = Some b) \<or> a = b"
      if "a \<in> set ?xs" "b \<in> set ?xs" "both_active a b" for a b
      using single_filter [of is_active ?xs a b] ok that by (simp add: both_active_def staging_ok_def)
  qed
  moreover have "unique_by both_queued ?m'"
  proof (rule uniq)
    show "unique_by both_queued ?m" using occ unfolding occurrences_ok_def by (elim conjE)
    show "oc_automation_id a = oc_automation_id b" if "both_queued a b" for a b
      using that by (simp add: both_queued_def)
    show "(\<exists>i j. hm_get ?m i = Some a \<and> hm_get ?m j = Some b) \<or> a = b"
      if "a \<in> set ?xs" "b \<in> set ?xs" "both_queued a b" for a b
      using single_filter [of is_queued ?xs a b] ok that by (simp add: both_queued_def staging_ok_def)
  qed
  moreover have "unique_by same_slot ?m'"
  proof (rule uniq)
    show "unique_by same_slot ?m" using occ unfolding occurrences_ok_def by (elim conjE)
    show "oc_automation_id a = oc_automation_id b" if "same_slot a b" for a b
      using that by (simp add: same_slot_def)
    show "(\<exists>i j. hm_get ?m i = Some a \<and> hm_get ?m j = Some b) \<or> a = b"
      if ab: "a \<in> set ?xs" "b \<in> set ?xs" "same_slot a b" for a b
    proof -
      have inj: "inj_on occurrence_slot (set (sg_staged g))"
        using ok unfolding staging_ok_def by (metis distinct_map distinct_rev)
      have slot: "occurrence_slot a = occurrence_slot b" using ab(3) by (simp add: same_slot_def)
      consider "a \<in> set (rows_of s aid)" "b \<in> set (rows_of s aid)" | "a \<in> set (sg_staged g)" "b \<in> set (sg_staged g)"
        using ab(1,2) slot st unfolding staged_ok_def by fastforce
      then show ?thesis
      proof cases
        case 1
        then have "\<exists>i. hm_get ?m i = Some a" "\<exists>j. hm_get ?m j = Some b"
          using hm_values_iff [OF wf] by (simp_all add: rows_of_def)
        then show ?thesis by blast
      qed (use inj slot in \<open>blast dest: inj_onD\<close>)
    qed
  qed
  ultimately show ?thesis using row hm_wf_put_rows [OF wf] unfolding occurrences_ok_def by blast
qed

lemma committed_attempts:
  assumes ok: "attempts_ok m am" and keep: "\<And>i b. hm_get m i = Some b \<Longrightarrow> hm_get m' i = Some b"
    and row: "\<And>i b. hm_get m' i = Some b \<Longrightarrow> hm_get m i = Some b \<or> staged_ok cal sha s aid b \<and> hm_get m i = None"
  shows "attempts_ok m' am"
proof -
  have "hm_get am i = None" if "hm_get m' i = None" for i
    using ok keep [of i] that unfolding attempts_ok_def by (metis not_None_eq)
  moreover have "attempts_inv b (attempts_of am i)" if b: "hm_get m' i = Some b" for i b
    using row [OF b]
  proof
    assume "staged_ok cal sha s aid b \<and> hm_get m i = None"
    moreover from this have "hm_get am i = None" using ok unfolding attempts_ok_def by blast
    ultimately show ?thesis by (simp add: attempts_inv_def attempts_of_def staged_ok_def)
  qed (rule attempts_okD [OF ok])
  ultimately show ?thesis unfolding attempts_ok_def by blast
qed

lemma committed_links:
  assumes ok: "links_ok rs m"
    and row: "\<And>i b. hm_get m' i = Some b \<Longrightarrow> hm_get m i = Some b \<or> staged_ok cal sha s aid b \<and> hm_get m i = None"
  shows "links_ok rs m'"
proof -
  have linked: "hm_get m i = Some b" if b: "hm_get m' i = Some b" "oc_run_id b \<noteq> None" for i b
    using row [OF b(1)] b(2) unfolding staged_ok_def by blast
  have "hm_get rs r \<noteq> None" if "hm_get m' i = Some oc" "oc_run_id oc = Some r" for i oc r
    using ok linked [OF that(1)] that(2) unfolding links_ok_def by (metis option.distinct(1))
  moreover have "unique_by same_run m" using ok unfolding links_ok_def by (elim conjE)
  then have "i = j" if "hm_get m' i = Some b" "hm_get m' j = Some c" "same_run b c" for i j b c
    using unique_byD [of same_run m i b j c] linked that unfolding same_run_def by metis
  ultimately show ?thesis unfolding links_ok_def unique_by_def by blast
qed

lemma counted_not_stranded:
  assumes "overlap_counts cal sha s aid = Inr c" "occurrences_ok cal sha' (mm_occurrences s)"
  shows "\<not> stranded (mm_occurrences s) aid"
proof
  assume st: "stranded (mm_occurrences s) aid"
  obtain active queued where c: "c = (active, queued)" by (cases c)
  note n = overlap_counts_Inr [OF assms(1) [unfolded c]]
  have rows: "oc \<in> set (rows_of s aid) \<longleftrightarrow> oc_automation_id oc = aid \<and> (\<exists>i. hm_get (mm_occurrences s) i = Some oc)" for oc
    using hm_values_iff [OF occurrences_ok_wf [OF assms(2)], of oc] by (auto simp: rows_of_def)
  from st obtain i q where "hm_get (mm_occurrences s) i = Some q" "oc_automation_id q = aid" "is_queued q"
    unfolding stranded_def by blast
  then have "q \<in> set (filter is_queued (rows_of s aid))" using rows [of q] by auto
  then have "queued \<noteq> 0" unfolding n(2) by (cases "filter is_queued (rows_of s aid)") auto
  moreover have "filter is_active (rows_of s aid) = []"
    using st rows unfolding stranded_def filter_empty_conv by blast
  then have "active = 0" unfolding n(1) by simp
  ultimately show False using n(5) by simp
qed

lemma staged_fresh: "staged_ok cal sha s aid oc \<Longrightarrow> hm_get (mm_occurrences s) (oc_id oc) = None"
  by (simp add: staged_ok_def)

lemma commit_Inr:
  assumes "mem_commit_automation_schedule_evaluation cal sha s ev = Inr (x, s')"
  obtains "s' = s"
  | a snapshot slots c g history where
    "automation_schedule_cursor_is_valid cal (ve_cursor ev) snapshot"
    "overlap_counts cal sha s (au_id a) = Inr c"
    "result_fold (stage_occurrence cal sha s a snapshot (ve_cursor ev) (ve_observed_at ev) slots)
       \<lparr>sg_active = fst c, sg_queued = snd c, sg_prior_local = None, sg_slots = [], sg_staged = []\<rparr>
       (ve_occurrences ev) = Inr g"
    "x = \<lparr>vr_cursor = ve_cursor ev, vr_occurrences = sg_staged g\<rparr>"
    "s' = commit_evaluation_state s a ev (sg_staged g) history x"
proof (cases "hm_get (sc_evaluation_commands (mm_sched s)) (mc_scope (ve_command ev), mc_key (ve_command ev))")
  case (Some er)
  with assms have "s' = s"
    unfolding mem_commit_automation_schedule_evaluation_def and_then_Inr by (auto split: if_splits)
  then show thesis by (rule that(1))
next
  case None
  from assms show thesis
    unfolding mem_commit_automation_schedule_evaluation_def and_then_Inr None option.case Let_def split_beta
      fail_if_Inr sum.inject prod.inject not_not
    using that(2) by blast
qed

lemma commit_keeps:
  assumes op: "mem_commit_automation_schedule_evaluation cal sha s ev = Inr (x, s')" and inv: "sched_inv cal sha s"
  shows "sched_inv cal sha s' \<and> sched_moves s s'"
  using op
proof (rule commit_Inr)
  fix a snapshot slots c g history
  assume cursor: "automation_schedule_cursor_is_valid cal (ve_cursor ev) snapshot"
    and counts: "overlap_counts cal sha s (au_id a) = Inr c"
    and fold: "result_fold (stage_occurrence cal sha s a snapshot (ve_cursor ev) (ve_observed_at ev) slots)
       \<lparr>sg_active = fst c, sg_queued = snd c, sg_prior_local = None, sg_slots = [], sg_staged = []\<rparr>
       (ve_occurrences ev) = Inr g"
    and s': "s' = commit_evaluation_state s a ev (sg_staged g) history x"
  let ?m = "mm_occurrences s" and ?m' = "put_rows (sg_staged g) (mm_occurrences s)"
  note parts = sched_inv_parts [OF inv]
  obtain active queued where c: "c = (active, queued)" by (cases c)
  have "staging_ok cal sha s (au_id a)
      \<lparr>sg_active = fst c, sg_queued = snd c, sg_prior_local = None, sg_slots = [], sg_staged = []\<rparr>"
    using overlap_counts_Inr [OF counts [unfolded c]] by (simp add: c staging_ok_def)
  then have ok: "staging_ok cal sha s (au_id a) g" by (rule staging_fold [OF fold])
  have st: "staged_ok cal sha s (au_id a) oc" if "oc \<in> set (sg_staged g)" for oc
    using ok that unfolding staging_ok_def by blast
  have keep: "hm_get ?m' i = Some b" if b: "hm_get ?m i = Some b" for i b
    using put_rows_keep [of "sg_staged g" i ?m] st b unfolding staged_ok_def by fastforce
  have row: "hm_get ?m i = Some b \<or> staged_ok cal sha s (au_id a) b \<and> hm_get ?m i = None"
    if b: "hm_get ?m' i = Some b" for i b
    using put_rows_get [OF b] st [of b] staged_fresh [of cal sha s "au_id a" b] by auto
  have grow: "occurrences_grow ?m ?m' (au_id a)"
    using keep row counted_not_stranded [OF counts parts(4)] unfolding occurrences_grow_def staged_ok_def by blast
  have "attempts_ok ?m' (sc_claim_attempts (mm_sched s))" by (rule committed_attempts [OF parts(5) keep row])
  moreover have "dispatches_ok ?m' (mm_dispatches s)"
    by (rule dispatches_ok_move [OF parts(6,4) occurrences_grow_evolve [OF grow]])
  moreover have "links_ok (mm_runs s) ?m'" by (rule committed_links [OF parts(7) row])
  moreover have "cursors_ok cal (hm_insert (au_id a) (ve_cursor ev) (sc_cursors (mm_sched s)))"
    using parts(3) cursor by (simp add: cursors_ok_def automation_schedule_cursor_is_valid_def)
  ultimately show ?thesis
    using parts committed_rows [OF ok parts(4)] grow
    by (simp add: s' commit_evaluation_state_def Let_def sched_inv_def sched_moves_def) blast
qed (use inv in simp)

end
