(* ===== verification/SchedulerProperties.thy ===== *)
theory SchedulerProperties
  imports SchedulerCommit ExecutionProperties
begin

text \<open>
  What holds of the scheduler journal in every reachable state. A step is one accepted store
  operation of the scheduler, or any change other use cases make to runs and workspace entities.
  The initial state is any state that satisfies the journal's invariant; the empty store does.
\<close>

section \<open>Steps of the journal\<close>

inductive sched_step :: "('d, 'z) calendar \<Rightarrow> sha256 \<Rightarrow> mem_state \<Rightarrow> mem_state \<Rightarrow> bool"
  for cal :: "('d, 'z) calendar" and sha :: sha256 where
  acquire: "mem_acquire_automation_scheduler_lease s owner now ttl = Inr (x, s') \<Longrightarrow> sched_step cal sha s s'"
| commit: "mem_commit_automation_schedule_evaluation cal sha s ev = Inr (r, s') \<Longrightarrow> sched_step cal sha s s'"
| claim: "mem_claim_automation_occurrence cal sha s claim = Inr (oc, s') \<Longrightarrow> sched_step cal sha s s'"
| bind: "mem_claim_and_bind_automation_occurrence cal sha s d = Inr (b, s') \<Longrightarrow> run_init (di_run d) \<Longrightarrow>
    sched_step cal sha s s'"
| link: "mem_link_automation_occurrence_run s token i erev rid now = Inr (oc, s') \<Longrightarrow>
    unlinked (mm_occurrences s) rid \<Longrightarrow> sched_step cal sha s s'"
| begin_run: "mem_begin_automation_occurrence_run s i erev rid rrev now = Inr (b, s') \<Longrightarrow> sched_step cal sha s s'"
| complete: "mem_complete_automation_occurrence_run s i erev rid k now = Inr (oc, s') \<Longrightarrow> sched_step cal sha s s'"
| recover: "mem_recover_automation_occurrence_claims cal sha s token now limit = Inr (y, s') \<Longrightarrow>
    sched_step cal sha s s'"
| others: "mm_sched s' = mm_sched s \<Longrightarrow> exec_inv (mm_exec s') \<Longrightarrow>
    rows_evolve run_step (mm_runs s) (mm_runs s') \<Longrightarrow> sched_step cal sha s s'"

inductive_cases sched_stepE: "sched_step cal sha s s'"

abbreviation sched_steps :: "('d, 'z) calendar \<Rightarrow> sha256 \<Rightarrow> mem_state \<Rightarrow> mem_state \<Rightarrow> bool" where
  "sched_steps cal sha \<equiv> (sched_step cal sha)\<^sup>*\<^sup>*"

lemma sched_inv_empty: "sched_inv cal sha mem_empty"
  by (simp add: sched_inv_def mem_empty_def exec_inv_empty lease_ok_def cursors_ok_def occurrences_ok_def
      unique_by_def attempts_ok_def dispatches_ok_def links_ok_def)

lemma sched_step_keeps:
  assumes "sched_step cal sha s s'" "sched_inv cal sha s"
  shows "sched_inv cal sha s' \<and> sched_moves s s'"
  using assms
proof (cases rule: sched_step.cases)
  case others
  note parts = sched_inv_parts [OF assms(2)]
  have "links_ok (mm_runs s') (mm_occurrences s)" by (rule links_ok_runs [OF parts(7) others(3)])
  with others assms(2) show ?thesis by (simp add: sched_inv_def sched_moves_def)
qed (erule acquire_keeps commit_keeps claim_keeps bind_keeps link_keeps begin_keeps complete_keeps
    recover_keeps, assumption+)+

lemma sched_steps_keep:
  assumes "sched_steps cal sha s s'" "sched_inv cal sha s"
  shows "sched_inv cal sha s' \<and> sched_evolves s s'"
  using assms
proof (induction rule: rtranclp_induct)
  case (step t u)
  then show ?case using sched_step_keeps [OF step.hyps(2)] sched_moves_evolves sched_evolves_trans by blast
qed simp

section \<open>Overlap, slots and persisted rows\<close>


lemma stored_row_readable:
  assumes "sched_inv cal sha s" and "oc \<in> set (hm_values (mm_occurrences s))"
  shows "journal_restore cal sha oc = Inr oc"
    "validate_claim_attempt_sequence oc (occurrence_attempts s (oc_id oc)) = Inr ()"
proof -
  note parts = sched_inv_parts [OF assms(1)]
  obtain i where i: "hm_get (mm_occurrences s) i = Some oc"
    using assms(2) hm_values_iff [OF occurrences_ok_wf [OF parts(4)]] by blast
  show "journal_restore cal sha oc = Inr oc"
    "validate_claim_attempt_sequence oc (occurrence_attempts s (oc_id oc)) = Inr ()"
    using occurrences_ok_row [OF parts(4) i] attempts_inv_validates [OF attempts_okD [OF parts(5) i]]
    by (auto simp: journal_restore_Inr occurrence_inv_def occurrence_attempts_of)
qed

lemma stored_cursors_readable:
  assumes "cursors_ok cal cs"
  shows "\<exists>ys. result_map (\<lambda>c. map_err (\<lambda>_. e) (cursor_restore cal c)) (hm_values cs) = Inr ys"
proof (rule result_map_ok)
  fix c assume c: "c \<in> set (hm_values cs)"
  have "hm_wf cs" using assms unfolding cursors_ok_def by (rule conjunct1)
  from hm_values_iff [OF this, of c] c obtain i where "hm_get cs i = Some c" by blast
  with assms have "is_ok (cursor_restore cal c)" unfolding cursors_ok_def by blast
  then show "\<exists>y. map_err (\<lambda>_. e) (cursor_restore cal c) = Inr y" unfolding is_ok_iff map_err_Inr .
qed

lemma stored_lease_readable:
  assumes "lease_ok lease"
  shows "\<exists>l. (case lease of None \<Rightarrow> Inr None | Some l \<Rightarrow> map_ok Some (map_err (\<lambda>_. e) (lease_restore l))) = Inr l"
proof (cases lease)
  case (Some l)
  then have "is_ok (lease_restore l)" using assms by (simp add: lease_ok_def)
  then obtain l' where "lease_restore l = Inr l'" unfolding is_ok_iff by blast
  then show ?thesis unfolding Some by simp
qed simp

text \<open>C21. The journal can always be read: after any committed operations the status query finds every
  lease, cursor, occurrence and claim-attempt row valid and answers, as long as the cursors can be
  counted.\<close>

theorem journal_always_readable:
  assumes "sched_inv cal sha s0" and "sched_steps cal sha s0 s" and "length (sc_cursors (mm_sched s)) < 2 ^ 64"
  shows "\<exists>status. mem_automation_scheduler_journal_status cal sha s = Inr status"
proof -
  have inv: "sched_inv cal sha s" using sched_steps_keep [OF assms(2,1)] by (rule conjunct1)
  note parts = sched_inv_parts [OF inv]
  let ?e = invalid_automation_scheduler_journal
  obtain l where l: "(case sc_lease (mm_sched s) of None \<Rightarrow> Inr None
      | Some lease \<Rightarrow> map_ok Some (map_err (\<lambda>_. ?e) (lease_restore lease))) = Inr l"
    using stored_lease_readable [OF parts(2), of ?e] by (elim exE)
  obtain ys where ys: "result_map (\<lambda>c. map_err (\<lambda>_. ?e) (cursor_restore cal c)) (hm_values (sc_cursors (mm_sched s))) = Inr ys"
    using stored_cursors_readable [OF parts(3), of ?e] by (elim exE)
  obtain n where n: "u64_try_from (length (sc_cursors (mm_sched s))) = Some n"
    using assms(3) by (simp add: u64_try_from_def)
  show ?thesis
    unfolding mem_automation_scheduler_journal_status_def l ys n and_then_simps ok_or_simps
  proof (rule result_fold_ok)
    fix js oc
    assume oc: "oc \<in> set (hm_values (mm_occurrences s))"
    show "\<exists>js'. and_then (journal_restore cal sha oc) (\<lambda>_.
        and_then (validate_claim_attempt_sequence oc (occurrence_attempts s (oc_id oc))) (\<lambda>_.
        Inr (count_journal_state (oc_state oc) js))) = Inr js'"
      unfolding stored_row_readable [OF inv oc] and_then_simps by blast
  qed
qed

section \<open>A bound run is begun once\<close>

lemma run_steps_not_queued: "run_steps r r' \<Longrightarrow> run_state_of r \<noteq> Queued \<Longrightarrow> run_state_of r' \<noteq> Queued"
proof (induction rule: rtranclp_induct)
  case (step r' r'')
  then have "run_state_of r' \<noteq> Queued" by simp
  with step.hyps(2) show ?case
    by (cases "run_state_of r'") (auto elim!: run_stepE simp: run_transition_Inr)
qed simp

definition spent :: "mem_state \<Rightarrow> automation_occurrence_id \<Rightarrow> bool" where
  "spent s i \<longleftrightarrow> (\<exists>oc rid run. hm_get (mm_occurrences s) i = Some oc \<and> oc_run_id oc = Some rid \<and>
     hm_get (mm_runs s) rid = Some run \<and> run_state_of run \<noteq> Queued)"

lemma begin_spends:
  assumes "mem_begin_automation_occurrence_run s i erev rid rrev now = Inr (b, s')" and inv: "sched_inv cal sha s"
  shows "spent s' i"
  using assms(1)
proof (rule begin_Inr)
  fix bd oc run planning running
  assume oc: "hm_get (mm_occurrences s) i = Some oc" "oc_run_id oc = Some rid"
    and run: "hm_get (mm_runs s) rid = Some run"
    and t: "run_transition run Planning now = Inr planning" "run_transition planning Running now = Inr running"
    and s': "s' = mm_sched_update (sc_dispatches_update (hm_insert i (bd\<lparr>dr_run := running\<rparr>)))
        (put_run running [state_changed now (run_state_of run) Planning,
                          state_changed now (run_state_of planning) Running] s)"
  have "run_id_of run = rid" using run_id_stored [OF sched_inv_parts(1) [OF inv] run] .
  then have "run_id_of running = rid" "run_state_of running = Running"
    using t by (auto simp: run_transition_Inr)
  with oc show ?thesis by (simp add: spent_def s' put_run_def)
qed

lemma spent_stays:
  assumes "sched_steps cal sha s s'" "sched_inv cal sha s" "spent s i"
  shows "spent s' i"
proof -
  from assms(3) obtain oc rid run where oc: "hm_get (mm_occurrences s) i = Some oc" "oc_run_id oc = Some rid"
      "hm_get (mm_runs s) rid = Some run" "run_state_of run \<noteq> Queued"
    unfolding spent_def by blast
  have ev: "rows_evolve occurrence_step (mm_occurrences s) (mm_occurrences s')"
    "rows_evolve run_step (mm_runs s) (mm_runs s')"
    using sched_steps_keep [OF assms(1,2)] unfolding sched_evolves_def by blast+
  obtain oc' where oc': "hm_get (mm_occurrences s') i = Some oc'" "occurrence_step\<^sup>*\<^sup>* oc oc'"
    using ev(1) oc(1) unfolding rows_evolve_def by blast
  obtain run' where run': "hm_get (mm_runs s') rid = Some run'" "run_steps run run'"
    using ev(2) oc(3) unfolding rows_evolve_def by blast
  have "occurrence_inv cal sha oc" using occurrences_ok_row [OF sched_inv_parts(4) [OF assms(2)] oc(1)] by simp
  from occurrence_steps_run_id [OF oc'(2) this oc(2)] run_steps_not_queued [OF run'(2) oc(4)] oc'(1) run'(1)
  show ?thesis unfolding spent_def by blast
qed

lemma spent_refuses:
  assumes "spent s i"
  shows "\<exists>e. mem_begin_automation_occurrence_run s i erev rid rrev now = Inl e"
proof (rule ccontr)
  assume "\<not> ?thesis"
  then obtain b s' where "mem_begin_automation_occurrence_run s i erev rid rrev now = Inr (b, s')"
    by (cases "mem_begin_automation_occurrence_run s i erev rid rrev now") auto
  then show False by (rule begin_Inr) (use assms in \<open>auto simp: spent_def\<close>)
qed

text \<open>C4. The run bound to an occurrence is begun, and so handed to the guest, at most once: after one
  successful begin every later begin of the same occurrence is refused, whatever revisions and run
  are claimed and whatever other operations, recoveries included, were committed in between.\<close>

theorem occurrence_begun_at_most_once:
  assumes "sched_inv cal sha s0" and "sched_steps cal sha s0 s"
    and "mem_begin_automation_occurrence_run s i erev rid rrev now = Inr (b, s')"
    and "sched_steps cal sha s' t"
  shows "\<exists>e. mem_begin_automation_occurrence_run t i erev' rid' rrev' now' = Inl e"
proof -
  have inv: "sched_inv cal sha s" using sched_steps_keep [OF assms(2,1)] by (rule conjunct1)
  have "sched_inv cal sha s'" using begin_keeps [OF assms(3) inv] by (rule conjunct1)
  then show ?thesis by (rule spent_refuses [OF spent_stays [OF assms(4) _ begin_spends [OF assms(3) inv]]])
qed

section \<open>A queued occurrence that recovery leaves behind\<close>

lemma stranded_stays:
  assumes "sched_steps cal sha s s'" "sched_inv cal sha s" "stranded (mm_occurrences s) aid"
  shows "stranded (mm_occurrences s') aid"
  using assms
proof (induction rule: rtranclp_induct)
  case (step t u)
  then have "sched_inv cal sha t" using sched_steps_keep [OF step.hyps(1)] by blast
  then have "sched_moves t u" using sched_step_keeps [OF step.hyps(2)] by blast
  with step show ?case using stranded_moves by blast
qed

lemma stranded_refused:
  assumes "stranded (mm_occurrences s) aid" "sched_inv cal sha s"
  shows "overlap_counts cal sha s aid = Inl invalid_automation_scheduler_journal"
proof -
  have "\<exists>c. result_fold (count_overlap cal sha) (0, 0) (rows_of s aid) = Inr c"
  proof (rule result_fold_ok)
    fix c oc
    assume "oc \<in> set (rows_of s aid)"
    then have "journal_restore cal sha oc = Inr oc" using stored_row_readable(1) [OF assms(2)] by (simp add: rows_of_def)
    then show "\<exists>c'. count_overlap cal sha c oc = Inr c'" by (simp add: count_overlap_def)
  qed
  then obtain c where c: "result_fold (count_overlap cal sha) (0, 0) (rows_of s aid) = Inr c" by blast
  have "\<nexists>c. overlap_counts cal sha s aid = Inr c"
    using counted_not_stranded [OF _ sched_inv_parts(4) [OF assms(2)]] assms(1) by blast
  then show ?thesis
    using c unfolding overlap_counts_def rows_of_def [symmetric] c and_then_simps split_beta
    by (cases "1 < fst c \<or> 1 < snd c \<or> fst c = 0 \<and> snd c \<noteq> 0") (auto, (metis surj_pair)+)
qed

lemma recovery_strands:
  assumes inv: "sched_inv cal sha s"
    and op: "mem_recover_automation_occurrence_claims cal sha s token now limit = Inr (x, s')"
    and oc: "oc \<in> set (take limit (expired_claims s now))" "oc_state oc = OccRunLinked" "oc_run_id oc = Some rid"
    and run: "hm_get (mm_runs s) rid = Some run" "run_state_of run \<in> {Completed, Failed, Cancelled}"
    and q: "hm_get (mm_occurrences s) j = Some q" "is_queued q" "oc_automation_id q = oc_automation_id oc"
  shows "stranded (mm_occurrences s') (oc_automation_id oc)"
  using op inv
proof (rule recover_Inr)
  let ?ocs = "set (take limit (expired_claims s now))" and ?m = "mm_occurrences s"
  fix r
  assume s': "s' = apply_recovery r s" and rows: "rows_staged s ?ocs r"
    and each: "\<And>oc. oc \<in> ?ocs \<Longrightarrow> \<exists>r1 r2. recover_one cal sha s now r1 oc = Inr r2 \<and> staged_kept r2 r"
  note parts = sched_inv_parts [OF inv]
  have "oc \<in> active_rows s" using expired_claims_active [OF parts(4)] oc(1) set_take_subset by fast
  note a = active_rowsD [OF this]
  obtain oc' where oc': "hm_get (rc_occurrences r) (oc_id oc) = Some oc'"
      "oc_state oc' \<in> {OccSucceeded, OccFailed, OccCancelled}"
    using each [OF oc(1)] recover_one_settles [OF _ oc(2,3) run] unfolding staged_kept_def by blast
  have sole: "k = oc_id oc" if "hm_get ?m k = Some b" "is_active b" "oc_automation_id b = oc_automation_id oc" for k b
    using unique_byD [OF occurrences_ok_active [OF parts(4)] that(1) a(1)] that(2,3) a(2) by (simp add: both_active_def)
  have wf: "hm_wf (rc_occurrences r)" using rows by (simp add: rows_staged_def)
  note get = hm_get_inserts [OF wf, of ?m, folded apply_recovery_occurrences [of r s], folded s']
  have unsettled: "\<not> settled_in ?m (rc_occurrences r) (oc_automation_id oc)"
    using sole oc' unfolding settled_in_def by auto
  have idle: "\<not> is_active b'" if b': "hm_get (mm_occurrences s') k = Some b'" "oc_automation_id b' = oc_automation_id oc" for k b'
  proof (cases "hm_get (rc_occurrences r) k")
    case None
    with b' get have b: "hm_get ?m k = Some b'" by simp
    show ?thesis using sole [OF b _ b'(2)] None oc'(1) by auto
  next
    case (Some x)
    with b' get have x: "x = b'" by simp
    show ?thesis
    proof (rule rows_stagedD [OF rows Some])
      fix b assume b: "hm_get ?m k = Some b" and st: "staged_from ?m (rc_occurrences r) b x"
      have aid: "oc_automation_id b = oc_automation_id oc"
        using st b'(2) occurrence_steps_fields(2) [of b x] by (simp add: staged_from_def x)
      then show ?thesis using st sole [OF b _ aid] Some oc' unsettled unfolding staged_from_def x by auto
    qed
  qed
  moreover have "hm_get (mm_occurrences s') j = Some q"
  proof (cases "hm_get (rc_occurrences r) j")
    case (Some x)
    then show ?thesis
      by (rule rows_stagedD [OF rows]) (use q unsettled in \<open>auto simp: staged_from_def\<close>)
  qed (use q(1) in \<open>simp add: get\<close>)
  ultimately show ?thesis using q(2,3) unfolding stranded_def by blast
qed

text \<open>C22. Recovery can strand an automation (in-memory store): when a linked occurrence with an expired
  claim is recovered after its run was completed, failed or cancelled by another use case, the
  queued occurrence of its automation is not promoted. From then on, whatever is committed, the
  automation never has an active occurrence again and every evaluation of it is refused as an
  invalid journal.\<close>

theorem recovery_strands_queue:
  assumes inv: "sched_inv cal sha s"
    and op: "mem_recover_automation_occurrence_claims cal sha s token now limit = Inr (x, s')"
    and oc: "oc \<in> set (take limit (expired_claims s now))" "oc_state oc = OccRunLinked" "oc_run_id oc = Some rid"
    and run: "hm_get (mm_runs s) rid = Some run" "run_state_of run \<in> {Completed, Failed, Cancelled}"
    and q: "hm_get (mm_occurrences s) j = Some q" "is_queued q" "oc_automation_id q = oc_automation_id oc"
    and later: "sched_steps cal sha s' t"
  shows "(\<forall>k b. hm_get (mm_occurrences t) k = Some b \<longrightarrow> oc_automation_id b = oc_automation_id oc \<longrightarrow> \<not> is_active b) \<and>
    overlap_counts cal sha t (oc_automation_id oc) = Inl invalid_automation_scheduler_journal"
proof -
  note keep = recover_keeps [OF op inv]
  have "stranded (mm_occurrences s') (oc_automation_id oc)" by (rule recovery_strands [OF inv op oc run q])
  then have "stranded (mm_occurrences t) (oc_automation_id oc)" using stranded_stays [OF later] keep by blast
  moreover have "sched_inv cal sha t" using sched_steps_keep [OF later] keep by blast
  ultimately show ?thesis using stranded_refused unfolding stranded_def by blast
qed

section \<open>A concrete journal\<close>

text \<open>
  One automation with two mornings: the first is linked to a run that was cancelled by its user,
  the second is queued behind it.
\<close>

definition second_morning :: automation_schedule_decision where
  "second_morning = DecisionDue \<lparr>ld_year = 0, ld_month = 1, ld_day = 2, ld_hour = 9, ld_minute = 30\<rparr> 120600000"

definition sample_token :: automation_scheduler_lease_token where
  "sample_token = \<lparr>lt_owner_id = AutomationSchedulerOwnerId (lit ''w''), lt_fence = 1\<rparr>"

definition sample_linked :: automation_occurrence where
  "sample_linked = sample_occurrence\<lparr>oc_state := OccRunLinked,
     oc_claim := Some \<lparr>cm_owner_id = AutomationSchedulerOwnerId (lit ''w''), cm_fence = 1,
       cm_claimed_at = 120600000, cm_expires_at = 120610000\<rparr>,
     oc_run_id := Some (RunId (lit ''r'')), oc_claim_attempt_count := 1, oc_revision := 2,
     oc_updated_at := 120600001\<rparr>"

definition sample_next :: automation_occurrence where
  "sample_next = sample_occurrence\<lparr>oc_id := AutomationOccurrenceId (lit ''o2''),
     oc_nominal_local := decision_nominal_local second_morning, oc_scheduled_for := Some 120600000,
     oc_created_at := 120600002, oc_updated_at := 120600002\<rparr>"

definition sample_queued :: automation_occurrence where
  "sample_queued = sample_next\<lparr>oc_state := OccQueuedOverlap, oc_revision := 1\<rparr>"

definition sample_bound_run :: run where
  "sample_bound_run = run_queued_scheduled (RunId (lit ''r'')) (ProjectId (lit ''p'')) (ThreadId (lit ''t'')) 120600001"

definition sample_cancelled_run :: run where
  "sample_cancelled_run = sample_bound_run\<lparr>run_state_of := Cancelled, run_revision := 1, run_updated_at := 120600003\<rparr>"

definition sample_exec :: exec_state where
  "sample_exec =
     (let i = RunId (lit ''r'');
          e = append_events (es_runs_update (hm_insert i sample_bound_run) exec_empty) i
                [\<lparr>ne_occurred_at = 120600001, ne_kind = RunCreated\<rparr>]
      in append_events (es_runs_update (hm_insert i sample_cancelled_run) e) i
           [state_changed 120600003 Queued Cancelled])"

definition sample_journal :: mem_state where
  "sample_journal = mem_empty\<lparr>mm_exec := sample_exec,
     mm_sched := \<lparr>sc_lease = Some \<lparr>le_owner_id = AutomationSchedulerOwnerId (lit ''w''), le_fence = 1,
         le_acquired_at = 120600000, le_renewed_at = 120600000, le_expires_at = 120630000\<rparr>,
       sc_cursors = [], sc_evaluation_commands = [],
       sc_occurrences = [(AutomationOccurrenceId (lit ''o''), sample_linked),
                         (AutomationOccurrenceId (lit ''o2''), sample_queued)],
       sc_claim_attempts = [(AutomationOccurrenceId (lit ''o''),
         [\<lparr>ca_occurrence_id = AutomationOccurrenceId (lit ''o''), ca_sequence = 1,
           ca_owner_id = AutomationSchedulerOwnerId (lit ''w''), ca_fence = 1, ca_claimed_at = 120600000,
           ca_expires_at = 120610000, ca_completed_at = Some 120600001,
           ca_completion = Some CompletionRunLinked, ca_request_fingerprint = [1]\<rparr>])],
       sc_claim_commands = [], sc_dispatches = []\<rparr>\<rparr>"

lemma second_morning_decision:
  "decision_for_nominal plain_calendar (es_schedule sample_snapshot) (es_timezone sample_snapshot)
     (decision_nominal_local second_morning) = Inr second_morning"
  by (simp add: sample_snapshot_def second_morning_def decision_for_nominal_def local_to_naive_def
        plain_calendar_def and_hms_def morning_def schedule_matches_def parse_timezone_def
        positive_timestamp_def)

lemma pending_due:
  assumes "execution_snapshot_valid cal sha snapshot" "n \<noteq> 0"
    and "decision_for_nominal cal (es_schedule snapshot) (es_timezone snapshot) nominal = Inr (DecisionDue nominal at)"
  shows "occurrence_pending cal sha i aid snapshot (DecisionDue nominal at) n now =
    Inr \<lparr>oc_id = i, oc_automation_id = aid, oc_snapshot = snapshot, oc_nominal_local = nominal,
        oc_scheduled_for = Some at, oc_occurrence_count = n, oc_state = OccPending, oc_claim = None,
        oc_run_id = None, oc_claim_attempt_count = 0, oc_revision = 0, oc_created_at = now,
        oc_updated_at = now\<rparr>"
proof -
  have "is_ok (occurrence_pending cal sha i aid snapshot (DecisionDue nominal at) n now)"
    using materialize_decision [OF assms(1-3), of i aid now] by simp
  then obtain oc where oc: "occurrence_pending cal sha i aid snapshot (DecisionDue nominal at) n now = Inr oc"
    unfolding is_ok_iff by blast
  with pending_InrD [OF oc] show ?thesis by simp
qed

lemma sample_next_pending:
  "occurrence_pending plain_calendar (\<lambda>_. [7]) (AutomationOccurrenceId (lit ''o2''))
     (AutomationId (lit ''a'')) sample_snapshot
     (DecisionDue \<lparr>ld_year = 0, ld_month = 1, ld_day = 2, ld_hour = 9, ld_minute = 30\<rparr> 120600000) 1 120600002 =
   Inr sample_next"
  using second_morning_decision
  by (subst pending_due [OF sample_snapshot_valid]) (simp_all add: second_morning_def sample_next_def sample_occurrence_def)

lemma sample_linked_inv: "occurrence_inv plain_calendar (\<lambda>_. [7]) sample_linked"
proof -
  let ?c = "sample_occurrence\<lparr>oc_state := OccClaimed,
     oc_claim := Some \<lparr>cm_owner_id = AutomationSchedulerOwnerId (lit ''w''), cm_fence = 1,
       cm_claimed_at = 120600000, cm_expires_at = 120610000\<rparr>,
     oc_claim_attempt_count := 1, oc_revision := 1, oc_updated_at := 120600000\<rparr>"
  have c: "occurrence_apply (OpClaim sample_token 120610000) sample_occurrence 120600000 = Inr ?c"
    by (simp add: occurrence_ops sample_occurrence_def sample_token_def advance_revision_def checked_add_def
        max_automation_occurrence_claim_attempts_def max_automation_scheduler_lease_ms_def checked_sub_def)
  have l: "occurrence_apply (OpLinkRun sample_token (RunId (lit ''r''))) ?c 120600001 = Inr sample_linked"
    by (simp add: occurrence_ops sample_linked_def sample_occurrence_def sample_token_def advance_revision_def
        checked_add_def)
  show ?thesis
    using rtranclp.rtrancl_into_rtrancl [of occurrence_step, OF r_into_rtranclp [of occurrence_step, OF occurrence_step.apply_op [OF c]]
      occurrence_step.apply_op [OF l]]
    by (rule occurrence_steps_inv)
       (rule occurrence_rest.init_accepted [OF occurrence_fresh.pending [OF sample_occurrence_pending]])
qed

lemma sample_queued_inv: "occurrence_inv plain_calendar (\<lambda>_. [7]) sample_queued"
proof -
  have "occurrence_apply OpQueueOverlap sample_next 120600002 = Inr sample_queued"
    by (simp add: occurrence_ops sample_queued_def sample_next_def sample_occurrence_def sample_snapshot_def
        advance_revision_def checked_add_def)
  then have "occurrence_step\<^sup>*\<^sup>* sample_next sample_queued" by (blast intro: occurrence_step.apply_op)
  then show ?thesis
    by (rule occurrence_steps_inv)
       (rule occurrence_rest.init_accepted [OF occurrence_fresh.pending [OF sample_next_pending]])
qed

lemma sample_exec_inv: "exec_inv sample_exec" "hm_get (es_runs sample_exec) (RunId (lit ''r'')) = Some sample_cancelled_run"
proof -
  let ?i = "RunId (lit ''r'')" and ?ev = "\<lparr>ne_occurred_at = 120600001, ne_kind = RunCreated\<rparr>"
  let ?e = "append_events (es_runs_update (hm_insert ?i sample_bound_run) exec_empty) ?i [?ev]"
  have id: "run_id_of sample_bound_run = ?i" by (simp add: sample_bound_run_def run_queued_scheduled_def)
  have "run_init sample_bound_run" unfolding sample_bound_run_def by (rule run_init.scheduled)
  from exec_new_run [OF exec_inv_empty _ this, of ?ev] have e: "exec_inv ?e"
    by (simp add: id exec_empty_def)
  have "run_transition sample_bound_run Cancelled 120600003 = Inr sample_cancelled_run"
    by (simp add: sample_cancelled_run_def sample_bound_run_def run_queued_scheduled_def run_transition_def
        saturating_add_def checked_add_def)
  then have "run_steps sample_bound_run sample_cancelled_run" by (blast intro: run_step.transition)
  moreover have "hm_get (es_runs ?e) ?i = Some sample_bound_run" by (simp add: append_events_def)
  moreover have "run_state_of sample_bound_run = Queued" "run_state_of sample_cancelled_run = Cancelled"
    by (simp_all add: sample_cancelled_run_def sample_bound_run_def run_queued_scheduled_def)
  ultimately show "exec_inv sample_exec" unfolding sample_exec_def Let_def
    by (intro exec_put_run [OF e]) (simp_all add: state_changed_def)
  show "hm_get (es_runs sample_exec) ?i = Some sample_cancelled_run"
    by (simp add: sample_exec_def Let_def append_events_def)
qed

lemma sample_rows:
  "oc_id sample_linked = AutomationOccurrenceId (lit ''o'')" "oc_id sample_queued = AutomationOccurrenceId (lit ''o2'')"
  "oc_automation_id sample_linked = AutomationId (lit ''a'')" "oc_automation_id sample_queued = AutomationId (lit ''a'')"
  "oc_state sample_linked = OccRunLinked" "oc_state sample_queued = OccQueuedOverlap"
  "oc_run_id sample_linked = Some (RunId (lit ''r''))" "oc_run_id sample_queued = None"
  "oc_claim_attempt_count sample_linked = 1" "oc_claim_attempt_count sample_queued = 0"
  "occurrence_slot sample_linked \<noteq> occurrence_slot sample_queued"
  "oc_claim sample_linked = Some \<lparr>cm_owner_id = AutomationSchedulerOwnerId (lit ''w''), cm_fence = 1,
     cm_claimed_at = 120600000, cm_expires_at = 120610000\<rparr>" "oc_claim sample_queued = None"
  by (simp_all add: sample_linked_def sample_queued_def sample_next_def sample_occurrence_def occurrence_slot_def
      first_morning_def second_morning_def)

lemma sample_journal_maps:
  "mm_occurrences sample_journal =
     [(AutomationOccurrenceId (lit ''o''), sample_linked), (AutomationOccurrenceId (lit ''o2''), sample_queued)]"
  "mm_exec sample_journal = sample_exec" "mm_dispatches sample_journal = []" "sc_cursors (mm_sched sample_journal) = []"
  by (simp_all add: sample_journal_def)

lemma sample_journal_inv: "sched_inv plain_calendar (\<lambda>_. [7]) sample_journal"
proof -
  have row: "i = AutomationOccurrenceId (lit ''o'') \<and> oc = sample_linked \<or>
      i = AutomationOccurrenceId (lit ''o2'') \<and> oc = sample_queued"
    if "hm_get (mm_occurrences sample_journal) i = Some oc" for i oc
    using that by (auto simp: sample_journal_maps split: if_splits)
  have "occurrences_ok plain_calendar (\<lambda>_. [7]) (mm_occurrences sample_journal)"
    unfolding occurrences_ok_def unique_by_def
  proof (intro conjI allI impI)
    show "hm_wf (mm_occurrences sample_journal)" by (simp add: sample_journal_maps hm_wf_def)
  next
    fix i oc assume "hm_get (mm_occurrences sample_journal) i = Some oc"
    from row [OF this] show "oc_id oc = i" "occurrence_inv plain_calendar (\<lambda>_. [7]) oc"
      using sample_linked_inv sample_queued_inv sample_rows(1,2) by auto
  next
    fix i j a b
    assume a: "hm_get (mm_occurrences sample_journal) i = Some a" and b: "hm_get (mm_occurrences sample_journal) j = Some b"
    note r = row [OF a] row [OF b]
    show "i = j" if "same_slot a b" using r that sample_rows(11) by (auto simp: same_slot_def)
    show "i = j" if "both_active a b" using r that sample_rows(5,6) by (auto simp: both_active_def)
    show "i = j" if "both_queued a b" using r that sample_rows(5,6) by (auto simp: both_queued_def)
  qed
  moreover have "attempts_ok (mm_occurrences sample_journal) (sc_claim_attempts (mm_sched sample_journal))"
    unfolding attempts_ok_def
  proof (intro conjI allI impI)
    fix i oc assume "hm_get (mm_occurrences sample_journal) i = Some oc"
    from row [OF this] show "attempts_inv oc (attempts_of (sc_claim_attempts (mm_sched sample_journal)) i)"
      by (auto simp: attempts_inv_def attempts_of_def sample_journal_def sample_rows attempt_ok_def
          max_automation_scheduler_lease_ms_def)
  qed (auto simp: sample_journal_def split: if_splits)
  moreover have "links_ok (mm_runs sample_journal) (mm_occurrences sample_journal)"
    unfolding links_ok_def unique_by_def
  proof (intro conjI allI impI)
    fix i oc r assume "hm_get (mm_occurrences sample_journal) i = Some oc" "oc_run_id oc = Some r"
    with row [OF this(1)] sample_exec_inv(2) show "hm_get (mm_runs sample_journal) r \<noteq> None"
      by (auto simp: sample_rows sample_journal_maps)
  next
    fix i j a b
    assume "hm_get (mm_occurrences sample_journal) i = Some a" "hm_get (mm_occurrences sample_journal) j = Some b" "same_run a b"
    with row [OF this(1)] row [OF this(2)] show "i = j" by (auto simp: same_run_def sample_rows)
  qed
  moreover have "lease_ok (sc_lease (mm_sched sample_journal))"
    by (simp add: lease_ok_def sample_journal_def lease_restore_def max_automation_scheduler_lease_ms_def)
  ultimately show ?thesis
    using sample_exec_inv(1) by (simp add: sched_inv_def sample_journal_maps cursors_ok_def dispatches_ok_def)
qed

section \<open>Witnesses\<close>


theorem journal_always_readable_witness:
  "\<exists>status. mem_automation_scheduler_journal_status plain_calendar (\<lambda>_. [7]) sample_journal = Inr status"
  by (rule journal_always_readable [OF sample_journal_inv rtranclp.rtrancl_refl]) (simp add: sample_journal_maps)

lemma sample_recovery:
  "\<exists>x s'. mem_recover_automation_occurrence_claims plain_calendar (\<lambda>_. [7]) sample_journal sample_token 120620000 1 =
     Inr (x, s')"
proof -
  have ex: "expired_claims sample_journal 120620000 = [sample_linked]"
    by (simp add: expired_claims_def sample_journal_maps hm_values_def sample_rows)
  have lease: "\<exists>l. require_automation_scheduler_lease sample_journal sample_token 120620000 = Inr l"
    by (simp add: require_automation_scheduler_lease_def sample_journal_def sample_token_def lease_restore_def
        max_automation_scheduler_lease_ms_def lease_is_valid_at_def)
  have "\<exists>r'. recover_one plain_calendar (\<lambda>_. [7]) sample_journal 120620000 r sample_linked = Inr r'" for r
  proof -
    have "journal_restore plain_calendar (\<lambda>_. [7]) sample_linked = Inr sample_linked"
      using sample_linked_inv by (simp add: journal_restore_Inr occurrence_inv_def)
    moreover have "hm_get (mm_runs sample_journal) (RunId (lit ''r'')) = Some sample_cancelled_run"
      using sample_exec_inv(2) by (simp add: sample_journal_maps)
    moreover have "run_state_of sample_cancelled_run = Cancelled" by (simp add: sample_cancelled_run_def)
    moreover have "\<exists>oc. occurrence_cancel sample_linked 120620000 = Inr oc \<and> oc_state oc = OccCancelled"
      by (simp add: occurrence_ops sample_linked_def sample_occurrence_def advance_revision_def checked_add_def)
    ultimately show ?thesis
      by (auto simp: recover_one_def recover_linked_def sample_rows is_resumable_bound_def sample_journal_maps
          interrupt_linked_run_def stage_recovered_def Let_def sample_journal_def split: option.split)
  qed
  with ex lease show ?thesis
    by (auto simp: mem_recover_automation_occurrence_claims_def max_automation_scheduler_recovery_batch_def
        Let_def and_then_Inr)
qed

theorem recovery_strands_queue_witness:
  "\<exists>x s'. mem_recover_automation_occurrence_claims plain_calendar (\<lambda>_. [7]) sample_journal sample_token 120620000 1 =
     Inr (x, s') \<and>
   overlap_counts plain_calendar (\<lambda>_. [7]) s' (AutomationId (lit ''a'')) = Inl invalid_automation_scheduler_journal"
proof -
  obtain x s' where op: "mem_recover_automation_occurrence_claims plain_calendar (\<lambda>_. [7]) sample_journal
      sample_token 120620000 1 = Inr (x, s')" using sample_recovery by blast
  have "sample_linked \<in> set (take 1 (expired_claims sample_journal 120620000))"
    by (simp add: expired_claims_def sample_journal_maps hm_values_def sample_rows)
  moreover have "hm_get (mm_runs sample_journal) (RunId (lit ''r'')) = Some sample_cancelled_run"
    "run_state_of sample_cancelled_run \<in> {Completed, Failed, Cancelled}"
    using sample_exec_inv(2) by (simp_all add: sample_journal_maps sample_cancelled_run_def)
  moreover have "hm_get (mm_occurrences sample_journal) (AutomationOccurrenceId (lit ''o2'')) = Some sample_queued"
    by (simp add: sample_journal_maps)
  ultimately have "overlap_counts plain_calendar (\<lambda>_. [7]) s' (AutomationId (lit ''a'')) =
      Inl invalid_automation_scheduler_journal"
    using recovery_strands_queue [OF sample_journal_inv op _ _ _ _ _ _ _ _ rtranclp.rtrancl_refl,
        of sample_linked "RunId (lit ''r'')" sample_cancelled_run "AutomationOccurrenceId (lit ''o2'')" sample_queued]
    by (simp add: sample_rows)
  with op show ?thesis by blast
qed

text \<open>The same journal before the cancellation, with the binding of the linked occurrence: its run is
  still queued, so the guest may begin it.\<close>

definition sample_binding :: automation_occurrence_dispatch_result where
  "sample_binding =
     \<lparr>dr_occurrence = sample_linked,
      dr_thread = \<lparr>th_id = ThreadId (lit ''t''), th_project_id = ProjectId (lit ''p''), th_title = lit ''Automation'',
        th_state = ThreadOpen, th_lineage = thread_lineage_original (ThreadId (lit ''t'')), th_revision = 0,
        th_created_at = 120600001, th_updated_at = 120600001\<rparr>,
      dr_prompt = \<lparr>ms_id = MessageId (lit ''m''), ms_thread_id = ThreadId (lit ''t''), ms_sequence = 1,
        ms_role = RoleUser, ms_content = lit ''Report'', ms_state = MessageActive,
        ms_derivation = MessageOriginal, ms_revision = 0, ms_created_at = 120600001, ms_updated_at = 120600001\<rparr>,
      dr_run = sample_bound_run\<rparr>"

definition sample_bound_exec :: exec_state where
  "sample_bound_exec =
     (let i = RunId (lit ''r'')
      in append_events (es_runs_update (hm_insert i sample_bound_run) exec_empty) i
           [\<lparr>ne_occurred_at = 120600001, ne_kind = RunCreated\<rparr>])"

definition sample_bound_journal :: mem_state where
  "sample_bound_journal = sample_journal\<lparr>mm_exec := sample_bound_exec,
     mm_sched := (mm_sched sample_journal)\<lparr>sc_dispatches := [(AutomationOccurrenceId (lit ''o''), sample_binding)]\<rparr>\<rparr>"

lemma sample_bound_run_fields:
  "run_id_of sample_bound_run = RunId (lit ''r'')" "run_state_of sample_bound_run = Queued"
  "run_revision sample_bound_run = 0" "run_init sample_bound_run"
  by (simp_all add: sample_bound_run_def run_queued_scheduled_def)
    (use run_init.scheduled in \<open>simp add: run_queued_scheduled_def\<close>)

lemma sample_bound_runs: "es_runs sample_bound_exec = [(RunId (lit ''r''), sample_bound_run)]"
  by (simp add: sample_bound_exec_def Let_def append_events_def exec_empty_def)

lemma sample_bound_journal_maps:
  "mm_occurrences sample_bound_journal = mm_occurrences sample_journal"
  "mm_exec sample_bound_journal = sample_bound_exec"
  "mm_dispatches sample_bound_journal = [(AutomationOccurrenceId (lit ''o''), sample_binding)]"
  "sc_cursors (mm_sched sample_bound_journal) = []"
  "sc_lease (mm_sched sample_bound_journal) = sc_lease (mm_sched sample_journal)"
  "sc_claim_attempts (mm_sched sample_bound_journal) = sc_claim_attempts (mm_sched sample_journal)"
  by (simp_all add: sample_bound_journal_def sample_journal_maps)

lemma sample_bound_journal_inv: "sched_inv plain_calendar (\<lambda>_. [7]) sample_bound_journal"
proof -
  note parts = sched_inv_parts [OF sample_journal_inv]
  have "exec_inv sample_bound_exec"
    unfolding sample_bound_exec_def Let_def
    using exec_new_run [OF exec_inv_empty _ sample_bound_run_fields(4),
        of "\<lparr>ne_occurred_at = 120600001, ne_kind = RunCreated\<rparr>"]
    by (simp add: sample_bound_run_fields exec_empty_def)
  moreover have "dispatches_ok (mm_occurrences sample_bound_journal) (mm_dispatches sample_bound_journal)"
    by (simp add: dispatches_ok_def hm_wf_def sample_bound_journal_maps sample_journal_maps sample_binding_def
        sample_rows sample_bound_run_fields)
  moreover have "rows_evolve (\<lambda>_ _. True) (mm_runs sample_journal) (mm_runs sample_bound_journal)"
    unfolding rows_evolve_def sample_bound_journal_maps sample_bound_runs
    by (auto simp: sample_journal_maps sample_exec_def Let_def append_events_def exec_empty_def split: if_splits)
  then have "links_ok (mm_runs sample_bound_journal) (mm_occurrences sample_journal)" by (rule links_ok_runs [OF parts(7)])
  ultimately show ?thesis using parts by (simp add: sched_inv_def sample_bound_journal_maps cursors_ok_def hm_wf_def)
qed

theorem occurrence_begun_at_most_once_witness:
  "\<exists>b s'. mem_begin_automation_occurrence_run sample_bound_journal (AutomationOccurrenceId (lit ''o'')) 2
      (RunId (lit ''r'')) 0 120600003 = Inr (b, s') \<and>
    (\<exists>e. mem_begin_automation_occurrence_run s' (AutomationOccurrenceId (lit ''o'')) 2
      (RunId (lit ''r'')) 0 120600003 = Inl e)"
proof -
  have "\<exists>b s'. mem_begin_automation_occurrence_run sample_bound_journal (AutomationOccurrenceId (lit ''o'')) 2
      (RunId (lit ''r'')) 0 120600003 = Inr (b, s')"
    by (simp add: mem_begin_automation_occurrence_run_def sample_bound_journal_maps sample_journal_maps
        sample_bound_runs sample_rows sample_binding_def sample_bound_run_fields sample_linked_def Let_def)
      (simp add: sample_bound_run_def run_queued_scheduled_def run_transition_def saturating_add_def checked_add_def)
  then obtain b s' where op: "mem_begin_automation_occurrence_run sample_bound_journal (AutomationOccurrenceId (lit ''o'')) 2
      (RunId (lit ''r'')) 0 120600003 = Inr (b, s')" by (elim exE)
  with occurrence_begun_at_most_once [OF sample_bound_journal_inv rtranclp.rtrancl_refl op rtranclp.rtrancl_refl]
  show ?thesis by blast
qed

end
