(* ===== verification/ServiceProperties.thy ===== *)
theory ServiceProperties
  imports SchedulerServices SchedulerProperties
begin

text \<open>
  Properties of the scheduler service over the in-memory store. The locale \<open>scheduler_port\<close> is the
  contract of the port the service relies on; inside it every request is shown to hand a guest
  request out only for an occurrence whose run it has begun itself. The interpretation on the
  in-memory store discharges the contract, and the properties follow for every interleaving of
  service requests with each other and with the rest of the daemon.
\<close>

section \<open>The contract of the port\<close>

locale scheduler_port =
  fixes port :: "'s automation_scheduler_store"
    and inv :: "'s \<Rightarrow> bool"
    and used :: "'s \<Rightarrow> automation_occurrence_id \<Rightarrow> bool"
  assumes acquire: "as_acquire_lease port s owner now ttl = Inr (x, s') \<Longrightarrow> inv s \<Longrightarrow>
      inv s' \<and> (\<forall>i. used s i \<longrightarrow> used s' i)"
    and commit: "as_commit_evaluation port s ev = Inr (vr, s') \<Longrightarrow> inv s \<Longrightarrow>
      inv s' \<and> (\<forall>i. used s i \<longrightarrow> used s' i)"
    and bind: "as_claim_and_bind port s d = Inr (b, s') \<Longrightarrow> run_init (di_run d) \<Longrightarrow> inv s \<Longrightarrow>
      inv s' \<and> (\<forall>i. used s i \<longrightarrow> used s' i)"
    and begin_run: "as_begin_run port s j erev rid rrev now = Inr (b, s') \<Longrightarrow> inv s \<Longrightarrow>
      inv s' \<and> (\<forall>i. used s i \<longrightarrow> used s' i) \<and> \<not> used s j \<and> used s' j \<and> oc_id (dr_occurrence b) = j"
    and complete: "as_complete_run port s j erev rid c now = Inr (oc, s') \<Longrightarrow> inv s \<Longrightarrow>
      inv s' \<and> (\<forall>i. used s i \<longrightarrow> used s' i)"
    and recover: "as_recover_claims port s token now limit = Inr (y, s') \<Longrightarrow> inv s \<Longrightarrow>
      inv s' \<and> (\<forall>i. used s i \<longrightarrow> used s' i)"
begin

abbreviation ok :: "automation_occurrence_id set \<Rightarrow> ('s world, 'a) prog \<Rightarrow> bool" where
  "ok \<equiv> permitted (\<lambda>w. inv (wd_store w)) (\<lambda>w. {i. used (wd_store w) i})
     (\<lambda>w. map sg_occurrence_id (wd_requests w))"

lemma ok_quiet:
  assumes "\<And>w. inv (wd_store w) \<Longrightarrow> inv (wd_store (u w)) \<and>
      (\<forall>i. used (wd_store w) i \<longrightarrow> used (wd_store (u w)) i) \<and> wd_requests (u w) = wd_requests w"
    and "\<And>w. ok S (k w)"
  shows "ok S (Call u k)"
proof (rule permitted_Call)
  fix w :: "'s world" assume w: "inv (wd_store w)"
  show "inv (wd_store (u w)) \<and> {i. used (wd_store w) i} \<subseteq> {i. used (wd_store (u w)) i} \<and>
      (\<exists>S'. (map sg_occurrence_id (wd_requests (u w)) = map sg_occurrence_id (wd_requests w) \<and>
           S' \<subseteq> S \<union> ({i. used (wd_store (u w)) i} - {i. used (wd_store w) i}) \<or>
         (\<exists>x \<in> S. map sg_occurrence_id (wd_requests (u w)) = map sg_occurrence_id (wd_requests w) @ [x] \<and>
            S' \<subseteq> S - {x})) \<and> ok S' (k w))"
    using assms(1) [OF w] assms(2) [of w] by (intro conjI exI [of _ S]) auto
qed

lemma ok_effects [simp, intro!]:
  "ok S clock_now" "ok S is_cancelled" "ok S (generate uuid prefix)" "ok S (store_read f)"
  by (auto simp: clock_now_def is_cancelled_def generate_def store_read_def intro!: ok_quiet permitted_Done)

lemma store_after_quiet:
  assumes "\<And>s x s'. f s = Inr (x, s') \<Longrightarrow> inv s \<Longrightarrow> inv s' \<and> (\<forall>i. used s i \<longrightarrow> used s' i)"
    and "inv (wd_store w)"
  shows "inv (wd_store (store_after f w)) \<and>
      (\<forall>i. used (wd_store w) i \<longrightarrow> used (wd_store (store_after f w)) i) \<and> wd_requests (store_after f w) = wd_requests w"
  using assms(2) assms(1) [of "wd_store w"] by (auto simp: store_after_def split: sum.split)

lemma ok_store:
  assumes "\<And>s x s'. f s = Inr (x, s') \<Longrightarrow> inv s \<Longrightarrow> inv s' \<and> (\<forall>i. used s i \<longrightarrow> used s' i)"
  shows "ok S (store_write f)" "ok S (store_try f)"
proof -
  show "ok S (store_write f)" "ok S (store_try f)"
    unfolding store_write_def store_try_def
    by (rule ok_quiet; (rule store_after_quiet [OF assms] permitted_Done; assumption?))+
qed

lemma ok_writes [simp, intro!]:
  "ok S (store_write (\<lambda>s. as_acquire_lease port s owner now ttl))"
  "ok S (store_write (\<lambda>s. as_commit_evaluation port s ev))"
  "ok S (store_write (\<lambda>s. as_complete_run port s j erev rid c now))"
  "ok S (store_write (\<lambda>s. as_recover_claims port s token now limit))"
  by (rule ok_store, erule (1) acquire commit complete recover)+

lemma ok_bind [intro!]: "run_init (di_run d) \<Longrightarrow> ok S (store_try (\<lambda>s. as_claim_and_bind port s d))"
  by (rule ok_store) (rule bind)

lemma ok_pure [simp, intro!]: "ok S (Done x)"
  by (rule permitted_Done)

lemma ok_new_id [simp, intro!]: "ok {} (new_id mk uuid prefix)"
  unfolding new_id_def by (intro permitted_try) auto

lemma ok_materialize [intro!]:
  "ok {} (materialize_decisions cal sha uuid a snapshot decisions continuity_started_at observed_at)"
  unfolding materialize_decisions_def materialize_gap_def materialize_missed_def materialize_due_def
    new_occurrence_id_def Let_def
  by (auto intro!: permitted_try permitted_collect)

lemma ok_evaluate [intro!]: "ok {} (evaluate_candidate port cal sha uuid lease cs observed_at candidate)"
  unfolding evaluate_candidate_def initialize_cursor_def advance_cursor_def Let_def
  by (auto intro!: permitted_try split: option.split)

lemma ok_tick [intro!]: "ok {} (tick port cal sha uuid owner after limit)"
  unfolding tick_def tick_page_def tick_candidate_def Let_def
  by (auto intro!: permitted_try permitted_fold
      split: automation_scheduler_lease_acquisition.split)

lemma ok_bind_occurrence: "ok {} (bind_occurrence port sha uuid lease observed_at dispatched oc)"
  unfolding bind_occurrence_def Let_def
  by (auto intro!: permitted_try run_init.scheduled simp: occurrence_dispatch_def
      split: sum.split store_error.split)

lemma ok_execute_due [intro!]: "ok {} (execute_due port cal sha uuid owner limit)"
  unfolding execute_due_def bind_due_def bind_candidate_def
  by (auto intro!: permitted_try permitted_fold ok_bind_occurrence
      split: automation_scheduler_lease_acquisition.split)

lemma ok_recover [intro!]: "ok {} (recover_expired_claims port owner limit)"
  unfolding recover_expired_claims_def
  by (auto intro!: permitted_try split: automation_scheduler_lease_acquisition.split)

text \<open>A successful begin gives its caller the permission for the occurrence, and the dispatch uses it.\<close>

lemma ok_begin:
  assumes "\<And>e. ok {} (k (Inl e))" and "\<And>b. oc_id (dr_occurrence b) = j \<Longrightarrow> ok {j} (k (Inr b))"
  shows "ok {} (try_prog (store_try (\<lambda>s. as_begin_run port s j erev rid rrev now)) k)"
  unfolding store_try_def try_prog_simps
proof (rule permitted_Call)
  let ?f = "\<lambda>s. as_begin_run port s j erev rid rrev now"
  fix w :: "'s world" assume w: "inv (wd_store w)"
  show "inv (wd_store (store_after ?f w)) \<and> {i. used (wd_store w) i} \<subseteq> {i. used (wd_store (store_after ?f w)) i} \<and>
      (\<exists>S'. (map sg_occurrence_id (wd_requests (store_after ?f w)) = map sg_occurrence_id (wd_requests w) \<and>
           S' \<subseteq> {} \<union> ({i. used (wd_store (store_after ?f w)) i} - {i. used (wd_store w) i}) \<or>
         (\<exists>x \<in> {}. map sg_occurrence_id (wd_requests (store_after ?f w)) =
              map sg_occurrence_id (wd_requests w) @ [x] \<and> S' \<subseteq> {} - {x})) \<and>
        ok S' (k (map_ok fst (?f (wd_store w)))))"
  proof (cases "?f (wd_store w)")
    case (Inl e)
    then show ?thesis using w assms(1) by (intro conjI exI [of _ "{}"]) (auto simp: store_after_def)
  next
    case (Inr r)
    obtain b s' where r: "r = (b, s')" by (cases r)
    from begin_run [OF Inr [unfolded r] w] assms(2) Inr r show ?thesis
      by (intro conjI exI [of _ "{j}"]) (auto simp: store_after_def)
  qed
qed

lemma ok_run_guest: "ok {oc_id (dr_occurrence running)} (run_guest guest running)"
proof -
  let ?r = "\<lparr>sg_occurrence_id = oc_id (dr_occurrence running), sg_run_id = run_id_of (dr_run running),
     sg_prompt = ms_content (dr_prompt running)\<rparr>"
  have "ok {oc_id (dr_occurrence running)} (try_prog (dispatch_guest guest ?r)
      (\<lambda>race. Done (Inr (guest_completion (select_result race)))))"
    unfolding dispatch_guest_def try_prog_simps by (rule permitted_Call) (auto intro!: exI [of _ "{}"])
  then show ?thesis
    unfolding run_guest_def is_cancelled_def try_prog_simps by (intro ok_quiet) simp_all
qed

lemma ok_dispatch_each: "ok {} (dispatch_each port guest bs n)"
proof (induction bs arbitrary: n)
  case (Cons b bs)
  have run: "ok {oc_id (dr_occurrence b)} (try_prog (run_guest guest r) (\<lambda>completion.
       try_prog clock_now (\<lambda>now.
       try_prog (store_write (\<lambda>s. as_complete_run port s j erev rid completion now)) (\<lambda>_.
       dispatch_each port guest bs (Suc n)))))"
    if "oc_id (dr_occurrence r) = oc_id (dr_occurrence b)" for r j erev rid
    using ok_run_guest [of r guest] that by (intro permitted_try ok_effects ok_writes Cons.IH) simp
  have rest: "ok {} (if cancelled then Done (Inr n) else p)" if "ok {} p" for cancelled and p :: "('s, nat) app"
    using that by simp
  show ?case
    unfolding dispatch_each.simps
    by (intro permitted_try ok_effects rest ok_begin) (simp_all add: Cons.IH run split: store_error.split)
qed simp

lemma ok_dispatch [intro!]: "ok {} (dispatch_resumable port guest limit)"
  unfolding dispatch_resumable_def by (intro permitted_try ok_dispatch_each) auto

lemma ok_serve: "ok {} (serve_scheduler port cal sha uuid guest req)"
  by (cases req) (auto intro!: permitted_map)

end

section \<open>The in-memory store keeps the contract\<close>

lemma memory_port [simp]:
  "as_acquire_lease (memory_scheduler_store cal sha) = mem_acquire_automation_scheduler_lease"
  "as_list_candidates (memory_scheduler_store cal sha) = mem_list_automation_schedule_candidates cal sha"
  "as_commit_evaluation (memory_scheduler_store cal sha) = mem_commit_automation_schedule_evaluation cal sha"
  "as_list_occurrences (memory_scheduler_store cal sha) = mem_list_automation_occurrences cal sha"
  "as_claim_and_bind (memory_scheduler_store cal sha) = mem_claim_and_bind_automation_occurrence cal sha"
  "as_list_resumable (memory_scheduler_store cal sha) = mem_list_resumable_automation_dispatches"
  "as_begin_run (memory_scheduler_store cal sha) = mem_begin_automation_occurrence_run"
  "as_complete_run (memory_scheduler_store cal sha) = mem_complete_automation_occurrence_run"
  "as_recover_claims (memory_scheduler_store cal sha) = mem_recover_automation_occurrence_claims cal sha"
  by (simp_all add: memory_scheduler_store_def)

text \<open>What may happen between two calls of a service request: the wall clock is set, the token is
  cancelled, and the store is changed by other scheduler calls and by the other use cases.\<close>

inductive world_env :: "('d, 'z) calendar \<Rightarrow> sha256 \<Rightarrow> mem_state world \<Rightarrow> mem_state world \<Rightarrow> bool"
  for cal sha where
  clock: "world_env cal sha w (w\<lparr>wd_clock := now\<rparr>)"
| cancel: "world_env cal sha w (w\<lparr>wd_cancelled := True\<rparr>)"
| store: "sched_step cal sha (wd_store w) s' \<Longrightarrow> world_env cal sha w (w\<lparr>wd_store := s'\<rparr>)"

lemma sched_step_spent:
  assumes "sched_step cal sha s s'" "sched_inv cal sha s"
  shows "sched_inv cal sha s' \<and> (\<forall>i. spent s i \<longrightarrow> spent s' i)"
  using sched_step_keeps [OF assms] spent_stays [OF r_into_rtranclp [of "sched_step cal sha", OF assms(1)] assms(2)]
  by blast

lemma begin_unspent:
  assumes "mem_begin_automation_occurrence_run s j erev rid rrev now = Inr (b, s')" and inv: "sched_inv cal sha s"
  shows "\<not> spent s j \<and> spent s' j \<and> oc_id (dr_occurrence b) = j"
proof -
  have "\<not> spent s j" using spent_refuses [of s j erev rid rrev now] assms(1) by auto
  moreover have "oc_id (dr_occurrence b) = j"
    using assms(1) by (rule begin_Inr) (use occurrences_ok_row [OF sched_inv_parts(4) [OF inv]] in simp)
  ultimately show ?thesis using begin_spends [OF assms] by blast
qed

lemmas mem_calls_spent =
  sched_step_spent [OF sched_step.acquire] sched_step_spent [OF sched_step.commit]
  sched_step_spent [OF sched_step.bind] sched_step_spent [OF sched_step.begin_run]
  sched_step_spent [OF sched_step.complete] sched_step_spent [OF sched_step.recover]

interpretation mem_port: scheduler_port "memory_scheduler_store cal sha" "sched_inv cal sha" spent
  for cal sha
  by unfold_locales (simp_all, (blast dest: mem_calls_spent begin_unspent)+)

lemma world_env_keeps:
  assumes "world_env cal sha w w'" "sched_inv cal sha (wd_store w)"
  shows "sched_inv cal sha (wd_store w') \<and> {i. spent (wd_store w) i} \<subseteq> {i. spent (wd_store w') i} \<and>
    map sg_occurrence_id (wd_requests w') = map sg_occurrence_id (wd_requests w)"
  using assms
proof cases
  case (store s')
  with sched_step_spent [OF store(2) assms(2)] show ?thesis by auto
qed auto

interpretation guest_ledger: ledger "\<lambda>w. sched_inv cal sha (wd_store w)" "\<lambda>w. {i. spent (wd_store w) i}"
    "\<lambda>w. map sg_occurrence_id (wd_requests w)" "world_env cal sha" for cal sha
  by unfold_locales (rule world_env_keeps)

section \<open>Guest requests\<close>

definition initial_world :: "'s \<Rightarrow> unix_millis \<Rightarrow> 's world" where
  "initial_world s now = \<lparr>wd_store = s, wd_clock = now, wd_cancelled = False, wd_generated = 0, wd_requests = []\<rparr>"

text \<open>C5. A scheduled prompt reaches the guest at most once: under any interleaving of ticks, dispatch
  passes, recoveries and due passes with each other, with clock changes, cancellation and every
  other use case that changes runs, no occurrence is handed to the guest dispatcher twice, and the
  run of every dispatched occurrence has durably left the queued state.\<close>

theorem guest_dispatched_at_most_once:
  assumes "sched_inv cal sha s0"
    and "(open_step (serve_scheduler (memory_scheduler_store cal sha) cal sha uuid guest) (world_env cal sha))\<^sup>*\<^sup>*
      (initial_world s0 t0, []) (w, ps)"
  shows "distinct (map sg_occurrence_id (wd_requests w)) \<and>
    (\<forall>r \<in> set (wd_requests w). \<exists>oc rid run. hm_get (mm_occurrences (wd_store w)) (sg_occurrence_id r) = Some oc \<and>
       oc_run_id oc = Some rid \<and> hm_get (mm_runs (wd_store w)) rid = Some run \<and> run_state_of run \<noteq> Queued)"
  using guest_ledger.entered_once [OF assms(2) mem_port.ok_serve] assms(1)
  by (auto simp: initial_world_def spent_def)

section \<open>Progress\<close>

text \<open>The clock is not behind the linked and queued rows and the runs, and no revision of such a row is
  exhausted.\<close>

definition timely :: "mem_state \<Rightarrow> unix_millis \<Rightarrow> bool" where
  "timely s now \<longleftrightarrow>
     (\<forall>i oc. hm_get (mm_occurrences s) i = Some oc \<longrightarrow> oc_state oc \<in> {OccRunLinked, OccQueuedOverlap} \<longrightarrow>
        oc_updated_at oc \<le> now \<and> oc_revision oc \<noteq> - 1) \<and>
     (\<forall>i r. hm_get (mm_runs s) i = Some r \<longrightarrow> run_updated_at r \<le> now)"

lemma sole_queued_answers:
  assumes ok: "occurrences_ok cal sha (mm_occurrences s)"
  shows "\<exists>q. sole_queued_occurrence s aid = Inr q"
proof -
  define xs where "xs = filter (\<lambda>oc. oc_automation_id oc = aid \<and> oc_state oc = OccQueuedOverlap)
    (hm_values (mm_occurrences s))"
  have stored: "hm_get (mm_occurrences s) (oc_id a) = Some a" if "a \<in> set xs" for a
  proof -
    have "a \<in> set (hm_values (mm_occurrences s))" using that by (simp add: xs_def)
    then obtain i where "hm_get (mm_occurrences s) i = Some a"
      using hm_values_iff [OF occurrences_ok_wf [OF ok], of a] by blast
    with occurrences_ok_row [OF ok this] show ?thesis by simp
  qed
  have same: "a = b" if "a \<in> set xs" "b \<in> set xs" for a b
  proof -
    have "both_queued a b" using that by (simp add: both_queued_def xs_def)
    from unique_byD [OF occurrences_ok_queued [OF ok] stored [OF that(1)] stored [OF that(2)] this]
    have "Some a = Some b" unfolding stored [OF that(1), symmetric] stored [OF that(2), symmetric] by (rule arg_cong)
    then show ?thesis by simp
  qed
  have "distinct xs" unfolding xs_def by (rule distinct_filter [OF distinct_rows [OF ok]])
  have no: "xs \<noteq> a # b # l" for a b l
  proof
    assume eq: "xs = a # b # l"
    have "a = b" by (rule same) (simp_all add: eq)
    with \<open>distinct xs\<close> eq show False by simp
  qed
  show ?thesis unfolding sole_queued_occurrence_def xs_def [symmetric]
    by (cases xs rule: remdups_adj.cases) (simp, simp, use no in blast)
qed

lemma promote_answers:
  assumes ok: "occurrences_ok cal sha (mm_occurrences s)" and time: "timely s now"
  shows "\<exists>p. promote_sole_queued e s aid now = Inr p"
proof -
  obtain q where q: "sole_queued_occurrence s aid = Inr q" using sole_queued_answers [OF ok] by blast
  have "\<exists>oc'. occurrence_promote_queued oc now = Inr oc'" if "q = Some oc" for oc
  proof -
    note row = sole_queued_occurrence_Inr [OF q [unfolded that] ok]
    have inv: "occurrence_inv cal sha oc" using occurrences_ok_row [OF ok row(1)] by simp
    have "\<not> now < oc_updated_at oc" "oc_revision oc \<noteq> - 1"
      using time row(1,2) unfolding timely_def not_less by blast+
    with inv row(2) show ?thesis
      by (simp add: occurrence_promote_queued_def occurrence_move_from_def occurrence_ensure_time_def
          advance_revision_def checked_add_one occurrence_inv_def occurrence_restore_ok occurrence_shape_ok_def
          occurrence_lifecycle_shape_def)
  qed
  with q show ?thesis by (auto simp: promote_sole_queued_def split: option.split)
qed

text \<open>The rows of other occurrences that a call leaves alone.\<close>

definition untouched :: "automation_occurrence_id \<Rightarrow> run_id \<Rightarrow> mem_state \<Rightarrow> mem_state \<Rightarrow> bool" where
  "untouched i rid s s' \<longleftrightarrow>
     (\<forall>j oc. j \<noteq> i \<longrightarrow> hm_get (mm_occurrences s) j = Some oc \<longrightarrow> \<not> is_queued oc \<longrightarrow>
        hm_get (mm_occurrences s') j = Some oc) \<and>
     (\<forall>j. j \<noteq> i \<longrightarrow> hm_get (mm_dispatches s') j = hm_get (mm_dispatches s) j) \<and>
     (\<forall>r. r \<noteq> rid \<longrightarrow> hm_get (mm_runs s') r = hm_get (mm_runs s) r)"

lemma begin_progress:
  assumes bound: "hm_get (mm_dispatches s) i = Some bd" "run_id_of (dr_run bd) = rid"
    and oc: "hm_get (mm_occurrences s) i = Some oc" "oc_state oc = OccRunLinked" "oc_run_id oc = Some rid"
    and run: "hm_get (mm_runs s) rid = Some r" "run_state_of r = Queued" "run_id_of r = rid"
    and time: "timely s now"
  shows "\<exists>running s'. mem_begin_automation_occurrence_run s i (oc_revision oc) rid (run_revision r) now =
      Inr (\<lparr>dr_occurrence = oc, dr_thread = dr_thread bd, dr_prompt = dr_prompt bd, dr_run = running\<rparr>, s') \<and>
    mm_occurrences s' = mm_occurrences s \<and> hm_get (mm_runs s') rid = Some running \<and> run_id_of running = rid \<and>
    run_state_of running = Running \<and> hm_get (mm_dispatches s') i \<noteq> None \<and> timely s' now \<and> untouched i rid s s'"
proof -
  have "\<not> now < run_updated_at r" using time run(1) unfolding timely_def not_less by blast
  then show ?thesis using bound oc run time
    by (simp add: mem_begin_automation_occurrence_run_def run_transition_def Let_def put_run_def timely_def
        append_events_def untouched_def)
qed

fun settled_state :: "automation_occurrence_run_completion \<Rightarrow> automation_occurrence_state" where
  "settled_state RunSucceeded = OccSucceeded"
| "settled_state RunFailed = OccFailed"
| "settled_state RunInterruptedNeedsReview = OccInterruptedNeedsReview"
| "settled_state RunCancelled = OccCancelled"

lemma completed_maps:
  fixes s i oc' r' event b p
  defines "s' \<equiv> complete_run_state s i oc' r' event b p"
  assumes "oc_id oc' = i" and p: "\<And>q. p = Some q \<Longrightarrow> oc_id q \<noteq> i"
  shows completed_runs: "mm_runs s' = hm_insert (run_id_of r') r' (mm_runs s)"
    and completed_dispatches: "j \<noteq> i \<Longrightarrow> hm_get (mm_dispatches s') j = hm_get (mm_dispatches s) j"
    and completed_rows: "hm_get (mm_occurrences s') j = (if j = i then Some oc' else
      case p of None \<Rightarrow> hm_get (mm_occurrences s) j
      | Some q \<Rightarrow> if j = oc_id q then Some q else hm_get (mm_occurrences s) j)"
  using assms(2) p unfolding s'_def
  by (cases p; simp add: complete_run_state_def put_occurrence_def put_run_def append_events_def Let_def)+

lemma completed_frame:
  fixes s i oc' r' event b p
  defines "s' \<equiv> complete_run_state s i oc' r' event b p"
  assumes oc': "oc_id oc' = i" "oc_state oc' \<notin> {OccRunLinked, OccQueuedOverlap}"
    and r': "run_updated_at r' = now" and time: "timely s now"
    and p: "\<And>q'. p = Some q' \<Longrightarrow> oc_id q' \<noteq> i \<and> oc_state q' = OccPending \<and>
      (\<exists>q. hm_get (mm_occurrences s) (oc_id q') = Some q \<and> is_queued q)"
  shows "timely s' now \<and> untouched i (run_id_of r') s s'"
proof
  have apart: "oc_id q \<noteq> i" if "p = Some q" for q using p [OF that] by blast
  note maps = completed_runs [OF oc'(1), of p s r' event b, OF apart, simplified]
    completed_dispatches [OF oc'(1), of p _ s r' event b, OF apart, simplified]
    completed_rows [OF oc'(1), of p s r' event b, OF apart, simplified]
  show "timely s' now"
    unfolding timely_def
  proof (intro conjI allI impI)
    fix j oc assume j: "hm_get (mm_occurrences s') j = Some oc" "oc_state oc \<in> {OccRunLinked, OccQueuedOverlap}"
    from j(1) [unfolded s'_def maps(3)] j(2) have "hm_get (mm_occurrences s) j = Some oc"
      using oc'(2) p by (auto split: if_splits option.splits)
    with j(2) time show "oc_updated_at oc \<le> now" "oc_revision oc \<noteq> - 1" unfolding timely_def by blast+
  next
    fix j x assume "hm_get (mm_runs s') j = Some x"
    then show "run_updated_at x \<le> now" using time r' unfolding s'_def maps(1) timely_def by (auto split: if_splits)
  qed
  show "untouched i (run_id_of r') s s'"
    unfolding untouched_def
  proof (intro conjI allI impI)
    fix j oc assume j: "j \<noteq> i" "hm_get (mm_occurrences s) j = Some oc" "\<not> is_queued oc"
    show "hm_get (mm_occurrences s') j = Some oc"
      unfolding s'_def maps(3) using j p by (cases p) auto
  qed (simp_all add: s'_def maps(1,2))
qed

lemma complete_progress:
  assumes ok: "occurrences_ok cal sha (mm_occurrences s)"
    and oc: "hm_get (mm_occurrences s) i = Some oc" "oc_state oc = OccRunLinked" "oc_run_id oc = Some rid"
    and run: "hm_get (mm_runs s) rid = Some r" "run_state_of r = Running" "run_id_of r = rid"
    and bound: "hm_get (mm_dispatches s) i \<noteq> None" and time: "timely s now"
  shows "\<exists>oc' s'. mem_complete_automation_occurrence_run s i (oc_revision oc) rid k now = Inr (oc', s') \<and>
    hm_get (mm_occurrences s') i = Some oc' \<and> oc_state oc' = settled_state k \<and>
    (\<exists>r'. hm_get (mm_runs s') rid = Some r' \<and> run_state_of r' = completion_run_state k) \<and>
    timely s' now \<and> untouched i rid s s'"
proof -
  have "\<not> now < oc_updated_at oc" "oc_revision oc \<noteq> - 1" "\<not> now < run_updated_at r"
    using time oc(1,2) run(1) unfolding timely_def not_less by blast+
  note now = this
  have i: "oc_id oc = i" using occurrences_ok_row [OF ok oc(1)] by simp
  obtain oc' where oc': "complete_occurrence k oc rid now = Inr oc'" "oc_state oc' = settled_state k" "oc_id oc' = i"
    "oc_automation_id oc' = oc_automation_id oc"
    using now oc i by (cases k) (auto simp: occurrence_succeed_def occurrence_fail_def occurrence_interrupt_def
        occurrence_cancel_def occurrence_finish_linked_def occurrence_ensure_time_def advance_revision_def checked_add_one)
  obtain r' where r': "run_transition r (completion_run_state k) now = Inr r'" "run_id_of r' = rid"
    "run_state_of r' = completion_run_state k" "run_updated_at r' = now"
    using now(3) run by (cases k) (simp_all add: run_transition_def)
  obtain p where p: "promote_sole_queued StoreConflict s (oc_automation_id oc') now = Inr p"
    using promote_answers [OF ok time] by blast
  have promoted: "oc_id q' \<noteq> i \<and> oc_state q' = OccPending \<and>
      (\<exists>q. hm_get (mm_occurrences s) (oc_id q') = Some q \<and> is_queued q)" if "p = Some q'" for q'
    using p [unfolded that] ok by (rule promote_sole_queued_Inr) (use oc(1,2) in auto)
  obtain b where b: "hm_get (mm_dispatches s) i = Some b" using bound by blast
  let ?s' = "complete_run_state s i oc' r' (state_changed now Running (completion_run_state k)) b p"
  have "mem_complete_automation_occurrence_run s i (oc_revision oc) rid k now = Inr (oc', ?s')"
    using oc run r'(1) oc'(1) p b by (simp add: mem_complete_automation_occurrence_run_def)
  moreover have "oc_state oc' \<notin> {OccRunLinked, OccQueuedOverlap}" using oc'(2) by (cases k) simp_all
  note completed_frame [OF oc'(3) this r'(4) time promoted]
  moreover have "hm_get (mm_occurrences ?s') i = Some oc'"
    by (subst completed_rows [OF oc'(3)]) (use promoted in simp_all)
  moreover have "hm_get (mm_runs ?s') rid = Some r'"
    by (subst completed_runs [OF oc'(3)]) (use promoted r'(2) in simp_all)
  ultimately show ?thesis using oc'(2) r'(2,3) by auto
qed

text \<open>A binding as the service reads it: its occurrence is linked and its run still queued.\<close>

definition ready :: "mem_state \<Rightarrow> automation_occurrence_dispatch_result \<Rightarrow> bool" where
  "ready s b \<longleftrightarrow>
     (\<exists>bd. hm_get (mm_dispatches s) (oc_id (dr_occurrence b)) = Some bd \<and>
        run_id_of (dr_run bd) = run_id_of (dr_run b) \<and> dr_prompt bd = dr_prompt b) \<and>
     hm_get (mm_occurrences s) (oc_id (dr_occurrence b)) = Some (dr_occurrence b) \<and>
     oc_state (dr_occurrence b) = OccRunLinked \<and> oc_run_id (dr_occurrence b) = Some (run_id_of (dr_run b)) \<and>
     hm_get (mm_runs s) (run_id_of (dr_run b)) = Some (dr_run b) \<and> run_state_of (dr_run b) = Queued"

definition settled :: "mem_state \<Rightarrow> automation_occurrence_dispatch_result \<Rightarrow> bool" where
  "settled s b \<longleftrightarrow>
     (\<exists>oc r k. hm_get (mm_occurrences s) (oc_id (dr_occurrence b)) = Some oc \<and>
        hm_get (mm_runs s) (run_id_of (dr_run b)) = Some r \<and>
        oc_state oc = settled_state k \<and> run_state_of r = completion_run_state k \<and> k \<noteq> RunCancelled)"

definition request_of :: "automation_occurrence_dispatch_result \<Rightarrow> scheduled_guest_request" where
  "request_of b = \<lparr>sg_occurrence_id = oc_id (dr_occurrence b), sg_run_id = run_id_of (dr_run b),
     sg_prompt = ms_content (dr_prompt b)\<rparr>"

lemma untouched_trans: "untouched i rid s t \<Longrightarrow> untouched i rid t u \<Longrightarrow> untouched i rid s u"
  unfolding untouched_def by (metis (no_types))

lemma untouched_ready:
  assumes "untouched i rid s s'" "ready s b" "oc_id (dr_occurrence b) \<noteq> i" "run_id_of (dr_run b) \<noteq> rid"
  shows "ready s' b"
  using assms unfolding untouched_def ready_def by simp

lemma untouched_settled:
  assumes "untouched i rid s s'" "settled s b" "oc_id (dr_occurrence b) \<noteq> i" "run_id_of (dr_run b) \<noteq> rid"
  shows "settled s' b"
proof -
  from assms(2) obtain oc r k where row: "hm_get (mm_occurrences s) (oc_id (dr_occurrence b)) = Some oc"
    "hm_get (mm_runs s) (run_id_of (dr_run b)) = Some r" "oc_state oc = settled_state k"
    "run_state_of r = completion_run_state k" "k \<noteq> RunCancelled" unfolding settled_def by blast
  have "\<not> is_queued oc" using row(3) by (cases k) simp_all
  with row assms(1,3,4) have "hm_get (mm_occurrences s') (oc_id (dr_occurrence b)) = Some oc"
    "hm_get (mm_runs s') (run_id_of (dr_run b)) = Some r" unfolding untouched_def by simp_all
  with row(3-5) show ?thesis unfolding settled_def by blast
qed

lemma guest_completion_settles: "guest_completion r \<noteq> RunCancelled"
  by (cases r rule: guest_completion.cases) simp_all

lemma dispatch_one:
  assumes inv: "sched_inv cal sha (wd_store w)" and w: "\<not> wd_cancelled w" "timely (wd_store w) (wd_clock w)"
    and b: "ready (wd_store w) b"
  shows "\<exists>w1. (\<forall>bs n. exec_prog (dispatch_each (memory_scheduler_store cal sha) guest (b # bs) n) w =
        exec_prog (dispatch_each (memory_scheduler_store cal sha) guest bs (Suc n)) w1) \<and>
      sched_inv cal sha (wd_store w1) \<and> \<not> wd_cancelled w1 \<and> timely (wd_store w1) (wd_clock w1) \<and>
      wd_requests w1 = wd_requests w @ [request_of b] \<and> settled (wd_store w1) b \<and>
      untouched (oc_id (dr_occurrence b)) (run_id_of (dr_run b)) (wd_store w) (wd_store w1)"
proof -
  let ?i = "oc_id (dr_occurrence b)" and ?rid = "run_id_of (dr_run b)" and ?oc = "dr_occurrence b"
  let ?s = "wd_store w" and ?now = "wd_clock w"
  from b obtain bd where bd: "hm_get (mm_dispatches ?s) ?i = Some bd" "run_id_of (dr_run bd) = ?rid"
      "dr_prompt bd = dr_prompt b"
    and oc: "hm_get (mm_occurrences ?s) ?i = Some ?oc" "oc_state ?oc = OccRunLinked" "oc_run_id ?oc = Some ?rid"
    and run: "hm_get (mm_runs ?s) ?rid = Some (dr_run b)" "run_state_of (dr_run b) = Queued"
    unfolding ready_def by blast
  obtain running s1 where begun: "mem_begin_automation_occurrence_run ?s ?i (oc_revision ?oc) ?rid
      (run_revision (dr_run b)) ?now = Inr (\<lparr>dr_occurrence = ?oc, dr_thread = dr_thread bd, dr_prompt = dr_prompt bd,
        dr_run = running\<rparr>, s1)"
    and s1: "mm_occurrences s1 = mm_occurrences ?s" "hm_get (mm_runs s1) ?rid = Some running"
      "run_id_of running = ?rid" "run_state_of running = Running" "hm_get (mm_dispatches s1) ?i \<noteq> None"
      "timely s1 ?now" "untouched ?i ?rid ?s s1"
    using begin_progress [OF bd(1,2) oc run refl w(2)] by blast
  have inv1: "sched_inv cal sha s1" using begin_keeps [OF begun inv] by blast
  define k where "k = guest_completion (select_result (guest (length (wd_requests w)) (request_of b)))"
  obtain oc' s2 where completed: "mem_complete_automation_occurrence_run s1 ?i (oc_revision ?oc) ?rid k ?now = Inr (oc', s2)"
    and s2: "hm_get (mm_occurrences s2) ?i = Some oc'" "oc_state oc' = settled_state k"
      "\<exists>r'. hm_get (mm_runs s2) ?rid = Some r' \<and> run_state_of r' = completion_run_state k"
      "timely s2 ?now" "untouched ?i ?rid s1 s2"
    using complete_progress [OF sched_inv_parts(4) [OF inv1], of ?i ?oc ?rid running ?now k] oc s1 by auto
  let ?w1 = "(wd_requests_update (\<lambda>rs. rs @ [request_of b]) w)\<lparr>wd_store := s2\<rparr>"
  have "exec_prog (dispatch_each (memory_scheduler_store cal sha) guest (b # bs) n) w =
      exec_prog (dispatch_each (memory_scheduler_store cal sha) guest bs (Suc n)) ?w1" for bs n
    using w(1) begun completed s1(3) bd(3)
    by (simp add: is_cancelled_def clock_now_def store_try_def store_write_def store_after_def run_guest_def
        dispatch_guest_def k_def request_of_def)
  moreover have "sched_inv cal sha s2" using complete_keeps [OF completed inv1] by blast
  moreover have "settled s2 b" unfolding settled_def k_def
    using s2(1-3) guest_completion_settles unfolding k_def by blast
  ultimately show ?thesis using w(1) s2(4) untouched_trans [OF s1(7) s2(5)] by (intro exI [of _ ?w1]) simp
qed

lemma ready_apart:
  assumes "sched_inv cal sha s" "ready s a" "ready s b" "oc_id (dr_occurrence a) \<noteq> oc_id (dr_occurrence b)"
  shows "run_id_of (dr_run a) \<noteq> run_id_of (dr_run b)"
proof
  assume "run_id_of (dr_run a) = run_id_of (dr_run b)"
  with assms(2,3) have "same_run (dr_occurrence a) (dr_occurrence b)" by (simp add: ready_def same_run_def)
  moreover have "hm_get (mm_occurrences s) (oc_id (dr_occurrence a)) = Some (dr_occurrence a)"
    "hm_get (mm_occurrences s) (oc_id (dr_occurrence b)) = Some (dr_occurrence b)"
    using assms(2,3) by (simp_all add: ready_def)
  ultimately show False using unique_byD [OF links_ok_run [OF sched_inv_parts(7) [OF assms(1)]]] assms(4) by blast
qed

lemma dispatch_each_settles:
  assumes "sched_inv cal sha (wd_store w)" "\<not> wd_cancelled w" "timely (wd_store w) (wd_clock w)"
    and "\<forall>b \<in> set bs. ready (wd_store w) b" "distinct (map (\<lambda>b. oc_id (dr_occurrence b)) bs)"
  shows "\<exists>w'. exec_prog (dispatch_each (memory_scheduler_store cal sha) guest bs n) w = (w', Inr (n + length bs)) \<and>
    wd_requests w' = wd_requests w @ map request_of bs \<and> (\<forall>b \<in> set bs. settled (wd_store w') b) \<and>
    (\<forall>b. settled (wd_store w) b \<longrightarrow> oc_id (dr_occurrence b) \<notin> (\<lambda>b. oc_id (dr_occurrence b)) ` set bs \<longrightarrow>
       run_id_of (dr_run b) \<notin> (\<lambda>b. run_id_of (dr_run b)) ` set bs \<longrightarrow> settled (wd_store w') b)"
  using assms
proof (induction bs arbitrary: w n)
  case (Cons b bs)
  then have "ready (wd_store w) b" by simp
  from dispatch_one [OF Cons.prems(1-3) this, of guest] obtain w1 where
    step: "\<And>bs n. exec_prog (dispatch_each (memory_scheduler_store cal sha) guest (b # bs) n) w =
        exec_prog (dispatch_each (memory_scheduler_store cal sha) guest bs (Suc n)) w1"
    and w1: "sched_inv cal sha (wd_store w1)" "\<not> wd_cancelled w1" "timely (wd_store w1) (wd_clock w1)"
      "wd_requests w1 = wd_requests w @ [request_of b]" "settled (wd_store w1) b"
      "untouched (oc_id (dr_occurrence b)) (run_id_of (dr_run b)) (wd_store w) (wd_store w1)" by blast
  have apart: "oc_id (dr_occurrence c) \<noteq> oc_id (dr_occurrence b)" "run_id_of (dr_run c) \<noteq> run_id_of (dr_run b)"
    if "c \<in> set bs" for c
  proof -
    show "oc_id (dr_occurrence c) \<noteq> oc_id (dr_occurrence b)" using Cons.prems(5) imageI [OF that, of "\<lambda>b. oc_id (dr_occurrence b)"] by auto
    then show "run_id_of (dr_run c) \<noteq> run_id_of (dr_run b)"
      using ready_apart [OF Cons.prems(1), of c b] Cons.prems(4) that by simp
  qed
  have "\<forall>c \<in> set bs. ready (wd_store w1) c"
    using untouched_ready [OF w1(6)] Cons.prems(4) apart by simp
  from Cons.IH [OF w1(1-3) this, of "Suc n"] Cons.prems(5) obtain w' where
    w': "exec_prog (dispatch_each (memory_scheduler_store cal sha) guest bs (Suc n)) w1 = (w', Inr (Suc n + length bs))"
      "wd_requests w' = wd_requests w1 @ map request_of bs" "\<forall>c \<in> set bs. settled (wd_store w') c"
    and kept: "\<And>c. settled (wd_store w1) c \<Longrightarrow> oc_id (dr_occurrence c) \<notin> (\<lambda>b. oc_id (dr_occurrence b)) ` set bs \<Longrightarrow>
       run_id_of (dr_run c) \<notin> (\<lambda>b. run_id_of (dr_run b)) ` set bs \<Longrightarrow> settled (wd_store w') c" by auto
  have "settled (wd_store w') b" using kept [OF w1(5)] apart by (metis (no_types, lifting) imageE)
  moreover have "settled (wd_store w') c" if "settled (wd_store w) c"
      "oc_id (dr_occurrence c) \<notin> (\<lambda>b. oc_id (dr_occurrence b)) ` set (b # bs)"
      "run_id_of (dr_run c) \<notin> (\<lambda>b. run_id_of (dr_run b)) ` set (b # bs)" for c
    using untouched_settled [OF w1(6) that(1)] that(2,3) kept [of c] by simp
  ultimately show ?case using step [of bs n] w' w1(4) by (intro exI [of _ w']) simp
qed simp

definition resumable :: "mem_state \<Rightarrow> automation_occurrence_dispatch_result \<Rightarrow> automation_occurrence_dispatch_result option" where
  "resumable s binding =
     (case (hm_get (mm_occurrences s) (oc_id (dr_occurrence binding)), hm_get (mm_runs s) (run_id_of (dr_run binding))) of
        (Some occurrence, Some run) \<Rightarrow>
          if oc_state occurrence = OccRunLinked \<and> run_state_of run = Queued \<and> oc_run_id occurrence = Some (run_id_of run)
          then Some (binding\<lparr>dr_occurrence := occurrence, dr_run := run\<rparr>) else None
      | _ \<Rightarrow> None)"

lemma list_resumable_Inr:
  assumes "mem_list_resumable_automation_dispatches s None limit = Inr bs"
  shows "bs = take limit (sort_key (\<lambda>r. automation_occurrence_id_str (oc_id (dr_occurrence r)))
           (List.map_filter (resumable s) (hm_values (mm_dispatches s))))"
  using assms unfolding mem_list_resumable_automation_dispatches_def Let_def and_then_Inr
  by (simp add: resumable_def [abs_def] cong: option.case_cong)

lemma resumable_Some:
  assumes inv: "sched_inv cal sha s" and bd: "bd \<in> set (hm_values (mm_dispatches s))" "resumable s bd = Some b"
  shows "ready s b \<and> oc_id (dr_occurrence b) = oc_id (dr_occurrence bd)"
proof -
  note parts = sched_inv_parts [OF inv]
  have wf: "hm_wf (mm_dispatches s)" using parts(6) unfolding dispatches_ok_def by (rule conjunct1)
  obtain i where "hm_get (mm_dispatches s) i = Some bd" using bd(1) hm_values_iff [OF wf, of bd] by blast
  then have stored: "hm_get (mm_dispatches s) (oc_id (dr_occurrence bd)) = Some bd"
    using parts(6) unfolding dispatches_ok_def by auto
  obtain oc r where rows: "hm_get (mm_occurrences s) (oc_id (dr_occurrence bd)) = Some oc"
    "hm_get (mm_runs s) (run_id_of (dr_run bd)) = Some r" "oc_state oc = OccRunLinked" "run_state_of r = Queued"
    "oc_run_id oc = Some (run_id_of r)" "b = bd\<lparr>dr_occurrence := oc, dr_run := r\<rparr>"
    using bd(2) by (auto simp: resumable_def split: option.splits if_splits)
  have "oc_id oc = oc_id (dr_occurrence bd)" using occurrences_ok_row [OF parts(4) rows(1)] by blast
  moreover have "run_id_of r = run_id_of (dr_run bd)" using run_id_stored [OF parts(1) rows(2)] .
  ultimately show ?thesis using stored rows by (simp add: ready_def)
qed

lemma list_resumable_ready:
  assumes inv: "sched_inv cal sha s" and list: "mem_list_resumable_automation_dispatches s None limit = Inr bs"
  shows "\<forall>b \<in> set bs. ready s b" "distinct (map (\<lambda>b. oc_id (dr_occurrence b)) bs)"
proof -
  let ?g = "\<lambda>b. oc_id (dr_occurrence b)" and ?xs = "hm_values (mm_dispatches s)"
  let ?ys = "sort_key (\<lambda>r. automation_occurrence_id_str (?g r)) (List.map_filter (resumable s) ?xs)"
  have bs: "bs = take limit ?ys" by (rule list_resumable_Inr [OF list])
  have "b \<in> set (List.map_filter (resumable s) ?xs)" if "b \<in> set bs" for b
    using that set_take_subset [of limit ?ys] unfolding bs by auto
  then show "\<forall>b \<in> set bs. ready s b" using resumable_Some [OF inv] by (fastforce simp: map_filter_def)
  have "map ?g ?xs = map fst (mm_dispatches s)"
    unfolding hm_values_def map_map
  proof (rule map_cong [OF refl])
    fix p assume "p \<in> set (mm_dispatches s)"
    then have "hm_get (mm_dispatches s) (fst p) = Some (snd p)"
      using sched_inv_parts(6) [OF inv] unfolding dispatches_ok_def by (blast intro: hm_get_member)
    then show "(?g \<circ> snd) p = fst p" using sched_inv_parts(6) [OF inv] unfolding dispatches_ok_def by simp
  qed
  then have "distinct (map ?g ?xs)" using sched_inv_parts(6) [OF inv] by (simp add: dispatches_ok_def hm_wf_def)
  then have "distinct (map ?g (List.map_filter (resumable s) ?xs))"
    by (rule distinct_map_filter) (use resumable_Some [OF inv] in blast)
  then have "distinct (map ?g ?ys)" by (simp add: distinct_map)
  then show "distinct (map ?g bs)" unfolding bs take_map [symmetric] by (rule distinct_take)
qed


section \<open>A concrete pass\<close>

definition sample_resumable :: mem_state where
  "sample_resumable = sample_bound_journal\<lparr>mm_ws := (mm_ws sample_bound_journal)\<lparr>
     ws_threads := [(ThreadId (lit ''t''), dr_thread sample_binding)],
     ws_messages := [(MessageId (lit ''m''), dr_prompt sample_binding)]\<rparr>\<rparr>"

lemma sample_resumable_maps:
  "mm_sched sample_resumable = mm_sched sample_bound_journal" "mm_exec sample_resumable = mm_exec sample_bound_journal"
  by (simp_all add: sample_resumable_def)

lemma sample_resumable_inv: "sched_inv plain_calendar (\<lambda>_. [7]) sample_resumable"
  using sample_bound_journal_inv by (simp add: sched_inv_def sample_resumable_maps)

lemma sample_resumable_list:
  "mem_list_resumable_automation_dispatches sample_resumable None 1 = Inr [sample_binding]"
proof -
  have "hm_get (mm_occurrences sample_resumable) (AutomationOccurrenceId (lit ''o'')) = Some sample_linked"
    "mm_runs sample_resumable = [(RunId (lit ''r''), sample_bound_run)]"
    "mm_dispatches sample_resumable = [(AutomationOccurrenceId (lit ''o''), sample_binding)]"
    by (simp_all add: sample_resumable_maps sample_bound_journal_maps sample_journal_maps sample_bound_runs)
  then show ?thesis
    by (simp add: mem_list_resumable_automation_dispatches_def hm_values_def map_filter_simps sample_rows
        sample_bound_run_fields max_automation_scheduler_tick_definitions_def sample_binding_def sample_resumable_def)
qed

lemma sample_resumable_timely: "timely sample_resumable 120600003"
  unfolding timely_def sample_resumable_maps sample_bound_journal_maps sample_bound_runs sample_journal_maps
  by (simp add: sample_linked_def sample_queued_def sample_next_def sample_bound_run_def run_queued_scheduled_def)


theorem guest_dispatched_at_most_once_witness:
  "\<exists>w ps. (open_step (serve_scheduler (memory_scheduler_store plain_calendar (\<lambda>_. [7])) plain_calendar (\<lambda>_. [7])
        (\<lambda>n. nat_to_dec n) (\<lambda>_ _. GuestTimedOut)) (world_env plain_calendar (\<lambda>_. [7])))\<^sup>*\<^sup>*
      (initial_world sample_resumable 120600003, []) (w, ps) \<and>
    length (wd_requests w) = 1 \<and> distinct (map sg_occurrence_id (wd_requests w))"
proof -
  let ?port = "memory_scheduler_store plain_calendar (\<lambda>_. [7])"
  let ?serve = "serve_scheduler ?port plain_calendar (\<lambda>_. [7]) (\<lambda>n. nat_to_dec n) (\<lambda>_ _. GuestTimedOut)"
  let ?w0 = "initial_world sample_resumable 120600003"
  have "\<forall>b \<in> set [sample_binding]. ready sample_resumable b"
    by (rule list_resumable_ready(1) [OF sample_resumable_inv sample_resumable_list])
  then obtain w where pass: "exec_prog (dispatch_each ?port (\<lambda>_ _. GuestTimedOut) [sample_binding] 0) ?w0 = (w, Inr 1)"
      and one: "wd_requests w = [request_of sample_binding]"
    using dispatch_each_settles [of plain_calendar "\<lambda>_. [7]" ?w0 "[sample_binding]" "\<lambda>_ _. GuestTimedOut" 0]
      sample_resumable_inv sample_resumable_timely by (auto simp: initial_world_def)
  have "exec_prog (?serve (DispatchRequest 1)) ?w0 = (w, Inr (CountReply 1))"
    using pass sample_resumable_list
    by (simp add: exec_map_prog dispatch_resumable_def max_automation_scheduler_tick_definitions_def store_read_def)
      (simp add: initial_world_def)
  then have steps: "(open_step ?serve (world_env plain_calendar (\<lambda>_. [7])))\<^sup>*\<^sup>* (?w0, []) (w, [] @ [Done (Inr (CountReply 1))])"
    by (rule open_serve)
  from guest_dispatched_at_most_once [OF sample_resumable_inv steps] steps one show ?thesis
    by (intro exI [of _ w] exI [of _ "[] @ [Done (Inr (CountReply 1))]"]) simp
qed

end
