(* ===== verification/ServiceEvaluation.thy ===== *)
theory ServiceEvaluation
  imports ServiceProperties
begin

text \<open>
  The scheduler's evaluation and claiming: the lease fence, which shuts out an owner that was
  replaced; the accounting of decisions, which loses no slot of the schedule; and the title of the
  thread a claimed occurrence gets, which is longer than the thread entity admits when the
  automation's own title is near its limit.
\<close>

section \<open>The lease fence\<close>

abbreviation lease_of :: "mem_state \<Rightarrow> automation_scheduler_lease option" where
  "lease_of s \<equiv> sc_lease (mm_sched s)"

lemma commit_lease:
  assumes "mem_commit_automation_schedule_evaluation cal sha s ev = Inr (x, s')"
  shows "lease_of s' = lease_of s"
  using assms by (rule commit_Inr) (simp_all add: commit_evaluation_state_def Let_def fold_keeps [where f = lease_of])

lemma claim_lease:
  assumes "mem_claim_automation_occurrence cal sha s claim = Inr (x, s')"
  shows "lease_of s' = lease_of s"
  using assms by (auto simp: mem_claim_automation_occurrence_def and_then_Inr put_claim_command_def put_attempts_def
      put_occurrence_def split: option.splits if_splits)

lemma bind_lease:
  assumes "mem_claim_and_bind_automation_occurrence cal sha s d = Inr (x, s')"
  shows "lease_of s' = lease_of s"
  using assms by (auto simp: mem_claim_and_bind_automation_occurrence_def and_then_Inr Let_def bind_dispatch_state_def
      put_claim_command_def put_attempts_def put_occurrence_def put_dispatch_def split: option.splits if_splits)

lemma begin_lease:
  assumes "mem_begin_automation_occurrence_run s i erev rid rrev now = Inr (x, s')"
  shows "lease_of s' = lease_of s"
  using assms by (rule begin_Inr) (simp add: put_run_def)

lemma complete_lease:
  assumes "mem_complete_automation_occurrence_run s i erev rid k now = Inr (x, s')"
  shows "lease_of s' = lease_of s"
  using assms by (rule complete_Inr) (simp add: complete_run_state_def Let_def put_run_def put_occurrence_def split: option.split)

lemma link_lease:
  assumes "mem_link_automation_occurrence_run s token i erev rid now = Inr (x, s')"
  shows "lease_of s' = lease_of s"
  using assms by (auto simp: mem_link_automation_occurrence_run_def and_then_Inr put_attempts_def)

lemma recover_lease:
  assumes "mem_recover_automation_occurrence_claims cal sha s token now limit = Inr (x, s')"
  shows "lease_of s' = lease_of s"
proof -
  from assms obtain r where "s' = apply_recovery r s"
    unfolding mem_recover_automation_occurrence_claims_def and_then_Inr Let_def by blast
  then show ?thesis
    by (simp add: apply_recovery_def Let_def fold_keeps [where f = lease_of] put_attempts_def
        apply_recovered_occurrence_def apply_recovered_run_def split_beta)
qed

lemma acquire_fence:
  assumes "mem_acquire_automation_scheduler_lease s owner now ttl = Inr (x, s')" and "lease_of s = Some l"
  shows "\<exists>l'. lease_of s' = Some l' \<and> le_fence l \<le> le_fence l'"
  using assms
  by (auto simp: mem_acquire_automation_scheduler_lease_def acquire_at_or_after_floor_def result_simps put_lease_def
      lease_renew_def lease_take_over_def lease_acquire_def split: option.splits if_splits)

lemma sched_step_fence:
  assumes "sched_step cal sha s s'" "lease_of s = Some l"
  shows "\<exists>l'. lease_of s' = Some l' \<and> le_fence l \<le> le_fence l'"
  using assms(1)
proof cases
  case (acquire owner now ttl x)
  with assms(2) show ?thesis by (rule acquire_fence [rotated])
qed (use assms(2) in \<open>auto dest: commit_lease claim_lease bind_lease begin_lease complete_lease link_lease recover_lease\<close>)

lemma sched_steps_fence:
  assumes "sched_steps cal sha s t" "lease_of s = Some l"
  shows "\<exists>l'. lease_of t = Some l' \<and> le_fence l \<le> le_fence l'"
  using assms
proof (induction rule: rtranclp_induct)
  case (step t u)
  then show ?case using sched_step_fence [OF step.hyps(2)] order_trans by blast
qed simp

lemma stale_lease_refused:
  assumes "lease_of s = Some l" "lt_fence token < le_fence l"
  shows "\<exists>e. require_automation_scheduler_lease s token now = Inl e"
  using assms by (auto simp: require_automation_scheduler_lease_def and_then_def fail_if_def map_err_def lease_token_def
      split: sum.split)

text \<open>C7. A replaced scheduler owner is fenced off: once the lease has a higher fence than a token,
  whatever is committed afterwards, a commit, claim or dispatch under that token changes nothing (it
  fails or repeats a recorded answer), and a recovery or a link under it fails.\<close>

theorem replaced_owner_fenced_off:
  assumes "sc_lease (mm_sched s) = Some l" and "lt_fence token < le_fence l" and "sched_steps cal sha s t"
  shows "(\<forall>ev x t'. ve_lease ev = token \<longrightarrow> mem_commit_automation_schedule_evaluation cal sha t ev = Inr (x, t') \<longrightarrow> t' = t) \<and>
    (\<forall>c x t'. cl_lease c = token \<longrightarrow> mem_claim_automation_occurrence cal sha t c = Inr (x, t') \<longrightarrow> t' = t) \<and>
    (\<forall>d x t'. cl_lease (di_claim d) = token \<longrightarrow>
       mem_claim_and_bind_automation_occurrence cal sha t d = Inr (x, t') \<longrightarrow> t' = t) \<and>
    (\<forall>now limit. \<exists>e. mem_recover_automation_occurrence_claims cal sha t token now limit = Inl e) \<and>
    (\<forall>i erev rid now. \<exists>e. mem_link_automation_occurrence_run t token i erev rid now = Inl e)"
proof -
  obtain l' where l': "lease_of t = Some l'" "lt_fence token < le_fence l'"
    using sched_steps_fence [OF assms(3,1)] assms(2) by (blast intro: order_less_le_trans)
  have no: "require_automation_scheduler_lease t token now = Inr x \<longleftrightarrow> False" for now x
    using stale_lease_refused [OF l', of now] by auto
  have "t' = t" if "ve_lease ev = token" "mem_commit_automation_schedule_evaluation cal sha t ev = Inr (x, t')" for ev x t'
    using that no by (auto simp: mem_commit_automation_schedule_evaluation_def and_then_Inr split: option.splits if_splits)
  moreover have "t' = t" if "cl_lease c = token" "mem_claim_automation_occurrence cal sha t c = Inr (x, t')" for c x t'
    using that no by (auto simp: mem_claim_automation_occurrence_def claimable_occurrence_def and_then_Inr
        split: option.splits if_splits)
  moreover have "t' = t" if "cl_lease (di_claim d) = token"
      "mem_claim_and_bind_automation_occurrence cal sha t d = Inr (x, t')" for d x t'
    using that no by (auto simp: mem_claim_and_bind_automation_occurrence_def claimable_occurrence_def and_then_Inr Let_def
        split: option.splits if_splits)
  moreover have "\<exists>e. mem_recover_automation_occurrence_claims cal sha t token now limit = Inl e" for now limit
    using stale_lease_refused [OF l', of now]
    by (auto simp: mem_recover_automation_occurrence_claims_def and_then_def fail_if_def)
  moreover have "\<exists>e. mem_link_automation_occurrence_run t token i erev rid now = Inl e" for i erev rid now
    using stale_lease_refused [OF l', of now] by (auto simp: mem_link_automation_occurrence_run_def)
  ultimately show ?thesis by blast
qed

theorem replaced_owner_fenced_off_witness:
  "\<exists>e. mem_recover_automation_occurrence_claims plain_calendar (\<lambda>_. [7]) sample_journal
     \<lparr>lt_owner_id = AutomationSchedulerOwnerId (lit ''v''), lt_fence = 0\<rparr> 120620000 1 = Inl e"
  using replaced_owner_fenced_off [of sample_journal, OF _ _ rtranclp.rtrancl_refl,
      of _ "\<lparr>lt_owner_id = AutomationSchedulerOwnerId (lit ''v''), lt_fence = 0\<rparr>" plain_calendar "\<lambda>_. [7]"]
  by (simp add: sample_journal_def)

section \<open>Every decision is accounted for\<close>

lemma materialize_due_Inr:
  assumes "exec_prog (materialize_due cal sha uuid a snapshot now n d) w = (w', Inr oc)"
  shows "oc_nominal_local oc = decision_nominal_local d \<and> oc_occurrence_count oc = n \<and> oc_state oc = OccPending"
  using assms
  by (cases d) (auto simp: materialize_due_def exec_try_prog map_err_Inr occurrence_pending_def
      occurrence_materialize_def occurrence_restore_Inr and_then_Inr split: prod.splits sum.splits)

lemma materialize_gap_Inr:
  assumes "exec_prog (materialize_gap cal sha uuid a snapshot now d) w = (w', Inr oc)"
  shows "oc_nominal_local oc = decision_nominal_local d \<and> oc_occurrence_count oc = 1 \<and>
    oc_state oc = OccSkippedInvalidLocalTime"
  using assms
  by (cases d) (auto simp: materialize_gap_def exec_try_prog map_err_Inr occurrence_skipped_invalid_local_time_def
      occurrence_materialize_def occurrence_restore_Inr and_then_Inr split: prod.splits sum.splits)

lemma materialize_missed_Inr:
  assumes "exec_prog (materialize_missed cal sha uuid a snapshot now missed) w = (w', Inr ocs)"
  shows "map (\<lambda>oc. (oc_nominal_local oc, unat (oc_occurrence_count oc), oc_state oc)) ocs =
    (if missed = [] then []
     else [(decision_nominal_local (last missed), length missed,
            if es_missed_run_policy snapshot = MissedSkip then OccSkippedMissed else OccPending)])"
proof (cases "missed = []")
  case False
  then have "exec_prog (try_prog (Done (ok_or (u32_try_from (length missed))
          (InvalidState (MsgText ''automation missed-run count is exhausted'')))) (\<lambda>count.
        try_prog (materialize_due cal sha uuid a snapshot now count (last missed)) (\<lambda>oc.
        if es_missed_run_policy snapshot = MissedSkip
        then Done (map_ok (\<lambda>oc. [oc]) (map_err app_of_scheduler (occurrence_skip_missed oc now)))
        else Done (Inr [oc])))) w = (w', Inr ocs)" using assms by (simp add: materialize_missed_def)
  then obtain n oc v where n: "u32_try_from (length missed) = Some n"
    and due: "exec_prog (materialize_due cal sha uuid a snapshot now n (last missed)) w = (v, Inr oc)"
    and "exec_prog (if es_missed_run_policy snapshot = MissedSkip
        then Done (map_ok (\<lambda>oc. [oc]) (map_err app_of_scheduler (occurrence_skip_missed oc now)))
        else Done (Inr [oc])) v = (w', Inr ocs)"
    unfolding exec_try_prog_Inr exec_prog.simps prod.inject ok_or_Inr by blast
  then have ocs: "if es_missed_run_policy snapshot = MissedSkip
       then map_ok (\<lambda>oc. [oc]) (map_err app_of_scheduler (occurrence_skip_missed oc now)) = Inr ocs else ocs = [oc]"
    by (simp split: if_splits)
  have "unat n = length missed" using n by (auto simp: u32_try_from_def unat_of_nat split: if_splits)
  with materialize_due_Inr [OF due] ocs False show ?thesis
    by (auto simp: map_ok_Inr map_err_Inr occurrence_skip_missed_def occurrence_move_unclaimed_to_def and_then_Inr
        split: if_splits)
qed (use assms in \<open>simp add: materialize_missed_def\<close>)

text \<open>C8. Materializing loses no decision: the rows are one per skipped local time, one per current
  decision and one for all missed ones, at the local times of their decisions, and the counts add up
  to the number of decisions; the row for the missed ones is skipped or pending as the policy says.\<close>

theorem decisions_accounted_for:
  assumes "exec_prog (materialize_decisions cal sha uuid a snapshot decisions continuity now) w = (w', Inr ocs)"
  shows "map (\<lambda>oc. (oc_nominal_local oc, unat (oc_occurrence_count oc), oc_state oc)) ocs =
      map (\<lambda>d. (decision_nominal_local d, 1, OccSkippedInvalidLocalTime)) (filter is_gap decisions) @
      (let missed = filter (is_missed continuity) decisions in
       if missed = [] then []
       else [(decision_nominal_local (last missed), length missed,
              if es_missed_run_policy snapshot = MissedSkip then OccSkippedMissed else OccPending)]) @
      map (\<lambda>d. (decision_nominal_local d, 1, OccPending)) (filter (is_current continuity) decisions) \<and>
    sum_list (map (\<lambda>oc. unat (oc_occurrence_count oc)) ocs) = length decisions"
proof -
  let ?row = "\<lambda>oc. (oc_nominal_local oc, unat (oc_occurrence_count oc), oc_state oc)"
  let ?missed = "filter (is_missed continuity) decisions"
  obtain v1 gs v2 ms v3 cs where
    g: "exec_prog (collect_prog (materialize_gap cal sha uuid a snapshot now) (filter is_gap decisions)) w = (v1, Inr gs)"
    and m: "exec_prog (materialize_missed cal sha uuid a snapshot now ?missed) v1 = (v2, Inr ms)"
    and c: "exec_prog (collect_prog (materialize_due cal sha uuid a snapshot now 1)
        (filter (is_current continuity) decisions)) v2 = (v3, Inr cs)"
    and ocs: "gs @ ms @ cs = ocs"
    using assms unfolding materialize_decisions_def Let_def exec_try_prog_Inr exec_prog.simps prod.inject sum.inject
    by (elim exE conjE) (rule that, assumption+)
  have "map ?row gs = map (\<lambda>d. (decision_nominal_local d, 1, OccSkippedInvalidLocalTime)) (filter is_gap decisions)"
    using collect_Inr [OF g] by (induction rule: list_all2_induct) (auto dest: materialize_gap_Inr)
  moreover have "map ?row cs = map (\<lambda>d. (decision_nominal_local d, 1, OccPending)) (filter (is_current continuity) decisions)"
    using collect_Inr [OF c] by (induction rule: list_all2_induct) (auto dest: materialize_due_Inr)
  moreover note materialize_missed_Inr [OF m]
  ultimately have rows: "map ?row ocs =
      map (\<lambda>d. (decision_nominal_local d, 1, OccSkippedInvalidLocalTime)) (filter is_gap decisions) @
      (if ?missed = [] then []
       else [(decision_nominal_local (last ?missed), length ?missed,
              if es_missed_run_policy snapshot = MissedSkip then OccSkippedMissed else OccPending)]) @
      map (\<lambda>d. (decision_nominal_local d, 1, OccPending)) (filter (is_current continuity) decisions)"
    by (simp add: ocs [symmetric])
  have parts: "length (filter is_gap ds) + length (filter (is_missed continuity) ds) +
      length (filter (is_current continuity) ds) = length ds" for ds
  proof (induction ds)
    case (Cons d ds)
    then show ?case by (cases d) auto
  qed simp
  have "sum_list (map (\<lambda>oc. unat (oc_occurrence_count oc)) ocs) = sum_list (map (fst \<circ> snd) (map ?row ocs))"
    by (simp add: comp_def)
  also have "\<dots> = length (filter is_gap decisions) + length ?missed + length (filter (is_current continuity) decisions)"
    unfolding rows by (cases "?missed = []") (simp_all add: comp_def sum_list_triv)
  also note parts
  finally have "sum_list (map (\<lambda>oc. unat (oc_occurrence_count oc)) ocs) = length decisions" .
  with rows show ?thesis by (simp add: Let_def)
qed

section \<open>Titles near the limit\<close>

lemma thread_title_len: "str_len (automation_thread_title title) = 14 + str_len title"
  by (simp add: automation_thread_title_def str_len_append str_len_Cons utf8_width_def)

lemma long_title_refused:
  assumes "186 < str_len title"
  shows "\<exists>e. thread_new tid pid (automation_thread_title title) now = Inl e"
proof -
  have "max_name_bytes < str_len (automation_thread_title title)"
    using assms by (simp add: thread_title_len max_name_bytes_def)
  then show ?thesis by (simp add: thread_new_def validate_text_def and_then_def fail_if_def)
qed

lemma bind_long_title:
  assumes "oc_state oc = OccPending" "186 < str_len (es_title (oc_snapshot oc))"
  shows "\<exists>w' e. exec_prog (bind_occurrence port sha uuid lease now n oc) w = (w', Inl e) \<and> wd_store w' = wd_store w"
proof (cases "id_new (lit ''automation-thread'' @ lit ''-'' @ uuid (wd_generated w))")
  case (Inr v)
  obtain e where "thread_new (ThreadId v) (es_project_id (oc_snapshot oc))
      (automation_thread_title (es_title (oc_snapshot oc))) now = Inl e"
    using long_title_refused [OF assms(2)] by blast
  with assms(1) Inr show ?thesis
    by (simp add: bind_occurrence_def Let_def new_id_def generate_def)
qed (use assms(1) in \<open>simp add: bind_occurrence_def Let_def new_id_def generate_def\<close>)

lemma fold_bind_long_title:
  assumes "\<forall>d \<in> set ds. oc_state d \<noteq> OccPending"
    and "oc_state oc = OccPending" "186 < str_len (es_title (oc_snapshot oc))"
  shows "\<exists>w' e. exec_prog (fold_prog (bind_occurrence port sha uuid lease now) n (ds @ oc # rest)) w = (w', Inl e) \<and>
    wd_store w' = wd_store w"
  using assms(1)
proof (induction ds)
  case Nil
  obtain w' e where "exec_prog (bind_occurrence port sha uuid lease now n oc) w = (w', Inl e)" "wd_store w' = wd_store w"
    using bind_long_title [OF assms(2,3)] by blast
  then show ?case by (simp add: exec_try_prog)
qed (simp add: bind_occurrence_def)


section \<open>A concrete automation with a long title\<close>

definition long_title :: rstr where
  "long_title = replicate 187 97"

definition long_automation :: automation where
  "long_automation =
     \<lparr>au_id = AutomationId (lit ''a''), au_project_id = ProjectId (lit ''p''), au_title = long_title,
      au_prompt = lit ''q'', au_schedule = to_canonical_string morning, au_timezone = lit ''UTC'',
      au_missed_run_policy = MissedSkip, au_overlap_policy = OverlapQueueOne, au_state = AutomationEnabled,
      au_revision = 0, au_created_at = 0, au_updated_at = 0\<rparr>"

definition long_occurrence :: automation_occurrence where
  "long_occurrence = sample_occurrence\<lparr>oc_snapshot := sample_snapshot\<lparr>es_title := long_title\<rparr>\<rparr>"

definition long_journal :: mem_state where
  "long_journal = mem_empty\<lparr>
     mm_ws := (mm_ws mem_empty)\<lparr>
       ws_projects := [(ProjectId (lit ''p''), \<lparr>pr_id = ProjectId (lit ''p''), pr_name = lit ''P'', pr_description = [],
         pr_state = ProjectActive, pr_revision = 0, pr_created_at = 0, pr_updated_at = 0\<rparr>)],
       ws_automations := [(AutomationId (lit ''a''), long_automation)]\<rparr>,
     mm_sched := (mm_sched mem_empty)\<lparr>sc_occurrences := [(AutomationOccurrenceId (lit ''o''), long_occurrence)]\<rparr>\<rparr>"

lemma long_title_text:
  "str_len long_title = 187" "str_trim long_title = long_title" "\<not> list_ex char_is_control long_title"
  "long_title \<noteq> []" "0 \<notin> set long_title"
proof -
  have "str_len (replicate n 97) = n" for n by (induction n) (simp_all add: str_len_Cons utf8_width_def)
  then show "str_len long_title = 187" by (simp add: long_title_def)
  have "dropWhile char_is_whitespace (replicate n 97) = replicate n 97" for n
    by (cases n) (simp_all add: char_is_whitespace_def)
  then show "str_trim long_title = long_title" by (simp add: str_trim_def long_title_def)
qed (auto simp: long_title_def char_is_control_def list_ex_iff)

lemma long_snapshot_valid:
  "execution_snapshot_valid plain_calendar (\<lambda>_. [7]) (sample_snapshot\<lparr>es_title := long_title\<rparr>)"
proof -
  have "is_ok (validate_execution_text long_title (es_prompt sample_snapshot))"
    using sample_snapshot_valid long_title_text
    by (auto simp: execution_snapshot_valid_def validate_execution_text_def Let_def max_automation_title_bytes_def is_ok_iff fail_if_Inr)
  then show ?thesis using sample_snapshot_valid by (auto simp: execution_snapshot_valid_def split: sum.splits)
qed

lemma long_automation_snapshot:
  "automation_scheduler_snapshot plain_calendar (\<lambda>_. [7]) long_automation = Inr (sample_snapshot\<lparr>es_title := long_title\<rparr>)"
proof -
  have "list_ex (\<lambda>c. c = 0 \<or> char_is_control c) long_title \<longleftrightarrow> False"
    using long_title_text(3,5) by (auto simp: list_ex_iff)
  then have "validate_text ''automation.title'' long_title 1 max_name_bytes True = Inr ()"
    by (simp add: validate_text_def long_title_text max_name_bytes_def)
  moreover have "validate_text ''automation.prompt'' (lit ''q'') 1 max_prompt_bytes False = Inr ()"
    "validate_text ''automation.timezone'' (lit ''UTC'') 1 128 True = Inr ()"
    by (simp_all add: validate_text_def max_prompt_bytes_def str_trim_def char_is_whitespace_def
        str_len_Cons utf8_width_def char_is_control_def)
  moreover have parsed: "parse_canonical (to_canonical_string morning) = Inr morning"
    using morning_valid by (simp add: parse_canonical_iff)
  ultimately have "automation_restore plain_calendar long_automation = Inr long_automation"
    unfolding automation_restore_def validate_automation_text_def
    by (simp add: long_automation_def is_timezone_char_def plain_calendar_def)
  moreover have "automation_snapshot plain_calendar (\<lambda>_. [7]) long_automation = Inr (sample_snapshot\<lparr>es_title := long_title\<rparr>)"
    using long_snapshot_valid parsed
    by (simp add: automation_snapshot_def execution_snapshot_new_def execution_snapshot_valid_def long_automation_def
        sample_snapshot_def is_ok_iff canonicalize_timezone_def parse_timezone_def plain_calendar_def
        schedule_fingerprint_def automation_schedule_calculator_version_def)
  ultimately show ?thesis by (simp add: automation_scheduler_snapshot_def)
qed

lemma long_occurrence_restores: "journal_restore plain_calendar (\<lambda>_. [7]) long_occurrence = Inr long_occurrence"
proof -
  have "occurrence_pending plain_calendar (\<lambda>_. [7]) (AutomationOccurrenceId (lit ''o'')) (AutomationId (lit ''a''))
      (sample_snapshot\<lparr>es_title := long_title\<rparr>)
      (DecisionDue \<lparr>ld_year = 0, ld_month = 1, ld_day = 1, ld_hour = 9, ld_minute = 30\<rparr> 34200000) 1 34200000 =
      Inr long_occurrence"
    using first_morning_decision
    by (subst pending_due [OF long_snapshot_valid])
       (simp_all add: first_morning_def long_occurrence_def sample_occurrence_def)
  from occurrence_rest.init_accepted [OF occurrence_fresh.pending [OF this]]
  show ?thesis by (simp add: journal_restore_Inr occurrence_inv_def)
qed


theorem decisions_accounted_for_witness:
  "\<exists>w' ocs. exec_prog (materialize_decisions plain_calendar (\<lambda>_. [7]) (\<lambda>n. nat_to_dec n) long_automation sample_snapshot
      [first_morning, second_morning] 200000000 200000000) (initial_world long_journal 200000000) = (w', Inr ocs) \<and>
    sum_list (map (\<lambda>oc. unat (oc_occurrence_count oc)) ocs) = 2"
proof -
  have "\<exists>w' ocs. exec_prog (materialize_decisions plain_calendar (\<lambda>_. [7]) (\<lambda>n. nat_to_dec n) long_automation sample_snapshot
      [first_morning, second_morning] 200000000 200000000) (initial_world long_journal 200000000) = (w', Inr ocs)"
    using pending_due [OF sample_snapshot_valid _ second_morning_decision [unfolded second_morning_def, simplified], of 2]
    by (simp add: materialize_decisions_def Let_def first_morning_def second_morning_def materialize_missed_def
        u32_try_from_def materialize_due_def new_occurrence_id_def new_id_def generate_def initial_world_def id_new_def
        nat_to_dec.simps str_len_Cons utf8_width_def char_is_control_def occurrence_skip_missed_def
        occurrence_move_unclaimed_to_def occurrence_ensure_time_def advance_revision_def checked_add_def sample_snapshot_def)
  then obtain w' ocs where e: "exec_prog (materialize_decisions plain_calendar (\<lambda>_. [7]) (\<lambda>n. nat_to_dec n) long_automation
      sample_snapshot [first_morning, second_morning] 200000000 200000000) (initial_world long_journal 200000000) = (w', Inr ocs)"
    by (elim exE)
  from decisions_accounted_for [OF this] e show ?thesis by auto
qed

end
