(* ===== verification/Spec2Isabelle.thy ===== *)
theory Spec2Isabelle
  imports ExecutionProperties TurnEvents ServiceEvaluation
begin

text \<open>
  Verification of the Grok Desktop daemon core (crates under \<open>src/crates\<close>).

  \<^bold>\<open>The program.\<close> The daemon keeps durable aggregates (runs, approvals, side effects, privileged
  operations, conversation turns, workspace entities, automations and their scheduled occurrences;
  crate \<open>grok-domain\<close>), drives them through use cases (crate \<open>grok-application\<close>) and commits every use case through a store port that
  compares optimistic revisions, assigns audit sequence numbers and journals idempotency keys
  (\<open>grok-memory\<close> holds the in-memory implementation of the port).

  \<^bold>\<open>Shared vocabulary.\<close> \<open>Prelude\<close> has Rust's words with checked and saturating arithmetic, \<open>Result\<close>
  as a sum type with the \<open>?\<close> operator \<open>and_then\<close>, strings as lists of code points measured in
  UTF-8 bytes, hash maps as association lists. \<open>Encodings\<close> has UTF-8, big-endian and decimal
  encodings with their injectivity. \<open>Aggregates\<close> has the contracts the aggregates share, as
  locales: \<open>revisioned\<close> (every mutation advances the revision and the clock and keeps the
  identity), \<open>lifecycle\<close> (closed edge relation, final states), \<open>restorable\<close> (what the operations
  produce passes the check on persisted rows) and \<open>one_shot\<close> (an operation that succeeds at most
  once). \<open>Ids\<close> models \<open>id.rs\<close>.

  \<^bold>\<open>Aggregates.\<close> Each theory has the record, the enums, one definition per operation and a step
  relation made of the operations, interprets the locales on them and proves what the
  aggregate promises.
  \<^item> \<open>Runs\<close>: \<open>run.rs\<close>. \<open>Approvals\<close>: \<open>approval.rs\<close> (single use, decided in time). \<open>Effects\<close>:
    \<open>effect.rs\<close> (dispatched once, uncertain effects are final).
  \<^item> \<open>Privileged\<close>: \<open>privileged_operation.rs\<close>; the exact set of reachable snapshots compared with
    what \<open>restore\<close> accepts, and single dispatch of non-idempotent operations.
  \<^item> \<open>Workspace\<close>: \<open>workspace.rs\<close>, whose automation definitions are in \<open>Automations\<close>; \<open>restore\<close> of threads, lineages, messages and
    artifacts accepts what histories produce, the fork depth counts forks.
  \<^item> \<open>ConversationTurns\<close> and \<open>TurnEvents\<close>: \<open>conversation.rs\<close>; \<open>restore\<close> accepts exactly the
    reachable turns, the provider is started once, retry chains are bounded, and the event stream
    is accepted exactly in its canonical shape, round-trips and simulates the turn.
  \<^item> \<open>Schedules\<close>, \<open>Occurrences\<close> and \<open>Automations\<close>: \<open>automation.rs\<close> and the automations of
    \<open>workspace.rs\<close>; the schedule text has one canonical form, the calendar loop ends and returns
    the decisions of a reference enumeration, occurrences and leases step along their lifecycles,
    and a stored automation can always be frozen into an execution snapshot.

  \<^bold>\<open>Use cases and store.\<close> \<open>Programs\<close> models an asynchronous use case as a sequence of atomic store
  calls with pure code between them and gives the interleaving semantics of a pool of running
  use cases, with a rely/guarantee rule (\<open>rely_guarantee\<close>) and an accounting rule for actions that
  must happen at most once in any interleaving (\<open>ledger\<close>). \<open>Application\<close> has \<open>error.rs\<close> and the idempotency
  commands of \<open>mutations.rs\<close>. \<open>ExecutionStore\<close> has the \<open>ExecutionStore\<close> port of \<open>ports.rs\<close> and its
  in-memory implementation; \<open>ExecutionInvariants\<close> its invariant, kept by every operation;
  \<open>ExecutionServices\<close> the use cases of \<open>runs.rs\<close>, \<open>approvals.rs\<close> and \<open>effects.rs\<close>;
  \<open>ExecutionProperties\<close> what holds of every reachable state under every interleaving.

  \<^bold>\<open>The automation scheduler.\<close> \<open>MemoryState\<close> has the whole state of the in-memory store that the
  scheduler touches and the data of its port; \<open>SchedulerStore\<close> the implementation of
  \<open>AutomationSchedulerStore\<close> in \<open>grok-memory\<close>: lease, evaluation commit, claim, dispatch binding,
  begin and completion of the bound run, recovery. \<open>SchedulerInvariants\<close> states the invariant of
  the journal, and \<open>SchedulerOperations\<close>, \<open>SchedulerRecovery\<close> and \<open>SchedulerCommit\<close> show that every
  operation keeps it. \<open>SchedulerProperties\<close> draws the consequences for every sequence of operations:
  one active and one queued occurrence per automation, a run begun at most once, a journal that is
  always readable, and a queued occurrence that recovery leaves behind.
  \<open>SchedulerServices\<close> has every method of \<open>AutomationSchedulerService\<close> (\<open>automation_scheduler.rs\<close>)
  as a program over the port. The locale \<open>scheduler_port\<close> of \<open>ServiceProperties\<close> is what the service
  relies on, discharged for the in-memory store: a guest is handed each occurrence at most once under
  every interleaving, and an undisturbed dispatch pass settles what it lists. \<open>ServiceEvaluation\<close>
  shows that a replaced lease owner changes nothing, that materialization accounts for every
  decision, and that a long automation title keeps an occurrence from being dispatched.

  \<^bold>\<open>Parameters and bounds.\<close> The clock and freshly generated identifiers are arguments of the
  execution use cases; the scheduler's programs read both from a \<open>world\<close>, where identifiers come
  from an arbitrary function \<open>uuid\<close> of the number drawn and the outcome of a guest dispatch from an
  arbitrary function \<open>guest\<close>. The calendar and time-zone database are a record \<open>cal\<close> of the
  operations called; \<open>calendar_laws\<close> and \<open>timezone_laws\<close> state what is relied on, and
  \<open>plain_calendar\<close> satisfies them. SHA-256 is an arbitrary function \<open>sha\<close>; the one property that needs it to separate two
  commands says so by a hypothesis about those two inputs. \<open>url::Url::parse\<close> is an arbitrary
  function \<open>url\<close>. The calendar loop is a partial function that is proved to return; all other
  recursion is structural, and no fuel is used.

  \<^bold>\<open>Not modelled.\<close> The other stores of the in-memory adapter and their use cases (workspace,
  artifacts, conversations, credentials, preferences, privileged operations), the host-execution,
  preference and capability values of the domain crate, the SQLCipher stores, the daemon's process
  and wire protocol, the agent and provider clients, artifact storage and vault adapters, host tools
  and the virtual-machine client, the desktop front end, and the native services and guest runner.
\<close>

end
